(* ===== verification/Prelude.thy ===== *)
theory Prelude
  imports Main "HOL-Library.AList" "HOL-Library.Multiset"
begin

text \<open>
  What every component of the development shares: Go errors and outcomes, Go slices (which
  can be nil), Go maps (a list of entries with distinct keys, ranged over in any order),
  64-bit integer wrap-around, and the generic lemmas about them.

  \<^item> An \<open>error\<close> is a sentinel the code compares by identity or a formatted text;
    \<open>Error\<close> is its \<^verbatim>\<open>Error()\<close> method.
  \<^item> An \<open>outcome\<close> is what a call with an error result does: return a value, return an
    error, or panic.
  \<^item> A Go map is an association list whose keys are distinct. The order of its entries is
    not a property of the map: a \<^verbatim>\<open>range\<close> loop takes the order as an argument, a list that
    is a permutation of the entries (\<open>ranges\<close>).
\<close>

section \<open>Errors and outcomes\<close>

datatype error = ErrNotFound | ErrorString string

fun Error :: "error \<Rightarrow> string" where
  "Error ErrNotFound = ''event not found''"
| "Error (ErrorString s) = s"

abbreviation Errorf :: "string \<Rightarrow> error option" where
  "Errorf s \<equiv> Some (ErrorString s)"

definition wrap_err :: "string \<Rightarrow> error \<Rightarrow> error" where
  "wrap_err s e = ErrorString (s @ Error e)"

datatype 'a outcome = Ok 'a | Err error | Panic

fun is_ok :: "'a outcome \<Rightarrow> bool" where
  "is_ok (Ok _) = True"
| "is_ok _ = False"

section \<open>Slices\<close>

text \<open>A slice is nil (\<open>None\<close>) or holds elements; \<open>len\<close> and \<open>range\<close> see nil as empty.\<close>

type_synonym 'a slice = "'a list option"

fun elems :: "'a slice \<Rightarrow> 'a list" where
  "elems None = []"
| "elems (Some xs) = xs"

section \<open>Maps\<close>

type_synonym ('k, 'v) gomap = "('k \<times> 'v) list"

definition wf_map :: "('k, 'v) gomap \<Rightarrow> bool" where
  "wf_map m \<longleftrightarrow> distinct (map fst m)"

definition mget :: "('k, 'v) gomap \<Rightarrow> 'k \<Rightarrow> 'v option" where
  "mget m k = map_of m k"

definition mput :: "'k \<Rightarrow> 'v \<Rightarrow> ('k, 'v) gomap \<Rightarrow> ('k, 'v) gomap" where
  "mput k v m = AList.update k v m"

definition mdel :: "'k \<Rightarrow> ('k, 'v) gomap \<Rightarrow> ('k, 'v) gomap" where
  "mdel k m = AList.delete k m"

definition mlen :: "('k, 'v) gomap \<Rightarrow> nat" where
  "mlen m = length m"

text \<open>Indexing a \<^verbatim>\<open>map[K]bool\<close>: a missing key reads false.\<close>

definition mtrue :: "('k, bool) gomap \<Rightarrow> 'k \<Rightarrow> bool" where
  "mtrue m k = (mget m k = Some True)"

text \<open>The orders in which a \<^verbatim>\<open>range\<close> loop may visit a map's entries.\<close>

definition ranges :: "('k, 'v) gomap \<Rightarrow> ('k \<times> 'v) list \<Rightarrow> bool" where
  "ranges m es \<longleftrightarrow> mset es = mset m"

named_theorems gomap \<open>how the map operations act on lookups\<close>

lemma wf_map_Nil [simp, intro]: "wf_map []"
  by (simp add: wf_map_def)

lemma wf_mput [simp, intro]: "wf_map m \<Longrightarrow> wf_map (mput k v m)"
  by (simp add: wf_map_def mput_def distinct_update)

lemma wf_mdel [simp, intro]: "wf_map m \<Longrightarrow> wf_map (mdel k m)"
  by (simp add: wf_map_def mdel_def distinct_delete)

lemma mget_Nil [simp]: "mget [] k = None"
  by (simp add: mget_def)

lemma mget_mput [gomap]: "mget (mput k v m) j = (if j = k then Some v else mget m j)"
  by (simp add: mget_def mput_def update_conv')

lemma mget_mdel [gomap]: "mget (mdel k m) j = (if j = k then None else mget m j)"
  by (simp add: mget_def mdel_def delete_conv')

lemma mtrue_mput [gomap]: "mtrue (mput k v m) j = (if j = k then v else mtrue m j)"
  by (simp add: mtrue_def mget_mput)

lemma mtrue_Nil [simp]: "\<not> mtrue [] k"
  by (simp add: mtrue_def)

lemma mget_None_iff: "mget m k = None \<longleftrightarrow> k \<notin> fst ` set m"
  by (simp add: mget_def map_of_eq_None_iff)

lemma mget_in: "mget m k = Some v \<Longrightarrow> (k, v) \<in> set m"
  by (simp add: mget_def map_of_SomeD)

lemma in_mget: "wf_map m \<Longrightarrow> (k, v) \<in> set m \<Longrightarrow> mget m k = Some v"
  by (simp add: mget_def wf_map_def)

lemma mget_iff: "wf_map m \<Longrightarrow> mget m k = Some v \<longleftrightarrow> (k, v) \<in> set m"
  by (auto intro: mget_in in_mget)

lemma mlen_mput:
  "mlen (mput k v m) = (case mget m k of None \<Rightarrow> Suc (mlen m) | Some _ \<Rightarrow> mlen m)"
  by (induction m) (auto simp: mlen_def mput_def mget_def split: option.splits)

lemma mlen_mdel_le: "mlen (mdel k m) \<le> mlen m"
  by (simp add: mlen_def mdel_def length_delete_le)

lemma ranges_refl [simp, intro]: "ranges m m"
  by (simp add: ranges_def)

lemma ranges_set: "ranges m es \<Longrightarrow> set es = set m"
  by (metis ranges_def set_mset_mset)

lemma ranges_wf: "ranges m es \<Longrightarrow> wf_map m \<Longrightarrow> wf_map es"
proof -
  assume r: "ranges m es" and w: "wf_map m"
  have "mset (map fst es) = mset (map fst m)"
    using r by (simp add: ranges_def)
  then show "wf_map es"
    using w by (metis wf_map_def mset_eq_imp_distinct_iff)
qed

lemma ranges_mget:
  assumes "ranges m es" and "wf_map m"
  shows "mget es k = mget m k"
proof (cases "mget m k")
  case None
  then show ?thesis
    using ranges_set [OF assms(1)] by (metis mget_None_iff)
next
  case (Some v)
  then have "(k, v) \<in> set es"
    using assms by (simp add: mget_iff ranges_set)
  with Some show ?thesis
    using in_mget [OF ranges_wf [OF assms]] by simp
qed

section \<open>Machine integers\<close>

text \<open>
  Go's \<^verbatim>\<open>int\<close> and \<^verbatim>\<open>int64\<close> are 64-bit two's complement. A value is an \<open>int\<close> in the range
  of the type; an operation that can leave the range wraps.
\<close>

definition wrap64 :: "int \<Rightarrow> int" where
  "wrap64 x = (x + 2 ^ 63) mod 2 ^ 64 - 2 ^ 63"

definition in64 :: "int \<Rightarrow> bool" where
  "in64 x \<longleftrightarrow> - (2 ^ 63) \<le> x \<and> x < 2 ^ 63"

lemma wrap64_id: "in64 x \<Longrightarrow> wrap64 x = x"
  by (simp add: wrap64_def in64_def)

lemma wrap64_in64 [simp, intro]: "in64 (wrap64 x)"
proof -
  have "0 \<le> (x + 2 ^ 63) mod 2 ^ 64" and "(x + 2 ^ 63) mod 2 ^ 64 < (2 ^ 64 :: int)"
    by simp_all
  then show ?thesis
    by (simp add: wrap64_def in64_def)
qed

section \<open>Lists\<close>

text \<open>The first element a loop finds, as \<^verbatim>\<open>for ... if p(x) return f(x)\<close> does.\<close>

fun first_err :: "('a \<Rightarrow> error option) \<Rightarrow> 'a list \<Rightarrow> error option" where
  "first_err f [] = None"
| "first_err f (x # xs) = (case f x of Some err \<Rightarrow> Some err | None \<Rightarrow> first_err f xs)"

lemma first_err_None_iff: "first_err f xs = None \<longleftrightarrow> (\<forall>x \<in> set xs. f x = None)"
  by (induction xs) (auto split: option.splits)

lemma find_Some_iff_in: "find P xs = Some x \<Longrightarrow> x \<in> set xs \<and> P x"
  by (metis find_Some_iff nth_mem)

lemma find_None_list_all: "find P xs = None \<longleftrightarrow> list_all (\<lambda>x. \<not> P x) xs"
  by (auto simp: find_None_iff list_all_iff)

lemma list_ex_set: "list_ex P xs \<longleftrightarrow> (\<exists>x \<in> set xs. P x)"
  by (simp add: list_ex_iff)

lemma mset_take_subset: "set (take n xs) \<subseteq> set xs"
  by (rule set_take_subset)

end
