(* ===== verification/GoStrings.thy ===== *)
theory GoStrings
  imports Prelude
begin

text \<open>
  The parts of Go's \<^verbatim>\<open>strings\<close>, \<^verbatim>\<open>strconv\<close>, \<^verbatim>\<open>unicode/utf8\<close>, \<^verbatim>\<open>encoding/hex\<close> and \<^verbatim>\<open>fmt\<close> that
  the relay uses. A Go string is a byte sequence, so a HOL \<open>string\<close> (a list of 8-bit
  characters) is one, and \<open>length\<close> is \<^verbatim>\<open>len\<close>.

  UTF-8 decoding and encoding are written out. The case tables of the \<^verbatim>\<open>unicode\<close> package
  beyond ASCII are data, not code: a record \<open>unicode\<close> supplies them, so that every
  definition that depends on them says so.
\<close>

section \<open>Prefixes, suffixes, substrings\<close>

fun HasPrefix :: "string \<Rightarrow> string \<Rightarrow> bool" where
  "HasPrefix s [] = True"
| "HasPrefix [] (p # ps) = False"
| "HasPrefix (c # s) (p # ps) = (c = p \<and> HasPrefix s ps)"

definition HasSuffix :: "string \<Rightarrow> string \<Rightarrow> bool" where
  "HasSuffix s p = HasPrefix (rev s) (rev p)"

fun Contains :: "string \<Rightarrow> string \<Rightarrow> bool" where
  "Contains [] p = (p = [])"
| "Contains (c # s) p = (HasPrefix (c # s) p \<or> Contains s p)"

lemma HasPrefix_iff: "HasPrefix s p \<longleftrightarrow> (\<exists>r. s = p @ r)"
  by (induction s p rule: HasPrefix.induct) auto

lemma HasPrefix_append [simp]: "HasPrefix (p @ r) p"
  by (auto simp: HasPrefix_iff)

lemma HasSuffix_iff: "HasSuffix s p \<longleftrightarrow> (\<exists>r. s = r @ p)"
proof
  assume "HasSuffix s p"
  then obtain r where "rev s = rev p @ r"
    by (auto simp: HasSuffix_def HasPrefix_iff)
  then have "s = rev r @ p"
    by (metis rev_append rev_rev_ident)
  then show "\<exists>r. s = r @ p" ..
qed (auto simp: HasSuffix_def HasPrefix_iff)

lemma Contains_iff: "Contains s p \<longleftrightarrow> (\<exists>a b. s = a @ p @ b)"
proof (induction s)
  case Nil
  then show ?case by simp
next
  case (Cons c s)
  have "(\<exists>a b. c # s = a @ p @ b) \<longleftrightarrow> (\<exists>b. c # s = p @ b) \<or> (\<exists>a b. s = a @ p @ b)"
    (is "?l \<longleftrightarrow> ?r1 \<or> ?r2")
  proof
    assume ?l
    then obtain a b where "c # s = a @ p @ b" by blast
    then show "?r1 \<or> ?r2" by (cases a) auto
  next
    assume "?r1 \<or> ?r2"
    then show ?l
    proof
      assume ?r1
      then obtain b where "c # s = [] @ p @ b" by auto
      then show ?l by blast
    next
      assume ?r2
      then obtain a b where "c # s = (c # a) @ p @ b" by auto
      then show ?l by blast
    qed
  qed
  then show ?case using Cons by (simp add: HasPrefix_iff)
qed

text \<open>\<^verbatim>\<open>strings.SplitN(s, sep, 2)\<close> for a non-empty separator: the parts before and after the
  first occurrence, or the whole string.\<close>

fun split_first :: "string \<Rightarrow> string \<Rightarrow> (string \<times> string) option" where
  "split_first sep [] = (if sep = [] then Some ([], []) else None)"
| "split_first sep (c # s) =
     (if HasPrefix (c # s) sep then Some ([], drop (length sep) (c # s))
      else map_option (\<lambda>(a, b). (c # a, b)) (split_first sep s))"

definition SplitN2 :: "string \<Rightarrow> string \<Rightarrow> string list" where
  "SplitN2 s sep = (case split_first sep s of None \<Rightarrow> [s] | Some (a, b) \<Rightarrow> [a, b])"

text \<open>\<^verbatim>\<open>strings.Split\<close> by a one-byte separator.\<close>

fun split_acc :: "char \<Rightarrow> string \<Rightarrow> string \<Rightarrow> string list" where
  "split_acc sep acc [] = [rev acc]"
| "split_acc sep acc (c # s) =
     (if c = sep then rev acc # split_acc sep [] s else split_acc sep (c # acc) s)"

definition Split :: "string \<Rightarrow> char \<Rightarrow> string list" where
  "Split s sep = split_acc sep [] s"

fun Join :: "string list \<Rightarrow> string \<Rightarrow> string" where
  "Join [] sep = []"
| "Join [x] sep = x"
| "Join (x # y # xs) sep = x @ sep @ Join (y # xs) sep"

text \<open>\<^verbatim>\<open>strings.ReplaceAll\<close> for a non-empty pattern.\<close>

function ReplaceAll :: "string \<Rightarrow> string \<Rightarrow> string \<Rightarrow> string" where
  "ReplaceAll old new [] = []"
| "ReplaceAll old new (c # s) =
     (if old \<noteq> [] \<and> HasPrefix (c # s) old
      then new @ ReplaceAll old new (drop (length old) (c # s))
      else c # ReplaceAll old new s)"
  by pat_completeness auto
termination
proof (relation "measure (\<lambda>(old, new, s). length s)")
  fix old new :: string and c :: char and s :: string
  assume "old \<noteq> [] \<and> HasPrefix (c # s) old"
  then show "((old, new, drop (length old) (c # s)), old, new, c # s)
      \<in> measure (\<lambda>(old, new, s). length s)"
    by (cases old) auto
qed auto

lemma split_first_Some:
  "split_first sep s = Some (a, b) \<Longrightarrow> s = a @ sep @ b"
  by (induction s arbitrary: a b) (auto simp: HasPrefix_iff split: if_splits)

lemma split_first_None: "split_first sep s = None \<longleftrightarrow> \<not> Contains s sep"
  by (induction s) (auto split: if_splits)

section \<open>UTF-8\<close>

text \<open>
  \<open>utf8_first a r\<close> decodes the rune at the start of \<open>a # r\<close>: the rune and the number of
  bytes of \<open>r\<close> it takes. An invalid sequence is one byte and reads as U+FFFD, as
  \<^verbatim>\<open>utf8.DecodeRuneInString\<close> has it.
\<close>

abbreviation byte :: "char \<Rightarrow> nat" where
  "byte c \<equiv> of_char c"

lemma byte_less: "byte c < 256"
  by (metis mod_less_divisor of_char_mod_256 zero_less_numeral)

definition RuneError :: nat where
  "RuneError = 65533"

definition cont :: "char \<Rightarrow> bool" where
  "cont c \<longleftrightarrow> 128 \<le> byte c \<and> byte c \<le> 191"

definition utf8_first2 :: "nat \<Rightarrow> string \<Rightarrow> nat \<times> nat" where
  "utf8_first2 a r = (case r of
      b # _ \<Rightarrow> if cont b then ((a - 192) * 64 + (byte b - 128), 1) else (RuneError, 0)
    | [] \<Rightarrow> (RuneError, 0))"

definition utf8_first3 :: "nat \<Rightarrow> string \<Rightarrow> nat \<times> nat" where
  "utf8_first3 a r = (case r of
      b # c # _ \<Rightarrow>
        if cont b \<and> cont c \<and> (a = 224 \<longrightarrow> 160 \<le> byte b) \<and> (a = 237 \<longrightarrow> byte b \<le> 159)
        then ((a - 224) * 4096 + (byte b - 128) * 64 + (byte c - 128), 2) else (RuneError, 0)
    | _ \<Rightarrow> (RuneError, 0))"

definition utf8_first4 :: "nat \<Rightarrow> string \<Rightarrow> nat \<times> nat" where
  "utf8_first4 a r = (case r of
      b # c # d # _ \<Rightarrow>
        if cont b \<and> cont c \<and> cont d \<and> (a = 240 \<longrightarrow> 144 \<le> byte b) \<and> (a = 244 \<longrightarrow> byte b \<le> 143)
        then ((a - 240) * 262144 + (byte b - 128) * 4096 + (byte c - 128) * 64 + (byte d - 128), 3)
        else (RuneError, 0)
    | _ \<Rightarrow> (RuneError, 0))"

definition utf8_first :: "char \<Rightarrow> string \<Rightarrow> nat \<times> nat" where
  "utf8_first ch r =
     (let a = byte ch in
      if a < 128 then (a, 0)
      else if 194 \<le> a \<and> a \<le> 223 then utf8_first2 a r
      else if 224 \<le> a \<and> a \<le> 239 then utf8_first3 a r
      else if 240 \<le> a \<and> a \<le> 244 then utf8_first4 a r
      else (RuneError, 0))"

text \<open>The runes of a string, as \<^verbatim>\<open>for _, r := range s\<close> visits them.\<close>

function utf8_decode :: "string \<Rightarrow> nat list" where
  "utf8_decode [] = []"
| "utf8_decode (c # r) = fst (utf8_first c r) # utf8_decode (drop (snd (utf8_first c r)) r)"
  by pat_completeness auto
termination
  by (relation "measure length") auto

definition utf8_encode :: "nat \<Rightarrow> string" where
  "utf8_encode r =
     (if r < 128 then [char_of r]
      else if r < 2048 then [char_of (192 + r div 64), char_of (128 + r mod 64)]
      else if 1114111 < r \<or> (55296 \<le> r \<and> r \<le> 57343)
        then [char_of (239::nat), char_of (191::nat), char_of (189::nat)]
      else if r < 65536
        then [char_of (224 + r div 4096), char_of (128 + r div 64 mod 64), char_of (128 + r mod 64)]
      else [char_of (240 + r div 262144), char_of (128 + r div 4096 mod 64),
            char_of (128 + r div 64 mod 64), char_of (128 + r mod 64)])"

section \<open>Case\<close>

definition ascii :: "string \<Rightarrow> bool" where
  "ascii s = list_all (\<lambda>c. byte c < 128) s"

definition ascii_lower :: "nat \<Rightarrow> nat" where
  "ascii_lower r = (if 65 \<le> r \<and> r \<le> 90 then r + 32 else r)"

text \<open>
  The tables of the \<^verbatim>\<open>unicode\<close> package for runes above ASCII: \<^verbatim>\<open>unicode.ToLower\<close>,
  \<^verbatim>\<open>unicode.IsPrint\<close>, and a representative of the \<^verbatim>\<open>unicode.SimpleFold\<close> orbit. The two orbits that meet ASCII, those of
  \<open>k\<close> (with U+212A) and \<open>s\<close> (with U+017F), are written out in \<open>fold_rune\<close>.
\<close>

record unicode =
  uc_lower :: "nat \<Rightarrow> nat"
  uc_fold :: "nat \<Rightarrow> nat"
  uc_print :: "nat \<Rightarrow> bool"

definition lower_rune :: "unicode \<Rightarrow> nat \<Rightarrow> nat" where
  "lower_rune U r = (if r < 128 then ascii_lower r else uc_lower U r)"

definition fold_rune :: "unicode \<Rightarrow> nat \<Rightarrow> nat" where
  "fold_rune U r =
     (if r < 128 then ascii_lower r
      else if r = 8490 then 107
      else if r = 383 then 115
      else uc_fold U r)"

definition ToLower :: "unicode \<Rightarrow> string \<Rightarrow> string" where
  "ToLower U s =
     (if ascii s then map (\<lambda>c. char_of (ascii_lower (byte c))) s
      else concat (map (\<lambda>r. utf8_encode (lower_rune U r)) (utf8_decode s)))"

definition EqualFold :: "unicode \<Rightarrow> string \<Rightarrow> string \<Rightarrow> bool" where
  "EqualFold U s t = (map (fold_rune U) (utf8_decode s) = map (fold_rune U) (utf8_decode t))"

text \<open>
  \<^verbatim>\<open>strings.ToUpper(s) == s\<close> and \<^verbatim>\<open>strings.ToLower(s) == s\<close> for a one-byte string: a byte above
  ASCII is invalid UTF-8 on its own and both functions replace it by U+FFFD.
\<close>

definition is_upper1 :: "string \<Rightarrow> bool" where
  "is_upper1 s \<longleftrightarrow> (case s of [c] \<Rightarrow> byte c < 128 \<and> \<not> (97 \<le> byte c \<and> byte c \<le> 122) | _ \<Rightarrow> False)"

definition is_lower1 :: "string \<Rightarrow> bool" where
  "is_lower1 s \<longleftrightarrow> (case s of [c] \<Rightarrow> byte c < 128 \<and> \<not> (65 \<le> byte c \<and> byte c \<le> 90) | _ \<Rightarrow> False)"

definition upper1 :: "string \<Rightarrow> string" where
  "upper1 s = map (\<lambda>c. if 97 \<le> byte c \<and> byte c \<le> 122 then char_of (byte c - 32) else c) s"

section \<open>White space\<close>

text \<open>
  \<^verbatim>\<open>unicode.IsSpace\<close>: the six ASCII characters and the encodings of U+0085, U+00A0, U+1680,
  U+2000 to U+200A, U+2028, U+2029, U+202F, U+205F and U+3000. UTF-8 is self-synchronising, so
  a space at the front (or the end) of a string is one of these byte sequences as a prefix
  (or suffix).
\<close>

definition spaces :: "string list" where
  "spaces =
    [[CHR 0x09], [CHR 0x0A], [CHR 0x0B], [CHR 0x0C], [CHR 0x0D], [CHR 0x20],
     [CHR 0xC2, CHR 0x85], [CHR 0xC2, CHR 0xA0], [CHR 0xE1, CHR 0x9A, CHR 0x80],
     [CHR 0xE2, CHR 0x80, CHR 0x80], [CHR 0xE2, CHR 0x80, CHR 0x81],
     [CHR 0xE2, CHR 0x80, CHR 0x82], [CHR 0xE2, CHR 0x80, CHR 0x83],
     [CHR 0xE2, CHR 0x80, CHR 0x84], [CHR 0xE2, CHR 0x80, CHR 0x85],
     [CHR 0xE2, CHR 0x80, CHR 0x86], [CHR 0xE2, CHR 0x80, CHR 0x87],
     [CHR 0xE2, CHR 0x80, CHR 0x88], [CHR 0xE2, CHR 0x80, CHR 0x89],
     [CHR 0xE2, CHR 0x80, CHR 0x8A], [CHR 0xE2, CHR 0x80, CHR 0xA8],
     [CHR 0xE2, CHR 0x80, CHR 0xA9], [CHR 0xE2, CHR 0x80, CHR 0xAF],
     [CHR 0xE2, CHR 0x81, CHR 0x9F], [CHR 0xE3, CHR 0x80, CHR 0x80]]"

definition space_prefix :: "string \<Rightarrow> nat" where
  "space_prefix s = (case find (HasPrefix s) spaces of None \<Rightarrow> 0 | Some p \<Rightarrow> length p)"

lemma spaces_nonempty: "p \<in> set spaces \<Longrightarrow> 0 < length p"
  by (auto simp: spaces_def)

lemma space_prefix_le: "space_prefix s \<le> length s"
  by (auto simp: space_prefix_def HasPrefix_iff dest!: find_Some_iff_in split: option.splits)

function TrimLeft :: "string \<Rightarrow> string" where
  "TrimLeft s = (if space_prefix s = 0 then s else TrimLeft (drop (space_prefix s) s))"
  by pat_completeness auto
termination
  by (relation "measure length") (auto intro!: diff_less dest: order_less_le_trans [OF _ space_prefix_le])

declare TrimLeft.simps [simp del]

definition space_suffix :: "string \<Rightarrow> nat" where
  "space_suffix s = (case find (HasSuffix s) spaces of None \<Rightarrow> 0 | Some p \<Rightarrow> length p)"

lemma space_suffix_le: "space_suffix s \<le> length s"
  by (auto simp: space_suffix_def HasSuffix_iff dest!: find_Some_iff_in split: option.splits)

function TrimRight :: "string \<Rightarrow> string" where
  "TrimRight s =
     (if space_suffix s = 0 then s else TrimRight (take (length s - space_suffix s) s))"
  by pat_completeness auto
termination
  by (relation "measure length") (auto intro!: diff_less dest: order_less_le_trans [OF _ space_suffix_le])

declare TrimRight.simps [simp del]

definition TrimSpace :: "string \<Rightarrow> string" where
  "TrimSpace s = TrimRight (TrimLeft s)"

text \<open>\<^verbatim>\<open>strings.Fields\<close>: the maximal runs of non-space runes.\<close>

function fields_acc :: "string \<Rightarrow> string \<Rightarrow> string list" where
  "fields_acc acc [] = (if acc = [] then [] else [rev acc])"
| "fields_acc acc (c # s) =
     (if space_prefix (c # s) = 0 then fields_acc (c # acc) s
      else (if acc = [] then [] else [rev acc]) @ fields_acc [] (drop (space_prefix (c # s)) (c # s)))"
  by pat_completeness auto
termination
  by (relation "measure (\<lambda>(acc, s). length s)") (auto simp: less_Suc_eq_le)

definition Fields :: "string \<Rightarrow> string list" where
  "Fields s = fields_acc [] s"

section \<open>Numbers\<close>

definition digit :: "char \<Rightarrow> bool" where
  "digit c \<longleftrightarrow> 48 \<le> byte c \<and> byte c \<le> 57"

definition digit_val :: "char \<Rightarrow> nat" where
  "digit_val c = byte c - 48"

definition digits_val :: "string \<Rightarrow> nat" where
  "digits_val s = foldl (\<lambda>n c. 10 * n + digit_val c) 0 s"

text \<open>\<^verbatim>\<open>strconv.ParseInt(s, 10, 64)\<close> and \<^verbatim>\<open>strconv.Atoi\<close>: an optional sign and at least one
  digit, nothing else, in the range of \<^verbatim>\<open>int64\<close>.\<close>

definition signed_digits :: "string \<Rightarrow> (bool \<times> string)" where
  "signed_digits s = (case s of
      c # r \<Rightarrow> if c = CHR ''-'' then (True, r) else if c = CHR ''+'' then (False, r) else (False, s)
    | [] \<Rightarrow> (False, []))"

definition ParseInt :: "string \<Rightarrow> int option" where
  "ParseInt s =
     (let (neg, ds) = signed_digits s; n = (if neg then - int (digits_val ds) else int (digits_val ds))
      in if ds \<noteq> [] \<and> list_all digit ds \<and> in64 n then Some n else None)"

text \<open>\<^verbatim>\<open>%d\<close>: an integer in decimal.\<close>

fun show_nat :: "nat \<Rightarrow> string" where
  "show_nat n = (if n < 10 then [char_of (48 + n)] else show_nat (n div 10) @ [char_of (48 + n mod 10)])"

declare show_nat.simps [simp del]

definition show_int :: "int \<Rightarrow> string" where
  "show_int i = (if i < 0 then CHR ''-'' # show_nat (nat (- i)) else show_nat (nat i))"

lemma digit_char_of: "n < 10 \<Longrightarrow> digit (char_of (48 + n :: nat))"
  by (simp add: digit_def)

lemma digit_val_char_of: "n < 10 \<Longrightarrow> digit_val (char_of (48 + n :: nat)) = n"
  by (simp add: digit_val_def)

lemma show_nat_digits: "list_all digit (show_nat n)"
  by (induction n rule: show_nat.induct) (subst show_nat.simps, auto simp: digit_char_of)

lemma show_nat_nonempty [simp]: "show_nat n \<noteq> []"
  by (subst show_nat.simps) simp

lemma digits_val_snoc: "digits_val (s @ [c]) = 10 * digits_val s + digit_val c"
  by (simp add: digits_val_def)

lemma digits_val_show_nat: "digits_val (show_nat n) = n"
proof (induction n rule: show_nat.induct)
  case (1 n)
  show ?case
  proof (cases "n < 10")
    case True
    then show ?thesis
      by (subst show_nat.simps) (simp add: digits_val_def digit_val_char_of)
  next
    case False
    then show ?thesis
      using 1 by (subst show_nat.simps) (simp add: digits_val_snoc digit_val_char_of)
  qed
qed

lemma show_nat_hd: "hd (show_nat n) \<noteq> CHR ''-'' \<and> hd (show_nat n) \<noteq> CHR ''+''"
proof -
  have "digit (hd (show_nat n))"
    using show_nat_digits [of n] by (cases "show_nat n") auto
  then show ?thesis by (auto simp: digit_def)
qed

text \<open>Printing and parsing an \<^verbatim>\<open>int64\<close> are inverse.\<close>

lemma ParseInt_show_int: "in64 i \<Longrightarrow> ParseInt (show_int i) = Some i"
proof (cases "i < 0")
  case True
  moreover assume "in64 i"
  ultimately show ?thesis
    by (simp add: show_int_def ParseInt_def signed_digits_def digits_val_show_nat show_nat_digits)
next
  case False
  moreover assume "in64 i"
  moreover have "signed_digits (show_nat (nat i)) = (False, show_nat (nat i))"
    using show_nat_hd [of "nat i"] by (cases "show_nat (nat i)") (auto simp: signed_digits_def)
  ultimately show ?thesis
    by (simp add: show_int_def ParseInt_def digits_val_show_nat show_nat_digits)
qed

lemma show_int_inj: "show_int i = show_int j \<Longrightarrow> i = j"
proof -
  assume eq: "show_int i = show_int j"
  have "hd (show_int k) = CHR ''-'' \<longleftrightarrow> k < 0" for k
    using show_nat_hd by (simp add: show_int_def)
  with eq have "i < 0 \<longleftrightarrow> j < 0" by metis
  moreover have "show_nat m = show_nat n \<longleftrightarrow> m = n" for m n
    by (metis digits_val_show_nat)
  ultimately show "i = j"
    using eq by (auto simp: show_int_def split: if_splits)
qed

lemma show_int_no_comma: "c \<in> set (show_int i) \<Longrightarrow> c \<noteq> CHR '',''"
proof -
  have "c \<in> set (show_nat n) \<Longrightarrow> digit c" for n
    using show_nat_digits [of n] by (simp add: list_all_iff)
  then show "c \<in> set (show_int i) \<Longrightarrow> c \<noteq> CHR '',''"
    by (fastforce simp: show_int_def digit_def split: if_splits)
qed

section \<open>Hexadecimal\<close>

definition hex_val :: "char \<Rightarrow> nat option" where
  "hex_val c = (let b = byte c in
     if 48 \<le> b \<and> b \<le> 57 then Some (b - 48)
     else if 97 \<le> b \<and> b \<le> 102 then Some (b - 87)
     else if 65 \<le> b \<and> b \<le> 70 then Some (b - 55) else None)"

definition hex_digit :: "nat \<Rightarrow> char" where
  "hex_digit n = (if n < 10 then char_of (48 + n) else char_of (87 + n))"

fun EncodeToString :: "string \<Rightarrow> string" where
  "EncodeToString [] = []"
| "EncodeToString (c # s) = hex_digit (byte c div 16) # hex_digit (byte c mod 16) # EncodeToString s"

text \<open>The text of \<^verbatim>\<open>hex.InvalidByteError\<close>, formatted with \<^verbatim>\<open>%#U\<close>: the code point of the byte
  and, where it is printable, the character.\<close>

definition invalid_byte :: "char \<Rightarrow> string" where
  "invalid_byte c = (let b = byte c; q = char_of (39::nat) in
     ''encoding/hex: invalid byte: U+00''
       @ map (\<lambda>n. if n < 10 then char_of (48 + n) else char_of (55 + n)) [b div 16, b mod 16]
       @ (if (32 \<le> b \<and> b \<le> 126) \<or> (161 \<le> b \<and> b \<noteq> 173) then '' '' @ [q] @ utf8_encode b @ [q] else ''''))"

fun DecodeString :: "string \<Rightarrow> error + string" where
  "DecodeString [] = Inr []"
| "DecodeString [c] = (case hex_val c of
      None \<Rightarrow> Inl (ErrorString (invalid_byte c))
    | Some _ \<Rightarrow> Inl (ErrorString ''encoding/hex: odd length hex string''))"
| "DecodeString (c # d # s) = (case hex_val c of
      None \<Rightarrow> Inl (ErrorString (invalid_byte c))
    | Some h \<Rightarrow> (case hex_val d of
        None \<Rightarrow> Inl (ErrorString (invalid_byte d))
      | Some l \<Rightarrow> (case DecodeString s of
          Inr bs \<Rightarrow> Inr (char_of (16 * h + l) # bs)
        | Inl e \<Rightarrow> Inl e)))"

lemma hex_val_digit: "n < 16 \<Longrightarrow> hex_val (hex_digit n) = Some n"
  by (simp add: hex_val_def hex_digit_def Let_def)

lemma DecodeString_Encode: "DecodeString (EncodeToString s) = Inr s"
proof (induction s)
  case (Cons c s)
  have "byte c div 16 < (16::nat)" and "byte c mod 16 < (16::nat)"
    using byte_less [of c] by (simp_all add: less_mult_imp_div_less)
  then show ?case using Cons by (simp add: hex_val_digit)
qed simp

lemma EncodeToString_inj: "EncodeToString s = EncodeToString t \<longleftrightarrow> s = t"
  by (metis DecodeString_Encode sum.inject(2))

lemma EncodeToString_length: "length (EncodeToString s) = 2 * length s"
  by (induction s) auto

lemma DecodeString_length: "DecodeString s = Inr bs \<Longrightarrow> length s = 2 * length bs"
  by (induction s arbitrary: bs rule: DecodeString.induct) (auto split: option.splits sum.splits)

text \<open>The check the validators make by ranging over a string: every rune is a hex digit.\<close>

definition hex_rune :: "nat \<Rightarrow> bool" where
  "hex_rune r \<longleftrightarrow> (48 \<le> r \<and> r \<le> 57) \<or> (97 \<le> r \<and> r \<le> 102) \<or> (65 \<le> r \<and> r \<le> 70)"

definition all_hex :: "string \<Rightarrow> bool" where
  "all_hex s = list_all hex_rune (utf8_decode s)"

section \<open>Quoted strings in errors\<close>

text \<open>\<^verbatim>\<open>strconv.Quote\<close>: a printable rune stands for itself, an invalid byte is \<^verbatim>\<open>\x\<close> and two digits.\<close>

definition hex_digits :: "nat \<Rightarrow> nat \<Rightarrow> string" where
  "hex_digits w n = map (\<lambda>i. hex_digit (n div 16 ^ (w - 1 - i) mod 16)) [0..<w]"

definition quote_rune :: "unicode \<Rightarrow> nat \<Rightarrow> string" where
  "quote_rune U r =
    (if r = 34 then [CHR 0x5C, CHR 0x22]
     else if r = 92 then [CHR 0x5C, CHR 0x5C]
     else if (if r < 128 then 32 \<le> r \<and> r \<le> 126 else uc_print U r) then utf8_encode r
     else if r = 7 then CHR 0x5C # ''a'' else if r = 8 then CHR 0x5C # ''b''
     else if r = 12 then CHR 0x5C # ''f'' else if r = 10 then CHR 0x5C # ''n''
     else if r = 13 then CHR 0x5C # ''r'' else if r = 9 then CHR 0x5C # ''t''
     else if r = 11 then CHR 0x5C # ''v''
     else if r < 32 \<or> r = 127 then CHR 0x5C # CHR ''x'' # hex_digits 2 r
     else if r < 65536 then CHR 0x5C # CHR ''u'' # hex_digits 4 r
     else CHR 0x5C # CHR ''U'' # hex_digits 8 r)"

function quote_body :: "unicode \<Rightarrow> string \<Rightarrow> string" where
  "quote_body U [] = []"
| "quote_body U (c # s) =
     (let (r, n) = utf8_first c s in
      if r = RuneError \<and> n = 0 then CHR 0x5C # CHR ''x'' # hex_digits 2 (byte c) @ quote_body U s
      else quote_rune U r @ quote_body U (drop n s))"
  by pat_completeness auto
termination
  by (relation "measure (\<lambda>(U, s). length s)") auto

definition Quote :: "unicode \<Rightarrow> string \<Rightarrow> string" where
  "Quote U s = CHR 0x22 # quote_body U s @ [CHR 0x22]"

text \<open>The error of a failed \<^verbatim>\<open>strconv.Atoi\<close>: out of range when the digits read so far overflow
  64 bits or when all characters are digits.\<close>

definition atoi_error :: "unicode \<Rightarrow> string \<Rightarrow> error" where
  "atoi_error U s =
    (let ds = snd (signed_digits s) in
     ErrorString (''strconv.Atoi: parsing '' @ Quote U s @
       (if 2 ^ 64 \<le> digits_val (takeWhile digit ds) \<or> (ds \<noteq> [] \<and> list_all digit ds)
        then '': value out of range'' else '': invalid syntax'')))"

end
