(* ===== verification/Json.thy ===== *)
theory Json
  imports GoStrings
begin

text \<open>
  What the relay uses of \<^verbatim>\<open>encoding/json\<close>: the values a text denotes, the string encoder of
  \<^verbatim>\<open>json.Marshal\<close> (with its default HTML escaping), the string decoder, and the decoding of
  values into Go fields. The main result is that the string encoder is a prefix code on valid
  UTF-8: decoding an encoded string followed by anything gives the string and the rest back.
\<close>

datatype json =
    JNull
  | JBool bool
  | JNumber string
  | JString string
  | JArray "json list"
  | JObject "(string \<times> json) list"

section \<open>Encoding strings\<close>

definition backslash :: char where
  "backslash = CHR 0x5C"

definition quote :: char where
  "quote = CHR 0x22"

definition esc_ascii :: "char \<Rightarrow> string" where
  "esc_ascii c = (let b = byte c in
     if b = 34 \<or> b = 92 then [backslash, c]
     else if b = 8 then [backslash, CHR ''b'']
     else if b = 12 then [backslash, CHR ''f'']
     else if b = 10 then [backslash, CHR ''n'']
     else if b = 13 then [backslash, CHR ''r'']
     else if b = 9 then [backslash, CHR ''t'']
     else if b < 32 \<or> b = 60 \<or> b = 62 \<or> b = 38
       then backslash # ''u00'' @ [hex_digit (b div 16), hex_digit (b mod 16)]
     else [c])"

function json_escape :: "string \<Rightarrow> string" where
  "json_escape [] = []"
| "json_escape (c # r) =
     (if byte c < 128 then esc_ascii c @ json_escape r
      else let (u, n) = utf8_first c r in
        (if u = RuneError \<and> n = 0 then backslash # ''ufffd''
         else if u = 8232 \<or> u = 8233 then backslash # ''u202'' @ [hex_digit (u mod 16)]
         else c # take n r) @ json_escape (drop n r))"
  by pat_completeness auto
termination
  by (relation "measure length") auto

definition json_quote :: "string \<Rightarrow> string" where
  "json_quote s = quote # json_escape s @ [quote]"

section \<open>Decoding strings\<close>

text \<open>Four hex digits after \<^verbatim>\<open>\u\<close>, and the string literal up to its closing quote.\<close>

definition hex4 :: "char \<Rightarrow> char \<Rightarrow> char \<Rightarrow> char \<Rightarrow> nat option" where
  "hex4 a b c d = (case (hex_val a, hex_val b, hex_val c, hex_val d) of
      (Some p, Some q, Some r, Some s) \<Rightarrow> Some (4096 * p + 256 * q + 16 * r + s)
    | _ \<Rightarrow> None)"

fun getu4 :: "string \<Rightarrow> (nat \<times> string) option" where
  "getu4 (b # u # c1 # c2 # c3 # c4 # r) =
     (if b = backslash \<and> u = CHR ''u'' then map_option (\<lambda>n. (n, r)) (hex4 c1 c2 c3 c4) else None)"
| "getu4 _ = None"

lemma getu4_length: "getu4 s = Some (n, r) \<Longrightarrow> length r < length s"
  by (induction s rule: getu4.induct) (auto split: if_splits)

definition unescape1 :: "char \<Rightarrow> char option" where
  "unescape1 e =
     (if e = quote \<or> e = backslash \<or> e = CHR ''/'' then Some e
      else if e = CHR ''b'' then Some (CHR 0x08)
      else if e = CHR ''f'' then Some (CHR 0x0C)
      else if e = CHR ''n'' then Some (CHR 0x0A)
      else if e = CHR ''r'' then Some (CHR 0x0D)
      else if e = CHR ''t'' then Some (CHR 0x09) else None)"

definition surrogate :: "nat \<Rightarrow> bool" where
  "surrogate u \<longleftrightarrow> 55296 \<le> u \<and> u \<le> 57343"

definition surrogate_pair :: "nat \<Rightarrow> nat \<Rightarrow> nat option" where
  "surrogate_pair u v =
     (if 55296 \<le> u \<and> u < 56320 \<and> 56320 \<le> v \<and> v \<le> 57343
      then Some ((u - 55296) * 1024 + (v - 56320) + 65536) else None)"

text \<open>The rune a \<^verbatim>\<open>\u\<close> escape denotes, and the input after it: a surrogate pair is one rune, a
  lone surrogate is U+FFFD.\<close>

definition unescape_u :: "string \<Rightarrow> (nat \<times> string) option" where
  "unescape_u s = (case getu4 s of
      None \<Rightarrow> None
    | Some (u, r) \<Rightarrow>
        if surrogate u then
          (case getu4 r of
             Some (v, r') \<Rightarrow> (case surrogate_pair u v of Some w \<Rightarrow> Some (w, r') | None \<Rightarrow> Some (RuneError, r))
           | None \<Rightarrow> Some (RuneError, r))
        else Some (u, r))"

lemma unescape_u_length: "unescape_u s = Some (n, r) \<Longrightarrow> length r < length s"
  by (auto simp: unescape_u_def dest!: getu4_length split: option.splits if_splits)

definition prepend :: "string \<Rightarrow> (string \<times> 'a) option \<Rightarrow> (string \<times> 'a) option" where
  "prepend p x = map_option (\<lambda>(s, r). (p @ s, r)) x"

function json_unquote :: "string \<Rightarrow> (string \<times> string) option" where
  "json_unquote [] = None"
| "json_unquote (c # r) =
     (if c = quote then Some ([], r)
      else if c = backslash then
        (case r of
           [] \<Rightarrow> None
         | e # r' \<Rightarrow>
             if e = CHR ''u'' then
               (case unescape_u (c # r) of
                  None \<Rightarrow> None
                | Some (u, r2) \<Rightarrow> prepend (utf8_encode u) (json_unquote r2))
             else (case unescape1 e of
                  None \<Rightarrow> None
                | Some d \<Rightarrow> prepend [d] (json_unquote r')))
      else if byte c < 32 then None
      else if byte c < 128 then prepend [c] (json_unquote r)
      else let (u, n) = utf8_first c r in prepend (utf8_encode u) (json_unquote (drop n r)))"
  by pat_completeness auto
termination
  by (relation "measure length") (auto dest: unescape_u_length)

declare json_escape.simps(2) [simp del] json_unquote.simps(2) [simp del]

section \<open>Valid UTF-8\<close>

function valid_utf8 :: "string \<Rightarrow> bool" where
  "valid_utf8 [] = True"
| "valid_utf8 (c # r) =
     (utf8_first c r \<noteq> (RuneError, 0) \<and> valid_utf8 (drop (snd (utf8_first c r)) r))"
  by pat_completeness auto
termination
  by (relation "measure length") auto

lemma valid_utf8_induct [consumes 1, case_names Nil ascii multi]:
  assumes "valid_utf8 s"
    and "P []"
    and "\<And>c r. byte c < 128 \<Longrightarrow> valid_utf8 r \<Longrightarrow> P r \<Longrightarrow> P (c # r)"
    and "\<And>c r u n. 128 \<le> byte c \<Longrightarrow> utf8_first c r = (u, n) \<Longrightarrow> (u, n) \<noteq> (RuneError, 0) \<Longrightarrow>
      valid_utf8 (drop n r) \<Longrightarrow> P (drop n r) \<Longrightarrow> P (c # r)"
  shows "P s"
  using assms(1)
proof (induction s rule: valid_utf8.induct)
  case 1
  show ?case by (rule assms(2))
next
  case (2 c r)
  show ?case
  proof (cases "byte c < 128")
    case True
    then have "utf8_first c r = (byte c, 0)"
      by (simp add: utf8_first_def Let_def)
    with 2 True show ?thesis by (intro assms(3)) auto
  next
    case False
    obtain u n where un: "utf8_first c r = (u, n)" by (cases "utf8_first c r")
    show ?thesis
      by (rule assms(4) [OF _ un]) (use False 2 un in auto)
  qed
qed

lemma ascii_valid_utf8: "ascii s \<Longrightarrow> valid_utf8 s"
  by (induction s) (auto simp: ascii_def utf8_first_def Let_def RuneError_def)

text \<open>A decoded rune encodes to the bytes it was read from.\<close>

lemma div64: "y < 64 \<Longrightarrow> (x * 64 + y) div 64 = x" "y < 64 \<Longrightarrow> (x * 64 + y) mod 64 = y"
  for x y :: nat
  by simp_all

lemma char_of_byte: "byte c = n \<Longrightarrow> char_of n = c"
  by auto

lemma encode2:
  assumes "194 \<le> byte c" "byte c \<le> 223" "cont b"
  shows "utf8_encode ((byte c - 192) * 64 + (byte b - 128)) = [c, b]"
proof -
  define x where "x = byte c - 192"
  define y where "y = byte b - 128"
  have c: "byte c = 192 + x" and b: "byte b = 128 + y"
    using assms by (simp_all add: x_def y_def cont_def)
  have xy: "2 \<le> x" "x < 32" "y < 64"
    using assms c b by (simp_all add: cont_def)
  then show ?thesis
    using char_of_byte [OF c] char_of_byte [OF b] xy
    by (simp add: utf8_encode_def x_def [symmetric] y_def [symmetric] div64)
qed

lemma encode3:
  assumes "224 \<le> byte c" "byte c \<le> 239" "cont b" "cont d"
    and "byte c = 224 \<Longrightarrow> 160 \<le> byte b" "byte c = 237 \<Longrightarrow> byte b \<le> 159"
  shows "utf8_encode ((byte c - 224) * 4096 + (byte b - 128) * 64 + (byte d - 128)) = [c, b, d]"
proof -
  define x where "x = byte c - 224"
  define y where "y = byte b - 128"
  define z where "z = byte d - 128"
  have c: "byte c = 224 + x" and b: "byte b = 128 + y" and d: "byte d = 128 + z"
    using assms by (simp_all add: x_def y_def z_def cont_def)
  have xyz: "x < 16" "y < 64" "z < 64" "x = 0 \<Longrightarrow> 32 \<le> y" "x = 13 \<Longrightarrow> y < 32"
    using assms c b d by (auto simp: cont_def)
  define r where "r = (x * 64 + y) * 64 + z"
  have r64: "r div 64 = x * 64 + y" "r mod 64 = z"
    unfolding r_def using div64 [OF xyz(3)] by blast+
  have r4096: "r div 4096 = x"
    using div_mult2_eq [of r 64 64] r64(1) div64(1) [OF xyz(2)] by simp
  have "\<not> r < 2048"
    using xyz by (cases "x = 0") (simp_all add: r_def)
  moreover have "r < 65536"
    using xyz by (simp add: r_def)
  moreover have "\<not> (55296 \<le> r \<and> r \<le> 57343)"
  proof -
    consider "x \<le> 12" | "x = 13" | "14 \<le> x" by linarith
    then show ?thesis using xyz by cases (simp_all add: r_def)
  qed
  moreover have "r = x * 4096 + y * 64 + z"
    by (simp add: r_def)
  ultimately show ?thesis
    using char_of_byte [OF c] char_of_byte [OF b] char_of_byte [OF d] r64 r4096 div64(2) [OF xyz(2)]
    by (auto simp: utf8_encode_def x_def [symmetric] y_def [symmetric] z_def [symmetric])
qed

lemma encode4:
  assumes "240 \<le> byte c" "byte c \<le> 244" "cont b" "cont d" "cont e"
    and "byte c = 240 \<Longrightarrow> 144 \<le> byte b" "byte c = 244 \<Longrightarrow> byte b \<le> 143"
  shows "utf8_encode ((byte c - 240) * 262144 + (byte b - 128) * 4096 + (byte d - 128) * 64
    + (byte e - 128)) = [c, b, d, e]"
proof -
  define w where "w = byte c - 240"
  define x where "x = byte b - 128"
  define y where "y = byte d - 128"
  define z where "z = byte e - 128"
  have c: "byte c = 240 + w" and b: "byte b = 128 + x" and d: "byte d = 128 + y"
    and e: "byte e = 128 + z"
    using assms by (simp_all add: w_def x_def y_def z_def cont_def)
  have wxyz: "w \<le> 4" "x < 64" "y < 64" "z < 64" "w = 0 \<Longrightarrow> 16 \<le> x" "w = 4 \<Longrightarrow> x < 16"
    using assms c b d e by (auto simp: cont_def)
  define q where "q = (w * 64 + x) * 64 + y"
  define r where "r = q * 64 + z"
  have r64: "r div 64 = q" "r mod 64 = z" and q64: "q div 64 = w * 64 + x" "q mod 64 = y"
    unfolding r_def q_def using div64 wxyz(3,4) by blast+
  have r4096: "r div 4096 = w * 64 + x"
    using div_mult2_eq [of r 64 64] r64(1) q64(1) by simp
  have r262144: "r div 262144 = w"
    using div_mult2_eq [of r 4096 64] r4096 div64(1) [OF wxyz(2)] by simp
  have "\<not> r < 65536"
    using wxyz by (cases "w = 0") (simp_all add: r_def q_def)
  moreover have "r \<le> 1114111"
    using wxyz by (cases "w = 4") (simp_all add: r_def q_def)
  moreover have "r = w * 262144 + x * 4096 + y * 64 + z"
    by (simp add: r_def q_def)
  ultimately show ?thesis
    using char_of_byte [OF c] char_of_byte [OF b] char_of_byte [OF d] char_of_byte [OF e]
      r64 q64 r4096 r262144 div64(2) [OF wxyz(2)]
    by (simp add: utf8_encode_def w_def [symmetric] x_def [symmetric] y_def [symmetric]
        z_def [symmetric])
qed

lemmas utf8_first_defs = utf8_first_def utf8_first2_def utf8_first3_def utf8_first4_def

text \<open>The bytes of a multi-byte rune: decoding reads only them, and encoding restores them.\<close>

lemma utf8_first_cases:
  assumes "utf8_first c r = (u, n)" "(u, n) \<noteq> (RuneError, 0)" "128 \<le> byte c"
  obtains (two) b r' where "r = b # r'" "n = 1" "194 \<le> byte c" "byte c \<le> 223" "cont b"
      "u = (byte c - 192) * 64 + (byte b - 128)"
  | (three) b d r' where "r = b # d # r'" "n = 2" "224 \<le> byte c" "byte c \<le> 239" "cont b" "cont d"
      "byte c = 224 \<Longrightarrow> 160 \<le> byte b" "byte c = 237 \<Longrightarrow> byte b \<le> 159"
      "u = (byte c - 224) * 4096 + (byte b - 128) * 64 + (byte d - 128)"
  | (four) b d e r' where "r = b # d # e # r'" "n = 3" "240 \<le> byte c" "byte c \<le> 244" "cont b"
      "cont d" "cont e" "byte c = 240 \<Longrightarrow> 144 \<le> byte b" "byte c = 244 \<Longrightarrow> byte b \<le> 143"
      "u = (byte c - 240) * 262144 + (byte b - 128) * 4096 + (byte d - 128) * 64 + (byte e - 128)"
proof -
  consider "194 \<le> byte c" "byte c \<le> 223" | "224 \<le> byte c" "byte c \<le> 239"
    | "240 \<le> byte c" "byte c \<le> 244"
    using assms by (auto simp: utf8_first_def Let_def split: if_splits)
  then show thesis
  proof cases
    case 1
    then have "utf8_first2 (byte c) r = (u, n)"
      using assms by (simp add: utf8_first_def Let_def)
    with 1 assms(2) show thesis
      by (cases r) (auto simp: utf8_first2_def split: if_splits intro: two)
  next
    case 2
    then have "utf8_first3 (byte c) r = (u, n)"
      using assms by (simp add: utf8_first_def Let_def)
    with 2 assms(2) show thesis
      by (auto simp: utf8_first3_def split: list.splits if_splits intro: three)
  next
    case 3
    then have "utf8_first4 (byte c) r = (u, n)"
      using assms by (simp add: utf8_first_def Let_def)
    with 3 assms(2) show thesis
      by (auto simp: utf8_first4_def split: list.splits if_splits intro: four)
  qed
qed

lemma utf8_first_encode:
  assumes "utf8_first c r = (u, n)" "(u, n) \<noteq> (RuneError, 0)" "128 \<le> byte c"
  shows "utf8_encode u = c # take n r"
  using assms
proof (cases rule: utf8_first_cases)
  case two
  then show ?thesis using encode2 by simp
next
  case three
  then show ?thesis using encode3 by (simp add: numeral_2_eq_2)
next
  case four
  then show ?thesis using encode4 by (simp add: numeral_3_eq_3)
qed

lemma utf8_first_append:
  assumes "utf8_first c r = (u, n)" "(u, n) \<noteq> (RuneError, 0)" "128 \<le> byte c"
  shows "utf8_first c (take n r @ x) = (u, n) \<and> length (take n r) = n"
  using assms
proof (cases rule: utf8_first_cases)
  case two
  then show ?thesis by (simp add: utf8_first_defs)
next
  case three
  then show ?thesis by (simp add: utf8_first_defs numeral_2_eq_2)
next
  case four
  then show ?thesis by (simp add: utf8_first_defs numeral_3_eq_3)
qed

section \<open>The round trip\<close>

lemma byte_eqI: "byte c = n \<Longrightarrow> c = char_of n"
  by (metis char_of_char)

lemma hex4_00:
  assumes "byte c < 128"
  shows "hex4 (CHR ''0'') (CHR ''0'') (hex_digit (byte c div 16)) (hex_digit (byte c mod 16))
    = Some (byte c)"
proof -
  have "hex_val (hex_digit (byte c div 16)) = Some (byte c div 16)"
    "hex_val (hex_digit (byte c mod 16)) = Some (byte c mod 16)"
    using assms by (simp_all add: hex_val_digit)
  moreover have "hex_val (CHR ''0'') = Some 0"
    by (simp add: hex_val_def)
  ultimately show ?thesis
    by (simp add: hex4_def)
qed

lemma unquote_u00:
  assumes "byte c < 128"
  shows "json_unquote (backslash # ''u00'' @ [hex_digit (byte c div 16), hex_digit (byte c mod 16)] @ x)
    = prepend [c] (json_unquote x)"
proof -
  have "getu4 (backslash # ''u00'' @ [hex_digit (byte c div 16), hex_digit (byte c mod 16)] @ x)
      = Some (byte c, x)"
    by (simp add: hex4_00 [OF assms])
  moreover have "\<not> surrogate (byte c)"
    using assms by (simp add: surrogate_def)
  ultimately have "unescape_u (backslash # ''u00'' @ [hex_digit (byte c div 16), hex_digit (byte c mod 16)] @ x)
      = Some (byte c, x)"
    by (simp add: unescape_u_def)
  then show ?thesis
    using assms by (simp add: json_unquote.simps utf8_encode_def backslash_def quote_def)
qed

lemma unquote_esc1:
  assumes "unescape1 e = Some d"
  shows "json_unquote (backslash # e # x) = prepend [d] (json_unquote x)"
  using assms
  by (auto simp: json_unquote.simps backslash_def quote_def unescape1_def split: if_splits)

lemma byte_lits:
  "byte c = 34 \<longleftrightarrow> c = CHR 0x22" "byte c = 92 \<longleftrightarrow> c = CHR 0x5C" "byte c = 8 \<longleftrightarrow> c = CHR 0x08"
  "byte c = 12 \<longleftrightarrow> c = CHR 0x0C" "byte c = 10 \<longleftrightarrow> c = CHR 0x0A" "byte c = 13 \<longleftrightarrow> c = CHR 0x0D"
  "byte c = 9 \<longleftrightarrow> c = CHR 0x09"
  by (auto intro: of_char_eqI [where 'a = nat])

lemma unquote_ascii:
  assumes "byte c < 128"
  shows "json_unquote (esc_ascii c @ x) = prepend [c] (json_unquote x)"
proof (cases "c \<in> {CHR 0x22, CHR 0x5C, CHR 0x08, CHR 0x0C, CHR 0x0A, CHR 0x0D, CHR 0x09}")
  case True
  then show ?thesis
    by (auto simp: esc_ascii_def Let_def unescape1_def quote_def
        intro!: unquote_esc1 [unfolded backslash_def] simp: backslash_def)
next
  case False
  then have b: "byte c \<notin> {34, 92, 8, 12, 10, 13, 9}"
    by (simp add: byte_lits)
  show ?thesis
  proof (cases "byte c < 32 \<or> byte c \<in> {60, 62, 38}")
    case True
    with b have "esc_ascii c = backslash # ''u00'' @ [hex_digit (byte c div 16), hex_digit (byte c mod 16)]"
      by (auto simp: esc_ascii_def Let_def)
    then show ?thesis using unquote_u00 [OF assms] by simp
  next
    case False
    with b have "esc_ascii c = [c]" and "c \<noteq> quote" and "c \<noteq> backslash"
      by (auto simp: esc_ascii_def Let_def quote_def backslash_def)
    with False assms show ?thesis by (simp add: json_unquote.simps)
  qed
qed

lemma unquote_multi:
  assumes "128 \<le> byte c" "utf8_first c r = (u, n)"
  shows "json_unquote (c # r) = prepend (utf8_encode u) (json_unquote (drop n r))"
proof -
  have "c \<noteq> quote" "c \<noteq> backslash"
    using assms by (auto simp: quote_def backslash_def)
  with assms show ?thesis by (simp add: json_unquote.simps)
qed

lemma escape_multi:
  assumes "128 \<le> byte c" "utf8_first c r = (u, n)" "(u, n) \<noteq> (RuneError, 0)"
  shows "json_escape (c # r) =
    (if u = 8232 \<or> u = 8233 then backslash # ''u202'' @ [hex_digit (u mod 16)] else c # take n r)
      @ json_escape (drop n r)"
  using assms by (auto simp: json_escape.simps)

lemma escape_ascii: "byte c < 128 \<Longrightarrow> json_escape (c # r) = esc_ascii c @ json_escape r"
  by (simp add: json_escape.simps)

lemma unquote_line_sep:
  assumes "u = 8232 \<or> u = 8233"
  shows "json_unquote (backslash # ''u202'' @ [hex_digit (u mod 16)] @ x)
    = prepend (utf8_encode u) (json_unquote x)"
  using assms
  by (auto simp: json_unquote.simps unescape_u_def hex4_def hex_val_def hex_digit_def
      surrogate_def quote_def backslash_def)

theorem json_unquote_escape:
  assumes "valid_utf8 s"
  shows "json_unquote (json_escape s @ quote # x) = Some (s, x)"
  using assms
proof (induction s rule: valid_utf8_induct)
  case Nil
  then show ?case by (simp add: json_unquote.simps)
next
  case (ascii c r)
  then show ?case by (simp add: escape_ascii unquote_ascii prepend_def)
next
  case (multi c r u n)
  note first = utf8_first_append [OF multi.hyps(2,3,1)]
  have enc: "utf8_encode u = c # take n r"
    by (rule utf8_first_encode [OF multi.hyps(2,3,1)])
  have len: "drop n (take n r @ y) = y" for y
    using first by simp
  have "json_unquote ((c # take n r) @ json_escape (drop n r) @ quote # x)
      = Some (c # take n r @ drop n r, x)"
    using unquote_multi [OF multi.hyps(1)] first multi.IH enc
    by (simp add: prepend_def len del: append_take_drop_id)
  moreover have "json_unquote ((backslash # ''u202'' @ [hex_digit (u mod 16)]) @ json_escape (drop n r)
      @ quote # x) = Some (c # take n r @ drop n r, x)" if "u = 8232 \<or> u = 8233"
    using unquote_line_sep [OF that, of "json_escape (drop n r) @ quote # x"] multi.IH enc
    by (simp add: prepend_def del: append_take_drop_id)
  ultimately show ?case
    using escape_multi [OF multi.hyps(1,2,3)] by simp
qed

corollary json_quote_prefix_code:
  assumes "valid_utf8 s" "valid_utf8 t" "json_quote s @ x = json_quote t @ y"
  shows "s = t \<and> x = y"
proof -
  have eq: "json_escape s @ quote # x = json_escape t @ quote # y"
    using assms(3) by (simp add: json_quote_def)
  have "Some (s, x) = json_unquote (json_escape s @ quote # x)"
    by (rule json_unquote_escape [OF assms(1), symmetric])
  also have "\<dots> = Some (t, y)"
    unfolding eq by (rule json_unquote_escape [OF assms(2)])
  finally show ?thesis by blast
qed

end
