(* ===== verification/Event.thy ===== *)
theory Event
  imports Json
begin

text \<open>
  The core primitives of \<^verbatim>\<open>pkg/event/event.go\<close>: events, subscription filters, validation and
  filter matching. SHA-256 and the BIP-340 functions of \<^verbatim>\<open>btcec\<close> are the record \<open>crypto\<close>.

  Results: filter matching against a declarative specification, independent of the order in
  which the filter's tag map is visited; what a validated event guarantees; and that the
  serialisation the event ID is computed from determines every field it covers.
\<close>

section \<open>Data\<close>

record event =
  ID :: string
  PubKey :: string
  CreatedAt :: int
  Kind :: int
  Tags :: "string slice slice"
  Content :: string
  Sig :: string

record filt =
  IDs :: "string slice"
  Authors :: "string slice"
  Kinds :: "int slice"
  FTags :: "(string, string slice) gomap"
  Since :: "int option"
  Until :: "int option"
  Limit :: "int option"
  Search :: string

text \<open>The tags a \<^verbatim>\<open>range\<close> loop sees: nil slices read as empty ones.\<close>

definition tags :: "event \<Rightarrow> string list list" where
  "tags e = map elems (elems (Tags e))"

text \<open>The libraries that validation calls.\<close>

record ('pk, 'sg) crypto =
  sha256 :: "string \<Rightarrow> string"
  ParsePubKey :: "string \<Rightarrow> error + 'pk"
  ParseSignature :: "string \<Rightarrow> error + 'sg"
  SchnorrVerify :: "'sg \<Rightarrow> string \<Rightarrow> 'pk \<Rightarrow> bool"

section \<open>Serialisation and validation\<close>

text \<open>\<^verbatim>\<open>json.Marshal\<close> of a slice: nil is \<^verbatim>\<open>null\<close>. On strings, integers and slices of them it does
  not fail.\<close>

definition marshal_slice :: "('a \<Rightarrow> string) \<Rightarrow> 'a slice \<Rightarrow> string" where
  "marshal_slice f s = (case s of
      None \<Rightarrow> ''null''
    | Some xs \<Rightarrow> ''['' @ Join (map f xs) '','' @ '']'')"

definition Serialize :: "event \<Rightarrow> string" where
  "Serialize e =
     ''['' @ Join [''0'', json_quote (PubKey e), show_int (CreatedAt e), show_int (Kind e),
       marshal_slice (marshal_slice json_quote) (Tags e), json_quote (Content e)] '','' @ '']''"

definition ComputeID :: "('pk, 'sg) crypto \<Rightarrow> event \<Rightarrow> string" where
  "ComputeID C e = EncodeToString (sha256 C (Serialize e))"

definition VerifySignature :: "('pk, 'sg) crypto \<Rightarrow> event \<Rightarrow> error option" where
  "VerifySignature C e =
    (case DecodeString (PubKey e) of
       Inl err \<Rightarrow> Some (wrap_err ''invalid pubkey hex: '' err)
     | Inr pubKeyBytes \<Rightarrow>
         if length pubKeyBytes \<noteq> 32 then Errorf ''pubkey must be 32 bytes''
         else (case ParsePubKey C pubKeyBytes of
           Inl err \<Rightarrow> Some (wrap_err ''invalid pubkey: '' err)
         | Inr pubKey \<Rightarrow>
             (case DecodeString (Sig e) of
                Inl err \<Rightarrow> Some (wrap_err ''invalid signature hex: '' err)
              | Inr sigBytes \<Rightarrow>
                  if length sigBytes \<noteq> 64 then Errorf ''signature must be 64 bytes''
                  else (case ParseSignature C sigBytes of
                    Inl err \<Rightarrow> Some (wrap_err ''invalid signature: '' err)
                  | Inr sig \<Rightarrow>
                      (case DecodeString (ID e) of
                         Inl err \<Rightarrow> Some (wrap_err ''invalid ID hex: '' err)
                       | Inr idBytes \<Rightarrow>
                           if \<not> SchnorrVerify C sig idBytes pubKey
                           then Errorf ''signature verification failed''
                           else None)))))"

definition Validate :: "('pk, 'sg) crypto \<Rightarrow> event \<Rightarrow> error option" where
  "Validate C e =
    (if PubKey e = [] then Errorf ''missing pubkey''
     else if Sig e = [] then Errorf ''missing signature''
     else if Kind e < 0 then Errorf ''invalid kind''
     else if ID e \<noteq> ComputeID C e then Errorf ''ID does not match computed hash''
     else (case VerifySignature C e of
       Some err \<Rightarrow> Some (wrap_err ''invalid signature: '' err)
     | None \<Rightarrow> None))"

section \<open>Filter matching\<close>

definition matchesPrefix :: "string \<Rightarrow> string \<Rightarrow> bool" where
  "matchesPrefix target prefix =
     (if length target < length prefix then False else take (length prefix) target = prefix)"

fun hasTag_loop :: "string list list \<Rightarrow> string \<Rightarrow> string \<Rightarrow> bool" where
  "hasTag_loop [] name value = False"
| "hasTag_loop (t # ts) name value =
     (if 2 \<le> length t \<and> t ! 0 = name \<and> matchesPrefix (t ! 1) value then True
      else hasTag_loop ts name value)"

definition hasTag :: "event \<Rightarrow> string \<Rightarrow> string \<Rightarrow> bool" where
  "hasTag e name value = hasTag_loop (tags e) name value"

text \<open>The loop over the filter's tag map, in the order \<open>ts\<close> it is visited.\<close>

fun matches_tags :: "event \<Rightarrow> (string \<times> string slice) list \<Rightarrow> bool" where
  "matches_tags e [] = True"
| "matches_tags e ((tagName, filterValues) # ts) =
     (if list_ex (\<lambda>v. hasTag e tagName v) (elems filterValues) then matches_tags e ts else False)"

definition Matches :: "event \<Rightarrow> filt \<Rightarrow> bool" where
  "Matches e f =
    (if elems (IDs f) \<noteq> [] \<and> \<not> list_ex (matchesPrefix (ID e)) (elems (IDs f)) then False
     else if elems (Authors f) \<noteq> [] \<and> \<not> list_ex (matchesPrefix (PubKey e)) (elems (Authors f)) then False
     else if elems (Kinds f) \<noteq> [] \<and> \<not> list_ex (\<lambda>k. Kind e = k) (elems (Kinds f)) then False
     else if (case Since f of Some t \<Rightarrow> CreatedAt e < t | None \<Rightarrow> False) then False
     else if (case Until f of Some t \<Rightarrow> CreatedAt e > t | None \<Rightarrow> False) then False
     else matches_tags e (FTags f))"

section \<open>Tag accessors, expiration, deletion\<close>

fun GetTagValues_loop :: "string list list \<Rightarrow> string \<Rightarrow> string list" where
  "GetTagValues_loop [] n = []"
| "GetTagValues_loop (t # ts) n =
     (if 2 \<le> length t \<and> t ! 0 = n then t ! 1 # GetTagValues_loop ts n else GetTagValues_loop ts n)"

definition GetTagValues :: "event \<Rightarrow> string \<Rightarrow> string list" where
  "GetTagValues e tagName = GetTagValues_loop (tags e) tagName"

text \<open>\<^verbatim>\<open>fmt.Sscanf(s, "%d", &n)\<close>: leading spaces (no newline), a sign, then the longest run of
  digits; what follows is ignored.\<close>

fun sscanf_skip :: "string \<Rightarrow> string option" where
  "sscanf_skip [] = Some []"
| "sscanf_skip (c # s) =
     (if c = CHR 0x0D \<and> HasPrefix s [CHR 0x0A] then sscanf_skip s
      else if c = CHR 0x0A then None
      else if 0 < space_prefix (c # s) then
        (if space_prefix (c # s) = 1 then sscanf_skip s
         else if space_prefix (c # s) = 2 then (case s of _ # r \<Rightarrow> sscanf_skip r | [] \<Rightarrow> Some [])
         else (case s of _ # _ # r \<Rightarrow> sscanf_skip r | _ \<Rightarrow> Some []))
      else Some (c # s))"

definition sscanf_d :: "string \<Rightarrow> int option" where
  "sscanf_d s = (case sscanf_skip s of
      None \<Rightarrow> None
    | Some r \<Rightarrow> (let (neg, ds) = signed_digits r in
        ParseInt ((if neg then ''-'' else '''') @ takeWhile digit ds)))"

text \<open>\<open>now\<close> is \<^verbatim>\<open>time.Now().Unix()\<close>.\<close>

definition event_IsExpired :: "int \<Rightarrow> event \<Rightarrow> bool" where
  "event_IsExpired now e = (case GetTagValues e ''expiration'' of
      [] \<Rightarrow> False
    | x # _ \<Rightarrow> (case sscanf_d x of None \<Rightarrow> False | Some expiration \<Rightarrow> now > expiration))"

definition IsDeleted :: "event \<Rightarrow> bool" where
  "IsDeleted e = (Kind e = 5)"

definition GetDeletedEventIDs :: "event \<Rightarrow> string list" where
  "GetDeletedEventIDs e = (if \<not> IsDeleted e then [] else GetTagValues e ''e'')"

text \<open>
  The loop most packages write by hand: the value of the first tag of a given name that has
  one.
\<close>

definition first_tag :: "string \<Rightarrow> event \<Rightarrow> string option" where
  "first_tag n e = map_option (\<lambda>t. t ! 1) (find (\<lambda>t. 2 \<le> length t \<and> t ! 0 = n) (tags e))"

definition first_tag_or_empty :: "string \<Rightarrow> event \<Rightarrow> string" where
  "first_tag_or_empty n e = (case first_tag n e of None \<Rightarrow> [] | Some v \<Rightarrow> v)"

section \<open>Filter matching, declaratively\<close>

lemma matchesPrefix_iff: "matchesPrefix t p \<longleftrightarrow> HasPrefix t p"
  by (auto simp: matchesPrefix_def HasPrefix_iff)
    (metis append_take_drop_id)

lemma hasTag_iff:
  "hasTag e n v \<longleftrightarrow> (\<exists>t \<in> set (tags e). 2 \<le> length t \<and> t ! 0 = n \<and> HasPrefix (t ! 1) v)"
proof -
  have "hasTag_loop ts n v \<longleftrightarrow> (\<exists>t \<in> set ts. 2 \<le> length t \<and> t ! 0 = n \<and> HasPrefix (t ! 1) v)" for ts
    by (induction ts) (auto simp: matchesPrefix_iff)
  then show ?thesis by (simp add: hasTag_def)
qed

lemma matches_tags_iff:
  "matches_tags e ts \<longleftrightarrow> (\<forall>(n, vs) \<in> set ts. \<exists>v \<in> set (elems vs). hasTag e n v)"
  by (induction ts) (auto simp: list_ex_iff split: if_splits)

lemma GetTagValues_eq:
  "GetTagValues e n = map (\<lambda>t. t ! 1) (filter (\<lambda>t. 2 \<le> length t \<and> t ! 0 = n) (tags e))"
proof -
  have "GetTagValues_loop ts n = map (\<lambda>t. t ! 1) (filter (\<lambda>t. 2 \<le> length t \<and> t ! 0 = n) ts)" for ts
    by (induction ts) auto
  then show ?thesis by (simp add: GetTagValues_def)
qed

lemma first_tag_GetTagValues:
  "first_tag n e = (case GetTagValues e n of [] \<Rightarrow> None | v # _ \<Rightarrow> Some v)"
proof -
  have "map_option g (find P ts) = (case map g (filter P ts) of [] \<Rightarrow> None | v # _ \<Rightarrow> Some v)"
    for P and ts :: "string list list" and g :: "string list \<Rightarrow> string"
    by (induction ts) auto
  then show ?thesis by (simp add: first_tag_def GetTagValues_eq)
qed

text \<open>C22: an event matches a filter exactly when every field the filter sets admits it: one of the
  id and author prefixes, one of the kinds, the closed time interval, and for each tag name
  one of the listed value prefixes. The order in which Go visits the filter's tag map does not
  matter.\<close>

theorem Matches_spec:
  assumes "ranges (FTags f) ts"
  shows "Matches e (f\<lparr>FTags := ts\<rparr>) \<longleftrightarrow>
      (elems (IDs f) = [] \<or> (\<exists>p \<in> set (elems (IDs f)). HasPrefix (ID e) p))
    \<and> (elems (Authors f) = [] \<or> (\<exists>p \<in> set (elems (Authors f)). HasPrefix (PubKey e) p))
    \<and> (elems (Kinds f) = [] \<or> Kind e \<in> set (elems (Kinds f)))
    \<and> (case Since f of None \<Rightarrow> True | Some t \<Rightarrow> t \<le> CreatedAt e)
    \<and> (case Until f of None \<Rightarrow> True | Some t \<Rightarrow> CreatedAt e \<le> t)
    \<and> (\<forall>(n, vs) \<in> set (FTags f). \<exists>v \<in> set (elems vs). \<exists>t \<in> set (tags e).
          2 \<le> length t \<and> t ! 0 = n \<and> HasPrefix (t ! 1) v)"
  using ranges_set [OF assms]
  by (auto simp: Matches_def matches_tags_iff hasTag_iff list_ex_iff matchesPrefix_iff
      split: option.splits)

definition sample_event :: event where
  "sample_event = \<lparr>ID = ''ab12'', PubKey = ''cd34'', CreatedAt = 100, Kind = 1,
     Tags = Some [Some [''e'', ''ff00'', ''x''], None, Some [''t'', ''go'']],
     Content = ''hi'', Sig = ''00''\<rparr>"

definition sample_filter :: filt where
  "sample_filter = \<lparr>IDs = Some [''zz'', ''ab''], Authors = None, Kinds = Some [],
     FTags = [(''e'', Some [''ff'']), (''t'', Some [''g''])],
     Since = Some 100, Until = Some 100, Limit = None, Search = ''''\<rparr>"

lemma Matches_spec_witness:
  "Matches sample_event (sample_filter\<lparr>FTags := [(''t'', Some [''g'']), (''e'', Some [''ff''])]\<rparr>)"
proof -
  have "ranges (FTags sample_filter) [(''t'', Some [''g'']), (''e'', Some [''ff''])]"
    by (simp add: ranges_def sample_filter_def)
  from Matches_spec [OF this, of sample_event] show ?thesis
    by (simp add: sample_event_def sample_filter_def tags_def)
qed

section \<open>The serialisation determines the event\<close>

text \<open>
  An encoder is a prefix code on a set of values when an encoded value followed by anything
  determines the value and what follows.
\<close>

definition pcode :: "('a \<Rightarrow> bool) \<Rightarrow> ('a \<Rightarrow> string) \<Rightarrow> bool" where
  "pcode P enc \<longleftrightarrow> (\<forall>a b x y. P a \<longrightarrow> P b \<longrightarrow> enc a @ x = enc b @ y \<longrightarrow> a = b \<and> x = y)"

lemma pcodeD: "pcode P enc \<Longrightarrow> enc a @ x = enc b @ y \<Longrightarrow> P a \<Longrightarrow> P b \<Longrightarrow> a = b \<and> x = y"
  unfolding pcode_def by blast

lemma pcode_quote: "pcode valid_utf8 json_quote"
  unfolding pcode_def using json_quote_prefix_code by blast

fun join_tail :: "('a \<Rightarrow> string) \<Rightarrow> 'a list \<Rightarrow> string" where
  "join_tail f [] = '']''"
| "join_tail f (x # xs) = CHR '','' # f x @ join_tail f xs"

lemma Join_tail: "Join (map f (x # xs)) '','' @ '']'' = f x @ join_tail f xs"
  by (induction xs arbitrary: x) auto

lemma pcode_join_tail:
  assumes "pcode P f"
  shows "pcode (list_all P) (join_tail f)"
proof -
  have "join_tail f as @ x = join_tail f bs @ y \<Longrightarrow> list_all P as \<Longrightarrow> list_all P bs \<Longrightarrow>
    as = bs \<and> x = y" for as bs x y
  proof (induction as arbitrary: bs)
    case Nil
    then show ?case by (cases bs) auto
  next
    case (Cons a as)
    then obtain b bs' where bs: "bs = b # bs'" by (cases bs) auto
    with Cons.prems have "f a @ join_tail f as @ x = f b @ join_tail f bs' @ y" by simp
    from pcodeD [OF assms this] Cons.prems bs
    have "a = b" and "join_tail f as @ x = join_tail f bs' @ y" by simp_all
    then show ?case using Cons bs by simp
  qed
  then show ?thesis unfolding pcode_def by blast
qed

text \<open>A slice encoder over an element encoder that never starts with a closing bracket.\<close>

lemma marshal_None: "marshal_slice f None = ''null''"
  by (simp add: marshal_slice_def)

lemma marshal_Nil: "marshal_slice f (Some []) = ''[]''"
  by (simp add: marshal_slice_def)

lemma marshal_Cons: "marshal_slice f (Some (a # as)) = CHR ''['' # f a @ join_tail f as"
proof -
  have "marshal_slice f (Some (a # as)) = CHR ''['' # (Join (map f (a # as)) '','' @ '']'')"
    by (simp add: marshal_slice_def)
  then show ?thesis by (simp only: Join_tail)
qed

lemmas marshal_cases = marshal_None marshal_Nil marshal_Cons

lemma slice_cases [case_names None Nil Cons]:
  obtains "s = None" | "s = Some []" | a as where "s = Some (a # as)"
  by (metis list.exhaust option.exhaust)

lemma pcode_slice:
  assumes f: "pcode P f" and hd: "\<And>a. \<exists>c r. f a = c # r \<and> c \<noteq> CHR '']''"
  shows "pcode (\<lambda>s. list_all P (elems s)) (marshal_slice f)"
proof -
  have no: "f a @ z \<noteq> CHR '']'' # w" for a z w
    using hd [of a] by auto
  have "s = t \<and> x = y"
    if eq: "marshal_slice f s @ x = marshal_slice f t @ y" and
      ps: "list_all P (elems s)" "list_all P (elems t)" for s t x y
  proof (cases s rule: slice_cases)
    case None
    with eq show ?thesis
      by (cases t rule: slice_cases) (simp_all add: marshal_cases)
  next
    case Nil
    with eq no show ?thesis
      by (cases t rule: slice_cases) (simp_all add: marshal_cases, metis)
  next
    case (Cons a as)
    from eq no Cons obtain b bs where t: "t = Some (b # bs)"
      by (cases t rule: slice_cases) (simp_all add: marshal_cases)
    with eq Cons have "f a @ join_tail f as @ x = f b @ join_tail f bs @ y"
      by (simp add: marshal_cases)
    from pcodeD [OF f this] ps Cons t have ab: "a = b" "join_tail f as @ x = join_tail f bs @ y"
      by simp_all
    with pcodeD [OF pcode_join_tail [OF f] ab(2)] ps Cons t show ?thesis by simp
  qed
  then show ?thesis unfolding pcode_def by blast
qed

definition utf8_tags :: "string slice slice \<Rightarrow> bool" where
  "utf8_tags ts = list_all (\<lambda>t. list_all valid_utf8 (elems t)) (elems ts)"

text \<open>The strings of an event are valid UTF-8, as those of every event decoded from JSON are.\<close>

definition utf8_event :: "event \<Rightarrow> bool" where
  "utf8_event e \<longleftrightarrow> valid_utf8 (PubKey e) \<and> valid_utf8 (Content e) \<and> utf8_tags (Tags e)"

lemma pcode_tags: "pcode utf8_tags (marshal_slice (marshal_slice json_quote))"
proof -
  have "\<exists>c r. json_quote a = c # r \<and> c \<noteq> CHR '']''" for a
    by (simp add: json_quote_def quote_def)
  moreover have "\<exists>c r. marshal_slice json_quote a = c # r \<and> c \<noteq> CHR '']''" for a
    by (cases a) (simp_all add: marshal_slice_def)
  ultimately show ?thesis
    unfolding utf8_tags_def [abs_def] by (intro pcode_slice pcode_quote)
qed

lemma show_int_comma:
  assumes "show_int i @ CHR '','' # x = show_int j @ CHR '','' # y"
  shows "i = j \<and> x = y"
proof -
  have "takeWhile (\<lambda>c. c \<noteq> CHR '','') (show_int k @ CHR '','' # z) = show_int k"
    "dropWhile (\<lambda>c. c \<noteq> CHR '','') (show_int k @ CHR '','' # z) = CHR '','' # z" for k z
    by (simp_all add: takeWhile_append dropWhile_append show_int_no_comma)
  with assms have "show_int i = show_int j" and "CHR '','' # x = CHR '','' # y"
    by metis+
  then show ?thesis using show_int_inj by simp
qed

lemma Serialize_eq:
  "Serialize e = ''[0,'' @ json_quote (PubKey e) @ CHR '','' # show_int (CreatedAt e) @ CHR '',''
     # show_int (Kind e) @ CHR '','' # marshal_slice (marshal_slice json_quote) (Tags e)
     @ CHR '','' # json_quote (Content e) @ '']''"
  by (simp add: Serialize_def)

lemma Serialize_fields:
  assumes "utf8_event e" "utf8_event e'" and eq: "Serialize e = Serialize e'"
  shows "PubKey e = PubKey e' \<and> CreatedAt e = CreatedAt e' \<and> Kind e = Kind e' \<and> Tags e = Tags e'
    \<and> Content e = Content e'"
proof -
  note valid = assms(1,2) [unfolded utf8_event_def]
  have 1: "PubKey e = PubKey e' \<and> CHR '','' # show_int (CreatedAt e) @ CHR '','' # show_int (Kind e)
      @ CHR '','' # marshal_slice (marshal_slice json_quote) (Tags e) @ CHR '','' # json_quote (Content e) @ '']''
    = CHR '','' # show_int (CreatedAt e') @ CHR '','' # show_int (Kind e')
      @ CHR '','' # marshal_slice (marshal_slice json_quote) (Tags e') @ CHR '','' # json_quote (Content e') @ '']''"
    by (rule pcodeD [OF pcode_quote]) (use eq valid in \<open>simp_all add: Serialize_eq\<close>)
  then have 2: "CreatedAt e = CreatedAt e' \<and> show_int (Kind e) @ CHR '',''
      # marshal_slice (marshal_slice json_quote) (Tags e) @ CHR '','' # json_quote (Content e) @ '']''
    = show_int (Kind e') @ CHR '',''
      # marshal_slice (marshal_slice json_quote) (Tags e') @ CHR '','' # json_quote (Content e') @ '']''"
    by (intro show_int_comma) simp
  then have 3: "Kind e = Kind e' \<and> marshal_slice (marshal_slice json_quote) (Tags e) @ CHR '','' # json_quote (Content e) @ '']''
    = marshal_slice (marshal_slice json_quote) (Tags e') @ CHR '','' # json_quote (Content e') @ '']''"
    by (intro show_int_comma) simp
  then have 4: "Tags e = Tags e' \<and> CHR '','' # json_quote (Content e) @ '']'' = CHR '','' # json_quote (Content e') @ '']''"
    by (intro pcodeD [OF pcode_tags]) (use valid in simp_all)
  then have "Content e = Content e' \<and> '']'' = '']''"
    by (intro pcodeD [OF pcode_quote]) (use valid in simp_all)
  with 1 2 3 4 show ?thesis by simp
qed

section \<open>What validation guarantees\<close>

lemma VerifySignature_None:
  "VerifySignature C e = None \<longleftrightarrow>
    (\<exists>pkb pk sgb sg idb. DecodeString (PubKey e) = Inr pkb \<and> length pkb = 32 \<and> ParsePubKey C pkb = Inr pk
      \<and> DecodeString (Sig e) = Inr sgb \<and> length sgb = 64 \<and> ParseSignature C sgb = Inr sg
      \<and> DecodeString (ID e) = Inr idb \<and> SchnorrVerify C sg idb pk)"
  by (auto simp: VerifySignature_def split: sum.splits)

text \<open>an event passes validation exactly when its kind is not negative, its ID is the hex SHA-256
  of its serialisation, its public key and signature are hex for 32 and 64 bytes that parse, and
  the signature verifies for that key over the hash itself.\<close>

theorem Validate_spec:
  "Validate C e = None \<longleftrightarrow>
    0 \<le> Kind e \<and> ID e = EncodeToString (sha256 C (Serialize e)) \<and>
    (\<exists>pkb pk sgb sg. DecodeString (PubKey e) = Inr pkb \<and> length pkb = 32 \<and> ParsePubKey C pkb = Inr pk
      \<and> DecodeString (Sig e) = Inr sgb \<and> length sgb = 64 \<and> ParseSignature C sgb = Inr sg
      \<and> SchnorrVerify C sg (sha256 C (Serialize e)) pk)"
proof (cases "ID e = ComputeID C e")
  case True
  then have "DecodeString (ID e) = Inr (sha256 C (Serialize e))"
    by (simp add: ComputeID_def DecodeString_Encode)
  with VerifySignature_None [of C e] have sig: "VerifySignature C e = None \<longleftrightarrow>
    (\<exists>pkb pk sgb sg. DecodeString (PubKey e) = Inr pkb \<and> length pkb = 32 \<and> ParsePubKey C pkb = Inr pk
      \<and> DecodeString (Sig e) = Inr sgb \<and> length sgb = 64 \<and> ParseSignature C sgb = Inr sg
      \<and> SchnorrVerify C sg (sha256 C (Serialize e)) pk)"
    by simp
  then have "VerifySignature C e = None \<Longrightarrow> PubKey e \<noteq> [] \<and> Sig e \<noteq> []"
    by auto
  then have "Validate C e = None \<longleftrightarrow> 0 \<le> Kind e \<and> VerifySignature C e = None"
    using True by (auto simp: Validate_def split: option.splits)
  with sig True show ?thesis by (simp add: ComputeID_def)
next
  case False
  then show ?thesis by (simp add: Validate_def ComputeID_def)
qed

lemma Validate_ID: "Validate C e = None \<Longrightarrow> ID e = ComputeID C e"
  by (simp add: Validate_def split: if_splits)

lemma Validate_Kind: "Validate C e = None \<Longrightarrow> 0 \<le> Kind e"
  by (simp add: Validate_def split: if_splits)

text \<open>C23: two validated events with the same ID agree in every field the ID covers, unless SHA-256
  collides on two different serialisations: the serialisation is injective.\<close>

theorem ID_commits:
  assumes "Validate C e = None" "Validate C e' = None" "utf8_event e" "utf8_event e'"
    and "ID e = ID e'"
  shows "(PubKey e = PubKey e' \<and> CreatedAt e = CreatedAt e' \<and> Kind e = Kind e' \<and> Tags e = Tags e'
      \<and> Content e = Content e')
    \<or> (Serialize e \<noteq> Serialize e' \<and> sha256 C (Serialize e) = sha256 C (Serialize e'))"
proof (cases "Serialize e = Serialize e'")
  case True
  then show ?thesis using Serialize_fields assms(3,4) by blast
next
  case False
  moreover have "sha256 C (Serialize e) = sha256 C (Serialize e')"
    using Validate_ID [OF assms(1)] Validate_ID [OF assms(2)] assms(5)
    by (simp add: ComputeID_def EncodeToString_inj)
  ultimately show ?thesis by blast
qed

text \<open>A crypto record under which an event validates: the hash is a fixed string, every key and
  signature of the right length parses, and every signature verifies.\<close>

definition sample_crypto :: "(unit, unit) crypto" where
  "sample_crypto = \<lparr>sha256 = (\<lambda>_. ''A''), ParsePubKey = (\<lambda>_. Inr ()),
     ParseSignature = (\<lambda>_. Inr ()), SchnorrVerify = (\<lambda>_ _ _. True)\<rparr>"

definition valid_sample :: event where
  "valid_sample = sample_event\<lparr>ID := ''41'', PubKey := replicate 64 (CHR ''a''),
     Sig := replicate 128 (CHR ''0'')\<rparr>"

lemma DecodeString_replicate:
  assumes "hex_val c = Some h"
  shows "DecodeString (replicate (2 * n) c) = Inr (replicate n (char_of (16 * h + h)))"
proof (induction n)
  case (Suc n)
  have "replicate (2 * Suc n) c = c # c # replicate (2 * n) c" by simp
  with Suc assms show ?case by simp
qed simp

lemma sample_crypto_validates:
  assumes "ID e = ''41''" "PubKey e = replicate 64 (CHR ''a'')" "Sig e = replicate 128 (CHR ''0'')" "0 \<le> Kind e"
  shows "Validate sample_crypto e = None"
proof -
  have "hex_val (CHR ''a'') = Some 10" "hex_val (CHR ''0'') = Some 0"
    by (simp_all add: hex_val_def)
  from this [THEN DecodeString_replicate]
  have "DecodeString (replicate 64 (CHR ''a'')) = Inr (replicate 32 (char_of (16 * 10 + 10 :: nat)))"
    "DecodeString (replicate 128 (CHR ''0'')) = Inr (replicate 64 (char_of (16 * 0 + 0 :: nat)))"
    by (metis mult_2 numeral_Bit0)+
  moreover have h: "EncodeToString ''A'' = ''41''"
    by code_simp
  moreover have "DecodeString ''41'' = Inr ''A''"
    using DecodeString_Encode [of "''A''"] unfolding h .
  ultimately have "VerifySignature sample_crypto e = None"
    unfolding VerifySignature_None assms(1-3) by (simp add: sample_crypto_def)
  then show ?thesis
    using assms h by (simp add: Validate_def ComputeID_def sample_crypto_def del: EncodeToString.simps)
qed

lemma valid_sample_validates: "Validate sample_crypto valid_sample = None"
  by (rule sample_crypto_validates) (simp_all add: valid_sample_def sample_event_def)

lemma ID_commits_witness:
  "Validate sample_crypto valid_sample = None \<and>
   Content valid_sample = Content (valid_sample\<lparr>Sig := Sig valid_sample\<rparr>)"
proof -
  have "utf8_event valid_sample"
    by (auto simp: utf8_event_def utf8_tags_def valid_sample_def sample_event_def ascii_def
        list_all_iff intro!: ascii_valid_utf8 simp del: valid_utf8.simps(2))
  from ID_commits [OF valid_sample_validates valid_sample_validates this this refl]
  show ?thesis using valid_sample_validates by simp
qed

end
