(* ===== verification/Storage.thy ===== *)
theory Storage
  imports Event
begin

text \<open>
  The interface \<^verbatim>\<open>storage.Store\<close> of \<^verbatim>\<open>pkg/storage/storage.go\<close>: a record of operations over a
  store state. The relay and the NIP handlers are defined over any such record.

  What a client may rely on is stated by two locales. \<open>storage\<close> holds for a store whatever its
  backend does, failures included: what each operation may tombstone or drop, and that a
  tombstone is final. \<open>healthy_storage\<close> adds what the operations achieve when the backend does
  not fail. The observations are \<open>stored\<close> (the event held under an ID, deleted or not, as it
  would be read back) and \<open>tomb\<close> (whether the ID is marked deleted).
\<close>

record 's store_if =
  SaveEvent :: "'s \<Rightarrow> event \<Rightarrow> 's \<times> error option"
  QueryEvents :: "'s \<Rightarrow> filt list \<Rightarrow> event list outcome"
  DeleteEvent :: "'s \<Rightarrow> string \<Rightarrow> string \<Rightarrow> 's \<times> error option"
  DeleteAllEventsByPubKey :: "'s \<Rightarrow> string \<Rightarrow> 's \<times> error option"
  GetEvent :: "'s \<Rightarrow> string \<Rightarrow> error + event"
  CountEvents :: "'s \<Rightarrow> filt list \<Rightarrow> error + int"
  DeleteChannelEvents :: "'s \<Rightarrow> string \<Rightarrow> 's \<times> (error + int)"
  DeleteEventsOlderThan :: "'s \<Rightarrow> int \<Rightarrow> int list \<Rightarrow> 's \<times> (error + int)"

text \<open>Kinds of which a store keeps one event per author (NIP-01).\<close>

definition replaceable_kind :: "int \<Rightarrow> bool" where
  "replaceable_kind k \<longleftrightarrow> k = 0 \<or> k = 3 \<or> (10000 \<le> k \<and> k < 20000)"

text \<open>The errors of an operation that returns only an error, and of one that returns a value.\<close>

abbreviation succeeded :: "'s \<times> error option \<Rightarrow> bool" where
  "succeeded r \<equiv> snd r = None"

locale storage =
  fixes S :: "'s store_if"
    and inv :: "'s \<Rightarrow> bool"
    and stored :: "'s \<Rightarrow> string \<Rightarrow> event option"
    and tomb :: "'s \<Rightarrow> string \<Rightarrow> bool"
  assumes stored_ID: "inv s \<Longrightarrow> stored s i = Some e \<Longrightarrow> ID e = i"
    and inv_save: "inv s \<Longrightarrow> inv (fst (SaveEvent S s e))"
    and inv_delete: "inv s \<Longrightarrow> inv (fst (DeleteEvent S s i pk))"
    and inv_delete_all: "inv s \<Longrightarrow> inv (fst (DeleteAllEventsByPubKey S s pk))"
    and inv_channel: "inv s \<Longrightarrow> inv (fst (DeleteChannelEvents S s c))"
    and inv_older: "inv s \<Longrightarrow> inv (fst (DeleteEventsOlderThan S s t ks))"
    and get_sound: "inv s \<Longrightarrow> GetEvent S s i = Inr e \<Longrightarrow> stored s i = Some e \<and> \<not> tomb s i"
    and get_tomb: "inv s \<Longrightarrow> tomb s i \<Longrightarrow> \<exists>err. GetEvent S s i = Inl err \<and> err \<noteq> ErrNotFound"
    and save_tomb: "inv s \<Longrightarrow> tomb s (ID e) \<Longrightarrow>
      fst (SaveEvent S s e) = s \<and> \<not> succeeded (SaveEvent S s e)"
    and save_mono: "inv s \<Longrightarrow> tomb s j \<Longrightarrow> tomb (fst (SaveEvent S s e)) j"
    and save_new: "inv s \<Longrightarrow> tomb (fst (SaveEvent S s e)) j \<Longrightarrow>
      tomb s j \<or> replaceable_kind (Kind e) \<and>
        (\<exists>old. stored s j = Some old \<and> PubKey old = PubKey e \<and> Kind old = Kind e)"
    and delete_stored: "inv s \<Longrightarrow> stored (fst (DeleteEvent S s i pk)) = stored s"
    and delete_mono: "inv s \<Longrightarrow> tomb s j \<Longrightarrow> tomb (fst (DeleteEvent S s i pk)) j"
    and delete_new: "inv s \<Longrightarrow> tomb (fst (DeleteEvent S s i pk)) j \<Longrightarrow>
      tomb s j \<or> j = i \<and> (\<exists>e. stored s i = Some e \<and> PubKey e = pk)"
    and delete_all_stored: "inv s \<Longrightarrow> stored (fst (DeleteAllEventsByPubKey S s pk)) = stored s"
    and delete_all_mono: "inv s \<Longrightarrow> tomb s j \<Longrightarrow> tomb (fst (DeleteAllEventsByPubKey S s pk)) j"
    and delete_all_new: "inv s \<Longrightarrow> tomb (fst (DeleteAllEventsByPubKey S s pk)) j \<Longrightarrow>
      tomb s j \<or> (\<exists>e. stored s j = Some e \<and> PubKey e = pk)"
    and channel_stored: "inv s \<Longrightarrow> stored (fst (DeleteChannelEvents S s c)) = stored s"
    and channel_tomb: "inv s \<Longrightarrow> tomb (fst (DeleteChannelEvents S s c)) = tomb s"
    and older_mono: "inv s \<Longrightarrow> tomb s j \<Longrightarrow> tomb (fst (DeleteEventsOlderThan S s t ks)) j"
    and older_new: "inv s \<Longrightarrow> tomb (fst (DeleteEventsOlderThan S s t ks)) j \<Longrightarrow>
      tomb s j \<or> (\<exists>e. stored s j = Some e \<and> CreatedAt e < t \<and> Kind e \<notin> set ks)"
    and older_keeps: "inv s \<Longrightarrow> stored s j = Some e \<Longrightarrow> t \<le> CreatedAt e \<or> Kind e \<in> set ks \<Longrightarrow>
      stored (fst (DeleteEventsOlderThan S s t ks)) j = Some e"
begin

lemmas invs = inv_save inv_delete inv_delete_all inv_channel inv_older

lemma get_not_tomb: "inv s \<Longrightarrow> GetEvent S s i = Inr e \<Longrightarrow> \<not> tomb s i"
  by (simp add: get_sound)

lemma get_ID: "inv s \<Longrightarrow> GetEvent S s i = Inr e \<Longrightarrow> ID e = i"
  using get_sound stored_ID by blast

lemma delete_unauthorised:
  assumes "inv s" "stored s i = Some e" "PubKey e \<noteq> pk"
  shows "tomb (fst (DeleteEvent S s i pk)) = tomb s"
proof
  fix j
  show "tomb (fst (DeleteEvent S s i pk)) j = tomb s j"
    using assms delete_new delete_mono by fastforce
qed

lemma tombs_final:
  assumes "inv s" "tomb s j"
  shows "tomb (fst (SaveEvent S s e)) j" "tomb (fst (DeleteEvent S s i pk)) j"
    "tomb (fst (DeleteAllEventsByPubKey S s pk)) j" "tomb (fst (DeleteChannelEvents S s c)) j"
    "tomb (fst (DeleteEventsOlderThan S s t ks)) j"
  using assms by (simp_all add: save_mono delete_mono delete_all_mono channel_tomb older_mono)

end

text \<open>
  A backend that does not fail. \<open>rd\<close> is the form in which an event is read back after it was
  saved (a store may not represent every event exactly).
\<close>

locale healthy_storage = storage S inv stored tomb
  for S :: "'s store_if"
    and inv :: "'s \<Rightarrow> bool"
    and stored :: "'s \<Rightarrow> string \<Rightarrow> event option"
    and tomb :: "'s \<Rightarrow> string \<Rightarrow> bool" +
  fixes rd :: "event \<Rightarrow> event"
  assumes get_stored: "inv s \<Longrightarrow> \<not> tomb s i \<Longrightarrow>
      GetEvent S s i = (case stored s i of None \<Rightarrow> Inl ErrNotFound | Some e \<Rightarrow> Inr e)"
    and save_plain: "inv s \<Longrightarrow> \<not> tomb s (ID e) \<Longrightarrow> \<not> replaceable_kind (Kind e) \<Longrightarrow>
      succeeded (SaveEvent S s e) \<and> stored (fst (SaveEvent S s e)) = (stored s)(ID e \<mapsto> rd e)
      \<and> tomb (fst (SaveEvent S s e)) = tomb s"
    and delete_author: "inv s \<Longrightarrow> stored s i = Some e \<Longrightarrow> PubKey e = pk \<Longrightarrow>
      succeeded (DeleteEvent S s i pk) \<and> tomb (fst (DeleteEvent S s i pk)) i"
    and delete_all_author: "inv s \<Longrightarrow> succeeded (DeleteAllEventsByPubKey S s pk) \<and>
      (stored s j = Some e \<longrightarrow> PubKey e = pk \<longrightarrow> tomb (fst (DeleteAllEventsByPubKey S s pk)) j)"
begin

lemma save_get:
  assumes "inv s" "\<not> tomb s (ID e)" "\<not> replaceable_kind (Kind e)"
  shows "GetEvent S (fst (SaveEvent S s e)) (ID e) = Inr (rd e)"
  using save_plain [OF assms] get_stored [OF inv_save] assms by simp

lemma save_get_other:
  assumes "inv s" "\<not> tomb s (ID e)" "\<not> replaceable_kind (Kind e)" "i \<noteq> ID e" "\<not> tomb s i"
  shows "GetEvent S (fst (SaveEvent S s e)) i = GetEvent S s i"
  using save_plain [OF assms(1-3)] get_stored [OF inv_save] get_stored assms by simp

lemma delete_all_exact:
  assumes "inv s"
  shows "tomb (fst (DeleteAllEventsByPubKey S s pk)) j \<longleftrightarrow>
    tomb s j \<or> (\<exists>e. stored s j = Some e \<and> PubKey e = pk)"
  using assms delete_all_new delete_all_mono delete_all_author by blast

end

section \<open>Sequences of operations\<close>

text \<open>What the handlers of regular events ask of a store: saving an event, deleting one on behalf of a key,
  deleting everything of a key.\<close>

datatype store_op = Save event | Delete string string | Vanish string

fun apply_op :: "'s store_if \<Rightarrow> store_op \<Rightarrow> 's \<Rightarrow> 's" where
  "apply_op S (Save e) s = fst (SaveEvent S s e)"
| "apply_op S (Delete i pk) s = fst (DeleteEvent S s i pk)"
| "apply_op S (Vanish pk) s = fst (DeleteAllEventsByPubKey S s pk)"

definition regular_op :: "store_op \<Rightarrow> bool" where
  "regular_op a \<longleftrightarrow> (case a of Save e \<Rightarrow> \<not> replaceable_kind (Kind e) | _ \<Rightarrow> True)"

text \<open>Their specification, over the events held and the IDs marked deleted.\<close>

type_synonym contents = "(string \<rightharpoonup> event) \<times> (string \<Rightarrow> bool)"

fun spec_op :: "(event \<Rightarrow> event) \<Rightarrow> store_op \<Rightarrow> contents \<Rightarrow> contents" where
  "spec_op rd (Save e) (m, dead) = (if dead (ID e) then m else m(ID e \<mapsto> rd e), dead)"
| "spec_op rd (Delete i pk) (m, dead) = (m, \<lambda>j. dead j \<or> j = i \<and> (\<exists>e. m i = Some e \<and> PubKey e = pk))"
| "spec_op rd (Vanish pk) (m, dead) = (m, \<lambda>j. dead j \<or> (\<exists>e. m j = Some e \<and> PubKey e = pk))"

text \<open>A timed sequence: each operation runs at a time of its own, and \<open>S now\<close> is the store at that time.\<close>

definition run_ops :: "(int \<Rightarrow> 's store_if) \<Rightarrow> (int \<times> store_op) list \<Rightarrow> 's \<Rightarrow> 's" where
  "run_ops S ops s = fold (\<lambda>(now, a). apply_op (S now) a) ops s"

context healthy_storage begin

lemma op_refines:
  assumes "inv s" "regular_op a"
  shows "inv (apply_op S a s) \<and>
    (stored (apply_op S a s), tomb (apply_op S a s)) = spec_op rd a (stored s, tomb s)"
proof (cases a)
  case (Save e)
  then show ?thesis
    using assms save_plain [of s e] save_tomb [of s e] inv_save [of s e] by (cases "tomb s (ID e)") (auto simp: regular_op_def)
next
  case (Delete i pk)
  have "tomb (fst (DeleteEvent S s i pk)) j \<longleftrightarrow> tomb s j \<or> j = i \<and> (\<exists>e. stored s i = Some e \<and> PubKey e = pk)" for j
    using assms(1) delete_new [of s i pk j] delete_mono [of s j i pk] delete_author [of s i _ pk] by blast
  then show ?thesis using Delete assms(1) by (simp add: inv_delete delete_stored fun_eq_iff)
next
  case (Vanish pk)
  then show ?thesis
    using assms(1) delete_all_exact [of s pk] by (simp add: inv_delete_all delete_all_stored fun_eq_iff)
qed

lemma reads_back: "inv s \<Longrightarrow> (\<exists>err. GetEvent S s i = Inl err) \<and> (tomb s i \<or> stored s i = None) \<or>
    (\<exists>e. GetEvent S s i = Inr e \<and> stored s i = Some e \<and> \<not> tomb s i)"
  using get_tomb [of s i] get_stored [of s i] by (cases "tomb s i"; cases "stored s i") auto

end

text \<open>A store that is healthy at every time refines the specification.\<close>

lemma run_refines:
  assumes "\<And>now. healthy_storage (S now) inv0 stored tomb rd" "inv0 s" "list_all (\<lambda>(now, a). regular_op a) ops"
  shows "inv0 (run_ops S ops s) \<and>
    (stored (run_ops S ops s), tomb (run_ops S ops s)) = fold (\<lambda>(now, a). spec_op rd a) ops (stored s, tomb s)"
  using assms(2,3)
proof (induction ops arbitrary: s)
  case (Cons x ops)
  obtain now a where x: "x = (now, a)" by (cases x)
  have "regular_op a" using Cons.prems(2) x by simp
  from healthy_storage.op_refines [OF assms(1) Cons.prems(1) this, of now] Cons.IH [of "apply_op (S now) a s"] Cons.prems(2)
  show ?case by (simp add: x run_ops_def)
qed (simp add: run_ops_def)

text \<open>The specification commutes with reading back.\<close>

lemma spec_op_map:
  assumes "\<And>e. PubKey (rd e) = PubKey e"
  shows "spec_op rd a (\<lambda>i. map_option rd (m i), dead) =
    (\<lambda>i. map_option rd (fst (spec_op (\<lambda>e. e) a (m, dead)) i), snd (spec_op (\<lambda>e. e) a (m, dead)))"
  by (cases a) (auto simp: assms fun_eq_iff)

lemma spec_run_map:
  assumes "\<And>e. PubKey (rd e) = PubKey e"
  shows "fold (\<lambda>(now, a). spec_op rd a) ops (\<lambda>i. map_option rd (m i), dead) =
    (\<lambda>i. map_option rd (fst (fold (\<lambda>(now, a). spec_op (\<lambda>e. e) a) ops (m, dead)) i),
      snd (fold (\<lambda>(now, a). spec_op (\<lambda>e. e) a) ops (m, dead)))"
proof (induction ops arbitrary: m dead)
  case (Cons x ops)
  obtain m' dead' where "spec_op (\<lambda>e. e) (snd x) (m, dead) = (m', dead')" by force
  with spec_op_map [of rd "snd x" m dead] assms Cons.IH [of m' dead'] show ?case by (simp add: case_prod_beta)
qed simp

text \<open>Two stores with the same contents, up to the form in which the second gives events back, keep
  answering alike.\<close>

lemma stores_agree:
  assumes A: "\<And>now. healthy_storage (SA now) invA storedA tombA (\<lambda>e. e)" "invA s"
    and B: "\<And>now. healthy_storage (SB now) invB storedB tombB rd" "invB d"
    and same: "storedB d = (\<lambda>i. map_option rd (storedA s i))" "tombB d = tombA s"
    and rd: "\<And>e. PubKey (rd e) = PubKey e" and ops: "list_all (\<lambda>(now, a). regular_op a) ops"
  shows "(\<exists>err. GetEvent (SA now) (run_ops SA ops s) i = Inl err) \<and> (\<exists>err. GetEvent (SB now) (run_ops SB ops d) i = Inl err) \<or>
    (\<exists>e. GetEvent (SA now) (run_ops SA ops s) i = Inr e \<and> GetEvent (SB now) (run_ops SB ops d) i = Inr (rd e))"
proof -
  let ?s = "run_ops SA ops s" and ?d = "run_ops SB ops d"
  note a = run_refines [where S = SA, OF A ops] and b = run_refines [where S = SB, OF B ops]
  have a': "fold (\<lambda>(now, a). spec_op (\<lambda>e. e) a) ops (storedA s, tombA s) = (storedA ?s, tombA ?s)"
    by (rule conjunct2 [OF a, symmetric])
  have "(storedB ?d, tombB ?d) = (\<lambda>i. map_option rd (storedA ?s i), tombA ?s)"
    unfolding conjunct2 [OF b] same spec_run_map [OF rd] a' fst_conv snd_conv by (rule refl)
  then have v: "storedB ?d i = map_option rd (storedA ?s i)" "tombB ?d i = tombA ?s i" by simp_all
  show ?thesis
    using healthy_storage.reads_back [OF A(1) [of now] conjunct1 [OF a], where i = i]
      healthy_storage.reads_back [OF B(1) [of now] conjunct1 [OF b], where i = i] unfolding v by auto
qed

end
