(* ===== verification/Nip09.thy ===== *)
theory Nip09
  imports Storage
begin

text \<open>
  Event deletion, \<^verbatim>\<open>pkg/nips/nip09/nip09.go\<close>, over any store. For each \<open>e\<close> tag the handler
  first wipes the channel when the referenced event opens or describes one, then asks the store
  to delete the event for the requesting key. Errors are only logged.

  Proved over the storage contract: a deletion request tombstones only events its author wrote
  and only those it names, never un-deletes, and on a healthy store tombstones all of them.
\<close>

definition nip09_getChannelIDFromEvent :: "event \<Rightarrow> string" where
  "nip09_getChannelIDFromEvent e = first_tag_or_empty ''channel_id'' e"

definition wipe_channel :: "'s store_if \<Rightarrow> 's \<Rightarrow> string \<Rightarrow> 's" where
  "wipe_channel S s eventID =
    (case GetEvent S s eventID of
       Inr deletedEvt \<Rightarrow>
         if Kind deletedEvt = 40 \<or> Kind deletedEvt = 41 then
           (let channelID = nip09_getChannelIDFromEvent deletedEvt in
            if channelID \<noteq> [] then fst (DeleteChannelEvents S s channelID) else s)
         else s
     | Inl _ \<Rightarrow> s)"

fun HandleDeletion_loop :: "'s store_if \<Rightarrow> string \<Rightarrow> string list list \<Rightarrow> 's \<Rightarrow> 's" where
  "HandleDeletion_loop S pk [] s = s"
| "HandleDeletion_loop S pk (t # ts) s =
     (if 2 \<le> length t \<and> t ! 0 = ''e''
      then HandleDeletion_loop S pk ts (fst (DeleteEvent S (wipe_channel S s (t ! 1)) (t ! 1) pk))
      else HandleDeletion_loop S pk ts s)"

definition HandleDeletion :: "'s store_if \<Rightarrow> 's \<Rightarrow> event \<Rightarrow> 's \<times> error option" where
  "HandleDeletion S s evt =
     (if Kind evt \<noteq> 5 then (s, None) else (HandleDeletion_loop S (PubKey evt) (tags evt) s, None))"

definition e_targets :: "string list list \<Rightarrow> string set" where
  "e_targets ts = {t ! 1 | t. t \<in> set ts \<and> 2 \<le> length t \<and> t ! 0 = ''e''}"

lemma e_targets_Nil [simp]: "e_targets [] = {}"
  by (simp add: e_targets_def)

lemma e_targets_Cons [simp]:
  "e_targets (t # ts) =
    (if 2 \<le> length t \<and> t ! 0 = ''e'' then insert (t ! 1) (e_targets ts) else e_targets ts)"
  by (auto simp: e_targets_def)

context storage begin

lemma wipe_channel_frame:
  assumes "inv s"
  shows "inv (wipe_channel S s i)" "stored (wipe_channel S s i) = stored s"
    "tomb (wipe_channel S s i) = tomb s"
  using assms
  by (auto simp: wipe_channel_def Let_def inv_channel channel_stored channel_tomb split: sum.split)

lemma HandleDeletion_loop_frame:
  assumes "inv s"
  shows "inv (HandleDeletion_loop S pk ts s) \<and> stored (HandleDeletion_loop S pk ts s) = stored s"
  using assms
  by (induction ts arbitrary: s) (simp_all add: wipe_channel_frame inv_delete delete_stored)

lemma HandleDeletion_loop_mono:
  assumes "inv s" "tomb s j"
  shows "tomb (HandleDeletion_loop S pk ts s) j"
  using assms
  by (induction ts arbitrary: s) (simp_all add: wipe_channel_frame inv_delete delete_mono)

lemma HandleDeletion_loop_new:
  assumes "inv s" "tomb (HandleDeletion_loop S pk ts s) j"
  shows "tomb s j \<or> j \<in> e_targets ts \<and> (\<exists>e. stored s j = Some e \<and> PubKey e = pk)"
  using assms
proof (induction ts arbitrary: s)
  case (Cons t ts)
  show ?case
  proof (cases "2 \<le> length t \<and> t ! 0 = ''e''")
    case True
    let ?w = "wipe_channel S s (t ! 1)"
    let ?d = "fst (DeleteEvent S ?w (t ! 1) pk)"
    note w = wipe_channel_frame [OF Cons.prems(1), of "t ! 1"]
    have "tomb ?d j \<or> j \<in> e_targets ts \<and> (\<exists>e. stored ?d j = Some e \<and> PubKey e = pk)"
      by (rule Cons.IH) (use Cons.prems True w inv_delete in auto)
    moreover have "tomb ?d j \<Longrightarrow> tomb s j \<or> j = t ! 1 \<and> (\<exists>e. stored s (t ! 1) = Some e \<and> PubKey e = pk)"
      using delete_new [OF w(1)] w by simp
    moreover have "stored ?d = stored s"
      using delete_stored [OF w(1)] w by simp
    ultimately show ?thesis using True by auto
  next
    case False
    then show ?thesis using Cons.IH [OF Cons.prems(1)] Cons.prems(2) by auto
  qed
qed simp

end

context healthy_storage begin

lemma HandleDeletion_loop_all:
  assumes "inv s" "j \<in> e_targets ts" "stored s j = Some e" "PubKey e = pk"
  shows "tomb (HandleDeletion_loop S pk ts s) j"
  using assms
proof (induction ts arbitrary: s)
  case (Cons t ts)
  let ?w = "wipe_channel S s (t ! 1)"
  let ?d = "fst (DeleteEvent S ?w (t ! 1) pk)"
  note w = wipe_channel_frame [OF Cons.prems(1), of "t ! 1"]
  have d: "inv ?d" "stored ?d = stored s"
    using inv_delete [OF w(1)] delete_stored [OF w(1)] w by simp_all
  show ?case
  proof (cases "2 \<le> length t \<and> t ! 0 = ''e''")
    case True
    show ?thesis
    proof (cases "j = t ! 1")
      case True': True
      then have "tomb ?d j"
        using delete_author [OF w(1)] w Cons.prems by simp
      then show ?thesis
        using True HandleDeletion_loop_mono [OF d(1)] by simp
    next
      case False
      then show ?thesis
        using True Cons.IH [OF d(1)] Cons.prems d(2) by simp
    qed
  next
    case False
    then show ?thesis using Cons by auto
  qed
qed simp

end

end
