(* ===== verification/Nip62.thy ===== *)
theory Nip62
  imports Storage
begin

text \<open>
  Requests to vanish, \<^verbatim>\<open>pkg/nips/nip62/nip62.go\<close>, over any store: validation of the relay tag,
  and deletion of every event of the requesting key when the request addresses this relay.
\<close>

definition IsRequestToVanishEvent :: "event \<Rightarrow> bool" where
  "IsRequestToVanishEvent e = (Kind e = 62)"

definition ValidateRequestToVanish :: "event \<Rightarrow> error option" where
  "ValidateRequestToVanish e =
    (if Kind e \<noteq> 62 then None
     else (case first_tag ''relay'' e of
       None \<Rightarrow> Errorf ''Request to Vanish (kind 62) must include at least one relay tag''
     | Some v \<Rightarrow> if TrimSpace v = [] then Errorf ''relay tag value cannot be empty'' else None))"

text \<open>A relay tag addresses this relay when it names all relays or this relay's URL.\<close>

definition addresses :: "unicode \<Rightarrow> string \<Rightarrow> string list \<Rightarrow> bool" where
  "addresses U relayURL t \<longleftrightarrow> 2 \<le> length t \<and> t ! 0 = ''relay'' \<and>
     (TrimSpace (t ! 1) = ''ALL_RELAYS'' \<or> EqualFold U (TrimSpace (t ! 1)) relayURL)"

definition isForThisRelay :: "unicode \<Rightarrow> string \<Rightarrow> event \<Rightarrow> bool" where
  "isForThisRelay U relayURL e = list_ex (addresses U relayURL) (tags e)"

definition HandleRequestToVanish ::
  "unicode \<Rightarrow> 's store_if \<Rightarrow> 's \<Rightarrow> event \<Rightarrow> string \<Rightarrow> 's \<times> error option" where
  "HandleRequestToVanish U S s evt relayURL =
    (if Kind evt \<noteq> 62 then (s, None)
     else (case ValidateRequestToVanish evt of
       Some err \<Rightarrow> (s, Some (wrap_err ''invalid Request to Vanish event: '' err))
     | None \<Rightarrow>
         if \<not> isForThisRelay U relayURL evt then (s, None)
         else (case DeleteAllEventsByPubKey S s (PubKey evt) of
           (s', Some err) \<Rightarrow>
             (s', Some (wrap_err (''failed to delete events for pubkey '' @ PubKey evt @ '': '') err))
         | (s', None) \<Rightarrow> (s', None))))"

definition IsGlobalRequest :: "event \<Rightarrow> bool" where
  "IsGlobalRequest e = (IsRequestToVanishEvent e \<and>
     list_ex (\<lambda>t. 2 \<le> length t \<and> t ! 0 = ''relay'' \<and> t ! 1 = ''ALL_RELAYS'') (tags e))"

definition GetRelayTags :: "event \<Rightarrow> string list" where
  "GetRelayTags e =
    (if \<not> IsRequestToVanishEvent e then []
     else filter (\<lambda>u. u \<noteq> []) (map TrimSpace (GetTagValues e ''relay'')))"

context storage begin

lemma HandleRequestToVanish_inv:
  "inv s \<Longrightarrow> inv (fst (HandleRequestToVanish U S s evt url))"
  using inv_delete_all [of s "PubKey evt"]
  by (auto simp: HandleRequestToVanish_def split: option.splits prod.splits)

lemma HandleRequestToVanish_stored:
  "inv s \<Longrightarrow> stored (fst (HandleRequestToVanish U S s evt url)) = stored s"
  using delete_all_stored [of s "PubKey evt"]
  by (auto simp: HandleRequestToVanish_def split: option.splits prod.splits)

lemma HandleRequestToVanish_mono:
  "inv s \<Longrightarrow> tomb s j \<Longrightarrow> tomb (fst (HandleRequestToVanish U S s evt url)) j"
  using delete_all_mono [of s j "PubKey evt"]
  by (auto simp: HandleRequestToVanish_def split: option.splits prod.splits)

lemma HandleRequestToVanish_new:
  "inv s \<Longrightarrow> tomb (fst (HandleRequestToVanish U S s evt url)) j \<Longrightarrow>
    tomb s j \<or> Kind evt = 62 \<and> isForThisRelay U url evt \<and> (\<exists>e. stored s j = Some e \<and> PubKey e = PubKey evt)"
  using delete_all_new [of s "PubKey evt" j]
  by (auto simp: HandleRequestToVanish_def split: option.splits prod.splits if_splits)

end

context healthy_storage begin

lemma HandleRequestToVanish_exact:
  assumes "inv s" "Kind evt = 62" "ValidateRequestToVanish evt = None"
  shows "tomb (fst (HandleRequestToVanish U S s evt url)) j \<longleftrightarrow>
    tomb s j \<or> isForThisRelay U url evt \<and> (\<exists>e. stored s j = Some e \<and> PubKey e = PubKey evt)"
  using assms delete_all_exact [OF assms(1), of "PubKey evt" j]
  by (auto simp: HandleRequestToVanish_def split: prod.splits option.splits)

end

end
