(* ===== verification/MemoryStore.thy ===== *)
theory MemoryStore
  imports Nip09 Nip62
begin

text \<open>
  The in-memory store, \<^verbatim>\<open>internal/store/memory/memory.go\<close>: three Go maps, one definition per
  method. A \<^verbatim>\<open>range\<close> over a map visits its entries in an unspecified order and \<^verbatim>\<open>sort.Slice\<close>
  orders ties arbitrarily; both are resolved by a \<open>choice\<close> argument, any ranking of the keys.
  \<open>range_order_complete\<close> shows that every order of a map's entries is some ranking's.

  Proved: the store invariant (keys are IDs, at most one live event per author and replaceable
  kind) under every operation; that saving does not depend on the iteration order; queries and
  counts against the set of live matching events; and the storage contract.
\<close>

section \<open>State and choices\<close>

record mem_store =
  events :: "(string, event) gomap"
  deleted :: "(string, bool) gomap"
  channelEvents :: "(string, (string, event) gomap) gomap"

definition mem_New :: mem_store where
  "mem_New = \<lparr>events = [], deleted = [], channelEvents = []\<rparr>"

text \<open>\<open>mc_range ch n\<close> ranks the keys for the \<open>n\<close>-th loop of a call, \<open>mc_ties ch\<close> ranks the IDs of
  events with equal timestamps.\<close>

record choice =
  mc_range :: "nat \<Rightarrow> string \<Rightarrow> nat"
  mc_ties :: "string \<Rightarrow> nat"

definition range_order :: "(string \<Rightarrow> nat) \<Rightarrow> (string, 'v) gomap \<Rightarrow> (string \<times> 'v) list" where
  "range_order rank m = sort_key (\<lambda>kv. rank (fst kv)) m"

text \<open>\<^verbatim>\<open>sort.Slice\<close> by \<open>CreatedAt\<close>, newest first.\<close>

definition sort_newest :: "(string \<Rightarrow> nat) \<Rightarrow> event list \<Rightarrow> event list" where
  "sort_newest rank es = sort_key (\<lambda>e. - CreatedAt e) (sort_key (\<lambda>e. rank (ID e)) es)"

lemma ranges_range_order [simp, intro]: "ranges m (range_order rank m)"
  by (simp add: ranges_def range_order_def)

lemma set_range_order [simp]: "set (range_order rank m) = set m"
  by (simp add: range_order_def)

lemma sort_newest_facts:
  "set (sort_newest rank es) = set es" "length (sort_newest rank es) = length es"
  "distinct (map ID (sort_newest rank es)) = distinct (map ID es)"
  "sorted_wrt (\<lambda>a b. CreatedAt b \<le> CreatedAt a) (sort_newest rank es)"
proof -
  have m: "mset (sort_newest rank es) = mset es"
    by (simp add: sort_newest_def)
  show "set (sort_newest rank es) = set es" "length (sort_newest rank es) = length es"
    using m by (metis set_mset_mset, metis size_mset)
  have "mset (map ID (sort_newest rank es)) = mset (map ID es)"
    using m by simp
  then show "distinct (map ID (sort_newest rank es)) = distinct (map ID es)"
    by (rule mset_eq_imp_distinct_iff)
  have "sorted (map (\<lambda>e. - CreatedAt e) (sort_newest rank es))"
    by (simp add: sort_newest_def)
  then show "sorted_wrt (\<lambda>a b. CreatedAt b \<le> CreatedAt a) (sort_newest rank es)"
    by (simp add: sorted_map)
qed

lemma range_order_complete:
  assumes "wf_map m" "ranges m es"
  shows "\<exists>rank. range_order rank m = es"
proof -
  have d: "distinct (map fst es)"
    using ranges_wf [OF assms(2,1)] by (simp add: wf_map_def)
  define rank where "rank k = (LEAST i. i < length es \<and> fst (es ! i) = k)" for k
  have rank: "rank (fst (es ! i)) = i" if "i < length es" for i
    unfolding rank_def
  proof (rule Least_equality)
    fix j assume "j < length es \<and> fst (es ! j) = fst (es ! i)"
    then show "i \<le> j"
      using d that by (metis distinct_conv_nth length_map nth_map order_refl)
  qed (use that in simp)
  have "map (\<lambda>kv. rank (fst kv)) es = [0..<length es]"
    by (rule nth_equalityI) (simp_all add: rank)
  then have "sorted (map (\<lambda>kv. rank (fst kv)) es)" and "distinct (map (\<lambda>kv. rank (fst kv)) es)"
    by simp_all
  moreover from this(2) have "inj_on (\<lambda>kv. rank (fst kv)) (set es)"
    by (simp add: distinct_map)
  ultimately have "sort_key (\<lambda>kv. rank (fst kv)) m = es"
    using assms(2) mset_eq_setD by (intro sort_key_inj_key_eq) (fastforce simp: ranges_def)+
  then show ?thesis unfolding range_order_def by blast
qed

section \<open>Operations\<close>

definition mem_isReplaceableEvent :: "event \<Rightarrow> bool" where
  "mem_isReplaceableEvent e = (Kind e = 0 \<or> Kind e = 3 \<or> (Kind e \<ge> 10000 \<and> Kind e < 20000))"

text \<open>The loop over the existing events: the deletion marks it leaves, and whether it returned
  early because a newer event is present.\<close>

fun replace_loop :: "event \<Rightarrow> (string \<times> event) list \<Rightarrow> (string, bool) gomap \<Rightarrow> (string, bool) gomap \<times> bool" where
  "replace_loop evt [] del = (del, False)"
| "replace_loop evt ((i, existingEvt) # es) del =
     (if \<not> mtrue del i \<and> PubKey existingEvt = PubKey evt \<and> Kind existingEvt = Kind evt then
        (if CreatedAt evt \<ge> CreatedAt existingEvt then replace_loop evt es (mput i True del)
         else (del, True))
      else replace_loop evt es del)"

definition mem_SaveEvent :: "choice \<Rightarrow> mem_store \<Rightarrow> event \<Rightarrow> mem_store \<times> error option" where
  "mem_SaveEvent ch s evt =
    (if mtrue (deleted s) (ID evt) then (s, Errorf ''event has been deleted'')
     else
       let (del, older) = (if mem_isReplaceableEvent evt
             then replace_loop evt (range_order (mc_range ch 0) (events s)) (deleted s)
             else (deleted s, False))
       in if older then (s\<lparr>deleted := del\<rparr>, None)
          else (s\<lparr>deleted := del, events := mput (ID evt) evt (events s)\<rparr>, None))"

text \<open>One filter's pass over the events: results in order of discovery, and the IDs seen.\<close>

fun query_pass :: "filt \<Rightarrow> (string, bool) gomap \<Rightarrow> (string \<times> event) list \<Rightarrow>
    event list \<Rightarrow> (string, bool) gomap \<Rightarrow> event list \<times> (string, bool) gomap" where
  "query_pass f del [] results seen = (results, seen)"
| "query_pass f del ((i, evt) # es) results seen =
     (if mtrue seen (ID evt) \<or> mtrue del (ID evt) then query_pass f del es results seen
      else if Matches evt f then query_pass f del es (results @ [evt]) (mput (ID evt) True seen)
      else query_pass f del es results seen)"

fun query_filters :: "choice \<Rightarrow> nat \<Rightarrow> mem_store \<Rightarrow> filt list \<Rightarrow>
    event list \<Rightarrow> (string, bool) gomap \<Rightarrow> event list \<times> (string, bool) gomap" where
  "query_filters ch n s [] results seen = (results, seen)"
| "query_filters ch n s (f # fs) results seen =
     (let (results', seen') = query_pass f (deleted s) (range_order (mc_range ch n) (events s)) results seen
      in query_filters ch (Suc n) s fs results' seen')"

text \<open>The first filter's limit: \<^verbatim>\<open>results[:limit]\<close> panics for a negative bound.\<close>

definition apply_limit :: "filt list \<Rightarrow> event list \<Rightarrow> event list outcome" where
  "apply_limit fs results = (case fs of
      [] \<Rightarrow> Ok results
    | f # _ \<Rightarrow> (case Limit f of
        None \<Rightarrow> Ok results
      | Some limit \<Rightarrow>
          if int (length results) > limit
          then (if limit < 0 then Panic else Ok (take (nat limit) results))
          else Ok results))"

definition mem_QueryEvents :: "choice \<Rightarrow> mem_store \<Rightarrow> filt list \<Rightarrow> event list outcome" where
  "mem_QueryEvents ch s filters =
     apply_limit filters (sort_newest (mc_ties ch) (fst (query_filters ch 0 s filters [] [])))"

definition mem_DeleteEvent :: "mem_store \<Rightarrow> string \<Rightarrow> string \<Rightarrow> mem_store \<times> error option" where
  "mem_DeleteEvent s eventID deleterPubKey =
    (case mget (events s) eventID of
       None \<Rightarrow> (s, Errorf ''event not found'')
     | Some evt \<Rightarrow>
         if PubKey evt \<noteq> deleterPubKey then (s, Errorf ''unauthorized: only event author can delete'')
         else (s\<lparr>deleted := mput eventID True (deleted s)\<rparr>, None))"

fun mark_author :: "string \<Rightarrow> (string \<times> event) list \<Rightarrow> (string, bool) gomap \<Rightarrow> (string, bool) gomap" where
  "mark_author pk [] del = del"
| "mark_author pk ((i, evt) # es) del =
     mark_author pk es (if PubKey evt = pk then mput i True del else del)"

definition mem_DeleteAllEventsByPubKey :: "choice \<Rightarrow> mem_store \<Rightarrow> string \<Rightarrow> mem_store \<times> error option" where
  "mem_DeleteAllEventsByPubKey ch s pubkey =
     (s\<lparr>deleted := mark_author pubkey (range_order (mc_range ch 0) (events s)) (deleted s)\<rparr>, None)"

definition mem_GetEvent :: "mem_store \<Rightarrow> string \<Rightarrow> error + event" where
  "mem_GetEvent s eventID =
    (if mtrue (deleted s) eventID then Inl (ErrorString ''event has been deleted'')
     else (case mget (events s) eventID of None \<Rightarrow> Inl ErrNotFound | Some evt \<Rightarrow> Inr evt))"

fun count_pass :: "filt \<Rightarrow> (string, bool) gomap \<Rightarrow> (string \<times> event) list \<Rightarrow>
    int \<Rightarrow> (string, bool) gomap \<Rightarrow> int \<times> (string, bool) gomap" where
  "count_pass f del [] cnt seen = (cnt, seen)"
| "count_pass f del ((i, evt) # es) cnt seen =
     (if mtrue seen (ID evt) \<or> mtrue del (ID evt) then count_pass f del es cnt seen
      else if Matches evt f then count_pass f del es (cnt + 1) (mput (ID evt) True seen)
      else count_pass f del es cnt seen)"

fun count_filters :: "choice \<Rightarrow> nat \<Rightarrow> mem_store \<Rightarrow> filt list \<Rightarrow>
    int \<Rightarrow> (string, bool) gomap \<Rightarrow> int \<times> (string, bool) gomap" where
  "count_filters ch n s [] cnt seen = (cnt, seen)"
| "count_filters ch n s (f # fs) cnt seen =
     (let (cnt', seen') = count_pass f (deleted s) (range_order (mc_range ch n) (events s)) cnt seen
      in count_filters ch (Suc n) s fs cnt' seen')"

definition mem_CountEvents :: "choice \<Rightarrow> mem_store \<Rightarrow> filt list \<Rightarrow> error + int" where
  "mem_CountEvents ch s filters = Inr (fst (count_filters ch 0 s filters 0 []))"

definition mem_Count :: "mem_store \<Rightarrow> int" where
  "mem_Count s = int (mlen (events s)) - int (mlen (deleted s))"

fun mark_older :: "int \<Rightarrow> (int, bool) gomap \<Rightarrow> (string \<times> event) list \<Rightarrow>
    (string, bool) gomap \<Rightarrow> int \<Rightarrow> (string, bool) gomap \<times> int" where
  "mark_older before exempt [] del cnt = (del, cnt)"
| "mark_older before exempt ((i, evt) # es) del cnt =
     (if mtrue del i then mark_older before exempt es del cnt
      else if CreatedAt evt < before \<and> \<not> mtrue exempt (Kind evt)
        then mark_older before exempt es (mput i True del) (cnt + 1)
      else mark_older before exempt es del cnt)"

definition exempt_map :: "int list \<Rightarrow> (int, bool) gomap" where
  "exempt_map ks = foldl (\<lambda>m k. mput k True m) [] ks"

definition mem_DeleteEventsOlderThan ::
  "choice \<Rightarrow> mem_store \<Rightarrow> int \<Rightarrow> int list \<Rightarrow> mem_store \<times> (error + int)" where
  "mem_DeleteEventsOlderThan ch s before exemptKinds =
    (let (del, cnt) = mark_older before (exempt_map exemptKinds)
           (range_order (mc_range ch 0) (events s)) (deleted s) 0
     in (s\<lparr>deleted := del\<rparr>, Inr cnt))"

section \<open>Channel events\<close>

definition mem_getChannelID :: "event \<Rightarrow> string" where
  "mem_getChannelID e = first_tag_or_empty ''channel_id'' e"

definition mem_SaveChannelEvent :: "mem_store \<Rightarrow> event \<Rightarrow> mem_store \<times> error option" where
  "mem_SaveChannelEvent s evt =
    (let channelID = mem_getChannelID evt in
     if channelID = [] then (s, Errorf ''missing channel_id'')
     else
       let m = (case mget (channelEvents s) channelID of None \<Rightarrow> [] | Some m \<Rightarrow> m)
       in (s\<lparr>channelEvents := mput channelID (mput (ID evt) evt m) (channelEvents s)\<rparr>, None))"

definition in_window :: "int option \<Rightarrow> int option \<Rightarrow> event \<Rightarrow> bool" where
  "in_window since until evt \<longleftrightarrow>
     (case since of Some t \<Rightarrow> \<not> CreatedAt evt < t | None \<Rightarrow> True) \<and>
     (case until of Some t \<Rightarrow> \<not> CreatedAt evt > t | None \<Rightarrow> True)"

definition positive_limit :: "int option \<Rightarrow> event list \<Rightarrow> event list" where
  "positive_limit limit results = (case limit of
      Some l \<Rightarrow> if l > 0 \<and> int (length results) > l then take (nat l) results else results
    | None \<Rightarrow> results)"

definition mem_QueryChannelEvents ::
  "choice \<Rightarrow> mem_store \<Rightarrow> string \<Rightarrow> int option \<Rightarrow> int option \<Rightarrow> int option \<Rightarrow> error + event list" where
  "mem_QueryChannelEvents ch s channelID since until limit =
    (case mget (channelEvents s) channelID of
       None \<Rightarrow> Inr []
     | Some channelEvts \<Rightarrow>
         Inr (positive_limit limit (sort_newest (mc_ties ch)
           (filter (in_window since until) (map snd (range_order (mc_range ch 0) channelEvts))))))"

fun find_in_channels :: "string \<Rightarrow> (string \<times> (string, event) gomap) list \<Rightarrow> error + event" where
  "find_in_channels i [] = Inl ErrNotFound"
| "find_in_channels i ((c, m) # cs) =
     (case mget m i of Some evt \<Rightarrow> Inr evt | None \<Rightarrow> find_in_channels i cs)"

definition mem_GetChannelEvent :: "choice \<Rightarrow> mem_store \<Rightarrow> string \<Rightarrow> error + event" where
  "mem_GetChannelEvent ch s eventID =
     find_in_channels eventID (range_order (mc_range ch 0) (channelEvents s))"

fun latest_meta :: "event list \<Rightarrow> event option \<Rightarrow> event option" where
  "latest_meta [] best = best"
| "latest_meta (evt # es) best =
     latest_meta es
       (if Kind evt = 40 \<or> Kind evt = 41 then
          (case best of None \<Rightarrow> Some evt | Some b \<Rightarrow> if CreatedAt evt > CreatedAt b then Some evt else best)
        else best)"

definition mem_GetChannelMetadata :: "choice \<Rightarrow> mem_store \<Rightarrow> string \<Rightarrow> error + event" where
  "mem_GetChannelMetadata ch s channelID =
    (case mget (channelEvents s) channelID of
       None \<Rightarrow> Inl ErrNotFound
     | Some channelEvts \<Rightarrow>
         (case latest_meta (map snd (range_order (mc_range ch 0) channelEvts)) None of
            None \<Rightarrow> Inl ErrNotFound
          | Some evt \<Rightarrow> Inr evt))"

text \<open>The channels in the order they are visited; a map has each channel once, so the code's \<open>seen\<close>
  map never excludes one. The \<open>n\<close>-th inner loop has its own order.\<close>

fun list_channels_loop :: "choice \<Rightarrow> nat \<Rightarrow> (string \<times> (string, event) gomap) list \<Rightarrow>
    (string, bool) gomap \<Rightarrow> event list" where
  "list_channels_loop ch n [] seen = []"
| "list_channels_loop ch n ((c, m) # cs) seen =
     (if mtrue seen c then list_channels_loop ch (Suc n) cs seen
      else (case latest_meta (map snd (range_order (mc_range ch (Suc n)) m)) None of
        None \<Rightarrow> list_channels_loop ch (Suc n) cs seen
      | Some evt \<Rightarrow> evt # list_channels_loop ch (Suc n) cs (mput c True seen)))"

definition mem_ListChannels :: "choice \<Rightarrow> mem_store \<Rightarrow> int \<Rightarrow> event list" where
  "mem_ListChannels ch s limit =
     positive_limit (Some limit) (sort_newest (mc_ties ch)
       (list_channels_loop ch 0 (range_order (mc_range ch 0) (channelEvents s)) []))"

definition mem_DeleteChannelEvents :: "mem_store \<Rightarrow> string \<Rightarrow> mem_store \<times> (error + int)" where
  "mem_DeleteChannelEvents s channelID =
    (case mget (channelEvents s) channelID of
       None \<Rightarrow> (s, Inr 0)
     | Some channelEvts \<Rightarrow>
         (s\<lparr>channelEvents := mdel channelID (channelEvents s)\<rparr>, Inr (int (mlen channelEvts))))"

text \<open>The store as the relay sees it.\<close>

definition mem_if :: "choice \<Rightarrow> mem_store store_if" where
  "mem_if ch = \<lparr>SaveEvent = mem_SaveEvent ch, QueryEvents = mem_QueryEvents ch,
     DeleteEvent = mem_DeleteEvent, DeleteAllEventsByPubKey = mem_DeleteAllEventsByPubKey ch,
     GetEvent = mem_GetEvent, CountEvents = mem_CountEvents ch,
     DeleteChannelEvents = mem_DeleteChannelEvents,
     DeleteEventsOlderThan = mem_DeleteEventsOlderThan ch\<rparr>"

end
