(* ===== verification/MemoryProps.thy ===== *)
theory MemoryProps
  imports MemoryStore
begin

text \<open>
  Correctness of the in-memory store: its invariant under every operation, queries and counts
  against the set of live matching events, replacement, and the storage contract with what the
  deletion and vanish handlers inherit from it.
\<close>

section \<open>The invariant\<close>

definition mem_stored :: "mem_store \<Rightarrow> string \<Rightarrow> event option" where
  "mem_stored s i = mget (events s) i"

definition mem_tomb :: "mem_store \<Rightarrow> string \<Rightarrow> bool" where
  "mem_tomb s i = mtrue (deleted s) i"

text \<open>The event an ID reads as: stored and not deleted.\<close>

definition mem_live :: "mem_store \<Rightarrow> string \<Rightarrow> event option" where
  "mem_live s i = (if mem_tomb s i then None else mem_stored s i)"

definition keys_are_IDs :: "(string, event) gomap \<Rightarrow> bool" where
  "keys_are_IDs m \<longleftrightarrow> wf_map m \<and> (\<forall>i e. mget m i = Some e \<longrightarrow> ID e = i)"

definition one_per_author :: "mem_store \<Rightarrow> bool" where
  "one_per_author s \<longleftrightarrow> (\<forall>i j a b. mem_live s i = Some a \<longrightarrow> mem_live s j = Some b \<longrightarrow>
     replaceable_kind (Kind a) \<longrightarrow> PubKey a = PubKey b \<longrightarrow> Kind a = Kind b \<longrightarrow> i = j)"

definition mem_inv :: "mem_store \<Rightarrow> bool" where
  "mem_inv s \<longleftrightarrow> keys_are_IDs (events s) \<and> one_per_author s
     \<and> wf_map (channelEvents s) \<and> (\<forall>c m. mget (channelEvents s) c = Some m \<longrightarrow> keys_are_IDs m)"

lemmas mem_view_defs = mem_live_def mem_stored_def mem_tomb_def

lemma mem_inv_New: "mem_inv mem_New"
  by (simp add: mem_inv_def mem_New_def keys_are_IDs_def one_per_author_def mem_view_defs)

lemma keys_are_IDs_mput: "keys_are_IDs m \<Longrightarrow> keys_are_IDs (mput (ID e) e m)"
  by (simp add: keys_are_IDs_def mget_mput)

lemma isReplaceable_kind: "mem_isReplaceableEvent e = replaceable_kind (Kind e)"
  by (simp add: mem_isReplaceableEvent_def replaceable_kind_def)

text \<open>Marking more IDs deleted, with the events untouched, keeps the invariant.\<close>

lemma mem_inv_mark:
  assumes "mem_inv s" "\<And>i. mtrue (deleted s) i \<Longrightarrow> mtrue del i"
  shows "mem_inv (s\<lparr>deleted := del\<rparr>)"
proof -
  have "mem_live (s\<lparr>deleted := del\<rparr>) i = Some a \<Longrightarrow> mem_live s i = Some a" for i a
    using assms(2) by (auto simp: mem_view_defs split: if_splits)
  then have "one_per_author (s\<lparr>deleted := del\<rparr>)"
    using assms(1) by (simp add: mem_inv_def one_per_author_def) blast
  then show ?thesis
    using assms(1) by (simp add: mem_inv_def)
qed

section \<open>Saving\<close>

text \<open>What the replacement loop marks: only live events of the same author and kind that are not
  newer; when it does not return early, all of them.\<close>

lemma replace_loop_Cons:
  "replace_loop evt (x # es) del =
    (if \<not> mtrue del (fst x) \<and> PubKey (snd x) = PubKey evt \<and> Kind (snd x) = Kind evt then
       (if CreatedAt (snd x) \<le> CreatedAt evt then replace_loop evt es (mput (fst x) True del) else (del, True))
     else replace_loop evt es del)"
  by (cases x) simp

lemma replace_loop_skip:
  "\<not> (\<not> mtrue del (fst x) \<and> PubKey (snd x) = PubKey evt \<and> Kind (snd x) = Kind evt) \<Longrightarrow>
    replace_loop evt (x # es) del = replace_loop evt es del"
  unfolding replace_loop_Cons by (rule if_not_P)

lemma replace_loop_mono: "mtrue del i \<Longrightarrow> mtrue (fst (replace_loop evt es del)) i"
  by (induction es arbitrary: del) (simp_all add: replace_loop_Cons mtrue_mput)

lemma replace_loop_new:
  "mtrue (fst (replace_loop evt es del)) i \<Longrightarrow> mtrue del i \<or>
    (\<exists>old. (i, old) \<in> set es \<and> PubKey old = PubKey evt \<and> Kind old = Kind evt \<and> CreatedAt old \<le> CreatedAt evt)"
proof (induction es arbitrary: del)
  case (Cons x es)
  show ?case
  proof (cases "\<not> mtrue del (fst x) \<and> PubKey (snd x) = PubKey evt \<and> Kind (snd x) = Kind evt
      \<and> CreatedAt (snd x) \<le> CreatedAt evt")
    case True
    then have "mtrue (fst (replace_loop evt es (mput (fst x) True del))) i"
      using Cons.prems by (simp add: replace_loop_Cons)
    from Cons.IH [OF this] show ?thesis
      using True by (cases x) (auto simp: mtrue_mput split: if_splits)
  next
    case False
    then have "mtrue (fst (replace_loop evt es del)) i \<or> mtrue del i"
      using Cons.prems by (simp only: replace_loop_Cons) (simp split: if_splits)
    then show ?thesis
      using Cons.IH by fastforce
  qed
qed simp

text \<open>With at most one live candidate, the loop's result is a function of that candidate alone.\<close>

lemma replace_loop_none:
  assumes "\<And>i old. (i, old) \<in> set es \<Longrightarrow> PubKey old = PubKey evt \<Longrightarrow> Kind old = Kind evt \<Longrightarrow> mtrue del i"
  shows "replace_loop evt es del = (del, False)"
  using assms
proof (induction es)
  case (Cons x es)
  then have "\<not> (\<not> mtrue del (fst x) \<and> PubKey (snd x) = PubKey evt \<and> Kind (snd x) = Kind evt)"
    by (metis list.set_intros(1) prod.collapse)
  from replace_loop_skip [OF this] have "replace_loop evt (x # es) del = replace_loop evt es del" .
  moreover have "replace_loop evt es del = (del, False)"
    by (rule Cons.IH) (meson Cons.prems list.set_intros(2))
  ultimately show ?case by simp
qed simp

lemma replace_loop_one:
  assumes "(j, cand) \<in> set es" "\<not> mtrue del j" "PubKey cand = PubKey evt" "Kind cand = Kind evt"
    and "\<And>i old. (i, old) \<in> set es \<Longrightarrow> \<not> mtrue del i \<Longrightarrow> PubKey old = PubKey evt \<Longrightarrow>
      Kind old = Kind evt \<Longrightarrow> i = j \<and> old = cand"
  shows "replace_loop evt es del =
    (if CreatedAt evt \<ge> CreatedAt cand then (mput j True del, False) else (del, True))"
  using assms
proof (induction es)
  case (Cons x es)
  have rest: "i = j \<and> old = cand" if "(i, old) \<in> set es" "\<not> mtrue del i" "PubKey old = PubKey evt"
    "Kind old = Kind evt" for i old
    using Cons.prems(5) that by (meson list.set_intros(2))
  show ?case
  proof (cases "\<not> mtrue del (fst x) \<and> PubKey (snd x) = PubKey evt \<and> Kind (snd x) = Kind evt")
    case True
    then have x: "fst x = j" "snd x = cand"
      using Cons.prems(5) by (metis list.set_intros(1) prod.collapse)+
    have "replace_loop evt es (mput j True del) = (mput j True del, False)"
      by (rule replace_loop_none) (use rest in \<open>metis mtrue_mput\<close>)
    then show ?thesis using True x by (simp add: replace_loop_Cons)
  next
    case False
    then have "(j, cand) \<in> set es"
      using Cons.prems(1-4) by (metis fst_conv set_ConsD snd_conv)
    from Cons.IH [OF this Cons.prems(2-4)] rest
    show ?thesis unfolding replace_loop_skip [OF False] by blast
  qed
qed simp

text \<open>The live event of an author and a replaceable kind.\<close>

definition current :: "mem_store \<Rightarrow> string \<Rightarrow> int \<Rightarrow> event option" where
  "current s pk k = map_option snd
     (find (\<lambda>(i, e). \<not> mtrue (deleted s) i \<and> PubKey e = pk \<and> Kind e = k) (events s))"

lemma current_Some:
  assumes "mem_inv s" "current s pk k = Some a"
  shows "mem_live s (ID a) = Some a \<and> PubKey a = pk \<and> Kind a = k"
proof -
  obtain i where "(i, a) \<in> set (events s)" "\<not> mtrue (deleted s) i" "PubKey a = pk" "Kind a = k"
    using assms(2) by (auto simp: current_def dest!: find_Some_iff_in)
  then show ?thesis
    using assms(1) by (auto simp: mem_inv_def keys_are_IDs_def mem_view_defs mget_iff)
qed

lemma current_None:
  assumes "mem_inv s" "current s pk k = None" "mem_live s i = Some a" "PubKey a = pk"
  shows "Kind a \<noteq> k"
  using assms
  by (auto simp: current_def find_None_iff mem_view_defs dest!: mget_in split: if_splits)

lemma current_unique:
  assumes "mem_inv s" "replaceable_kind k" "mem_live s i = Some a" "PubKey a = pk" "Kind a = k"
  shows "current s pk k = Some a"
proof (cases "current s pk k")
  case None
  then show ?thesis using current_None assms by blast
next
  case (Some b)
  then have "mem_live s (ID b) = Some b" "PubKey b = pk" "Kind b = k"
    using current_Some assms(1) by blast+
  moreover from this assms have "i = ID b"
    by (auto simp: mem_inv_def one_per_author_def)
  ultimately show ?thesis using assms(3) Some by simp
qed

text \<open>Saving a replaceable event, whatever the iteration order.\<close>

lemma mem_SaveEvent_replaceable:
  assumes "mem_inv s" "replaceable_kind (Kind e)" "\<not> mem_tomb s (ID e)"
  shows "mem_SaveEvent ch s e = (case current s (PubKey e) (Kind e) of
      None \<Rightarrow> (s\<lparr>events := mput (ID e) e (events s)\<rparr>, None)
    | Some old \<Rightarrow>
        if CreatedAt e \<ge> CreatedAt old
        then (s\<lparr>deleted := mput (ID old) True (deleted s), events := mput (ID e) e (events s)\<rparr>, None)
        else (s, None))"
proof (cases "current s (PubKey e) (Kind e)")
  case None
  have w: "wf_map (events s)"
    using assms(1) by (simp add: mem_inv_def keys_are_IDs_def)
  have "replace_loop e (range_order (mc_range ch 0) (events s)) (deleted s) = (deleted s, False)"
  proof (rule replace_loop_none, rule ccontr)
    fix i old
    assume i: "(i, old) \<in> set (range_order (mc_range ch 0) (events s))" "PubKey old = PubKey e"
      "Kind old = Kind e" "\<not> mtrue (deleted s) i"
    then have "mem_live s i = Some old"
      using w by (simp add: mem_view_defs mget_iff)
    from current_None [OF assms(1) None this i(2)] i(3) show False by simp
  qed
  then show ?thesis
    using assms None by (simp add: mem_SaveEvent_def mem_tomb_def isReplaceable_kind)
next
  case (Some old)
  note old = current_Some [OF assms(1) Some]
  have w: "wf_map (events s)"
    using assms(1) by (simp add: mem_inv_def keys_are_IDs_def)
  have "replace_loop e (range_order (mc_range ch 0) (events s)) (deleted s) =
    (if CreatedAt e \<ge> CreatedAt old then (mput (ID old) True (deleted s), False) else (deleted s, True))"
  proof (rule replace_loop_one)
    show "(ID old, old) \<in> set (range_order (mc_range ch 0) (events s))"
      using old by (auto simp: mem_view_defs mget_in split: if_splits)
    show "\<not> mtrue (deleted s) (ID old)"
      using old by (auto simp: mem_view_defs split: if_splits)
    fix i a
    assume i: "(i, a) \<in> set (range_order (mc_range ch 0) (events s))" "\<not> mtrue (deleted s) i"
      "PubKey a = PubKey e" "Kind a = Kind e"
    then have "mem_live s i = Some a"
      using w by (simp add: mem_view_defs mget_iff)
    moreover from current_unique [OF assms(1,2) this i(3,4)] Some have "a = old" by simp
    ultimately show "i = ID old \<and> a = old"
      using assms(1) by (auto simp: mem_inv_def keys_are_IDs_def mem_view_defs split: if_splits)
  qed (use old in simp_all)
  then show ?thesis
    using assms Some by (auto simp: mem_SaveEvent_def mem_tomb_def isReplaceable_kind)
qed

lemma mem_SaveEvent_plain:
  assumes "\<not> replaceable_kind (Kind e)" "\<not> mem_tomb s (ID e)"
  shows "mem_SaveEvent ch s e = (s\<lparr>events := mput (ID e) e (events s)\<rparr>, None)"
  using assms by (simp add: mem_SaveEvent_def mem_tomb_def isReplaceable_kind)

lemma mem_SaveEvent_tomb:
  "mem_tomb s (ID e) \<Longrightarrow> mem_SaveEvent ch s e = (s, Errorf ''event has been deleted'')"
  by (simp add: mem_SaveEvent_def mem_tomb_def)

lemmas mem_SaveEvent_cases = mem_SaveEvent_tomb mem_SaveEvent_plain mem_SaveEvent_replaceable

section \<open>Queries and counts\<close>

text \<open>The live events that match some filter.\<close>

definition mem_matching :: "mem_store \<Rightarrow> filt list \<Rightarrow> event set" where
  "mem_matching s fs = {e. mem_live s (ID e) = Some e \<and> (\<exists>f \<in> set fs. Matches e f)}"

abbreviation hits :: "filt \<Rightarrow> (string, bool) gomap \<Rightarrow> (string, bool) gomap \<Rightarrow> event \<Rightarrow> bool" where
  "hits f del seen e \<equiv> \<not> mtrue seen (ID e) \<and> \<not> mtrue del (ID e) \<and> Matches e f"

lemma query_pass_Cons:
  "query_pass f del (x # es) R seen =
    (if hits f del seen (snd x) then query_pass f del es (R @ [snd x]) (mput (ID (snd x)) True seen)
     else query_pass f del es R seen)"
  by (cases x) simp

lemma query_pass_results:
  "distinct (map (ID \<circ> snd) es) \<Longrightarrow>
    fst (query_pass f del es R seen) = R @ filter (hits f del seen) (map snd es)"
proof (induction es arbitrary: R seen)
  case (Cons x es)
  show ?case
  proof (cases "hits f del seen (snd x)")
    case True
    have "filter (hits f del (mput (ID (snd x)) True seen)) (map snd es) =
        filter (hits f del seen) (map snd es)"
    proof (rule filter_cong [OF refl])
      fix y assume "y \<in> set (map snd es)"
      then have "ID y \<noteq> ID (snd x)" using Cons.prems by (metis comp_apply distinct.simps(2) image_eqI list.map(2) list.map_comp list.set_map)
      then show "hits f del (mput (ID (snd x)) True seen) y = hits f del seen y"
        by (simp add: mtrue_mput)
    qed
    then show ?thesis
      using Cons.IH [of "R @ [snd x]" "mput (ID (snd x)) True seen"] Cons.prems True
      by (simp add: query_pass_Cons)
  next
    case False
    have "query_pass f del (x # es) R seen = query_pass f del es R seen"
      unfolding query_pass_Cons using False by (rule if_not_P)
    then show ?thesis
      using Cons.IH [of R seen] Cons.prems False by simp
  qed
qed simp

lemma query_pass_seen:
  "mtrue (snd (query_pass f del es R seen)) i \<longleftrightarrow>
    mtrue seen i \<or> \<not> mtrue del i \<and> (\<exists>e \<in> snd ` set es. ID e = i \<and> Matches e f)"
proof (induction es arbitrary: R seen)
  case (Cons x es)
  show ?case
  proof (cases "hits f del seen (snd x)")
    case True
    have q: "query_pass f del (x # es) R seen =
      query_pass f del es (R @ [snd x]) (mput (ID (snd x)) True seen)"
      unfolding query_pass_Cons using True by (rule if_P)
    show ?thesis unfolding q Cons.IH mtrue_mput using True by force
  next
    case False
    have q: "query_pass f del (x # es) R seen = query_pass f del es R seen"
      unfolding query_pass_Cons using False by (rule if_not_P)
    show ?thesis unfolding q Cons.IH using False by force
  qed
qed simp

text \<open>A counting pass is a query pass of which only the length is kept.\<close>

lemma count_pass_query_pass:
  "count_pass f del es (cnt + int (length R)) seen =
    (cnt + int (length (fst (query_pass f del es R seen))), snd (query_pass f del es R seen))"
proof (induction es arbitrary: R seen)
  case (Cons x es)
  have "count_pass f del es (1 + (cnt + int (length R))) (mput (ID (snd x)) True seen) =
    (cnt + int (length (fst (query_pass f del es (R @ [snd x]) (mput (ID (snd x)) True seen)))),
     snd (query_pass f del es (R @ [snd x]) (mput (ID (snd x)) True seen)))"
    using Cons.IH [of "R @ [snd x]" "mput (ID (snd x)) True seen"] by (simp add: add_ac)
  then show ?case
    using Cons.IH [of R seen] by (cases x) (simp add: add_ac)
qed simp

lemma count_filters_query_filters:
  "count_filters ch n s fs (cnt + int (length R)) seen =
    (cnt + int (length (fst (query_filters ch n s fs R seen))), snd (query_filters ch n s fs R seen))"
proof (induction fs arbitrary: n R seen)
  case (Cons f fs)
  show ?case
    by (simp add: count_pass_query_pass Cons.IH case_prod_beta)
qed simp

text \<open>What holds of the results and of the \<open>seen\<close> map after some filters.\<close>

definition query_state :: "mem_store \<Rightarrow> filt list \<Rightarrow> event list \<Rightarrow> (string, bool) gomap \<Rightarrow> bool" where
  "query_state s done R seen \<longleftrightarrow> set R = mem_matching s done \<and> distinct (map ID R)
     \<and> (\<forall>i. mtrue seen i \<longleftrightarrow> i \<in> ID ` set R)"

lemma matching_in_events:
  assumes "keys_are_IDs (events s)"
  shows "mem_matching s fs =
    {e \<in> snd ` set (events s). \<not> mtrue (deleted s) (ID e) \<and> (\<exists>f \<in> set fs. Matches e f)}"
proof -
  have w: "wf_map (events s)" using assms by (simp add: keys_are_IDs_def)
  have "mem_stored s (ID e) = Some e \<longleftrightarrow> e \<in> snd ` set (events s)" for e
  proof
    assume "mem_stored s (ID e) = Some e"
    then show "e \<in> snd ` set (events s)" using mget_in by (force simp: mem_stored_def)
  next
    assume "e \<in> snd ` set (events s)"
    then obtain i where "mget (events s) i = Some e"
      using in_mget [OF w] by force
    then show "mem_stored s (ID e) = Some e"
      using assms by (simp add: mem_stored_def keys_are_IDs_def)
  qed
  then show ?thesis
    by (auto simp: mem_matching_def mem_live_def mem_tomb_def)
qed

lemma query_pass_state:
  assumes inv: "keys_are_IDs (events s)" and st: "query_state s d R seen"
    and q: "query_pass f (deleted s) (range_order rk (events s)) R seen = (R', seen')"
  shows "query_state s (d @ [f]) R' seen'"
proof -
  let ?es = "range_order rk (events s)"
  have w: "wf_map ?es"
    using inv ranges_wf [OF ranges_range_order] by (auto simp: keys_are_IDs_def)
  have "map (ID \<circ> snd) ?es = map fst ?es"
    using inv by (intro map_cong [OF refl]) (auto simp: keys_are_IDs_def mget_iff)
  then have d: "distinct (map (ID \<circ> snd) ?es)"
    using w by (simp only: wf_map_def)
  have R': "R' = R @ filter (hits f (deleted s) seen) (map snd ?es)"
    using query_pass_results [OF d] q by (metis fst_conv)
  have seen': "mtrue seen' i \<longleftrightarrow> mtrue seen i \<or> \<not> mtrue (deleted s) i \<and>
      (\<exists>e \<in> snd ` set (events s). ID e = i \<and> Matches e f)" for i
    using query_pass_seen [of f "deleted s" ?es R seen i] q by simp
  note M = matching_in_events [OF inv]
  have seen: "mtrue seen i \<longleftrightarrow> i \<in> ID ` set R" for i
    using st by (simp add: query_state_def)
  have inj: "a = b" if "a \<in> snd ` set (events s)" "b \<in> snd ` set (events s)" "ID a = ID b" for a b
  proof -
    note ab = that
    have wm: "wf_map (events s)" using inv by (simp add: keys_are_IDs_def)
    obtain i j where "mget (events s) i = Some a" "mget (events s) j = Some b"
      using ab(1,2) in_mget [OF wm] by force
    then show ?thesis using inv ab(3) by (auto simp: keys_are_IDs_def)
  qed
  have R: "set R = mem_matching s d" "distinct (map ID R)"
    using st by (auto simp: query_state_def)
  have "set R' = mem_matching s (d @ [f])"
  proof (intro set_eqI iffI)
    fix e assume "e \<in> set R'"
    then show "e \<in> mem_matching s (d @ [f])" using R(1) by (auto simp: R' M)
  next
    fix e assume e: "e \<in> mem_matching s (d @ [f])"
    show "e \<in> set R'"
    proof (cases "ID e \<in> ID ` set R")
      case True
      then obtain b where "b \<in> set R" "ID e = ID b" by blast
      with e R(1) inj have "e = b" by (simp add: M)
      with \<open>b \<in> set R\<close> show ?thesis by (simp add: R')
    next
      case False
      then have "e \<notin> set R" by blast
      then have "Matches e f" using e R(1) by (auto simp: M)
      with e False show ?thesis by (simp add: R' seen M)
    qed
  qed
  moreover have "distinct (map ID R')"
  proof -
    have "distinct (map ID (filter (hits f (deleted s) seen) (map snd ?es)))"
      using d by (simp add: distinct_map_filter)
    moreover have "ID ` set R \<inter> ID ` set (filter (hits f (deleted s) seen) (map snd ?es)) = {}"
      by (auto simp only: set_filter seen image_iff) metis
    ultimately show ?thesis using R(2) by (simp only: R' map_append distinct_append set_map)
  qed
  moreover have "mtrue seen' i \<longleftrightarrow> i \<in> ID ` set R'" for i
  proof
    assume "mtrue seen' i"
    then show "i \<in> ID ` set R'" unfolding seen' seen
      by (cases "i \<in> ID ` set R") (auto simp: R' seen)
  next
    assume "i \<in> ID ` set R'"
    then show "mtrue seen' i" unfolding seen' by (auto simp: R' seen)
  qed
  ultimately show ?thesis by (simp add: query_state_def)
qed

lemma query_filters_state:
  "keys_are_IDs (events s) \<Longrightarrow> query_state s d R seen \<Longrightarrow>
    query_filters ch n s fs R seen = (R', seen') \<Longrightarrow> query_state s (d @ fs) R' seen'"
proof (induction fs arbitrary: n d R seen)
  case (Cons f fs)
  obtain R1 seen1 where q: "query_pass f (deleted s) (range_order (mc_range ch n) (events s)) R seen = (R1, seen1)"
    by fastforce
  from query_pass_state [OF Cons.prems(1,2) q]
  have "query_state s (d @ [f]) R1 seen1" .
  from Cons.IH [OF Cons.prems(1) this] Cons.prems(3) q show ?case by simp
qed simp

lemma query_all_state:
  assumes "mem_inv s"
  shows "set (fst (query_filters ch 0 s fs [] [])) = mem_matching s fs"
    and "distinct (map ID (fst (query_filters ch 0 s fs [] [])))"
proof -
  have k: "keys_are_IDs (events s)" using assms by (simp add: mem_inv_def)
  have "query_state s [] [] []" by (simp add: query_state_def mem_matching_def)
  from query_filters_state [where ch = ch and n = 0 and fs = fs, OF k this prod.collapse [symmetric]]
  show "set (fst (query_filters ch 0 s fs [] [])) = mem_matching s fs"
    and "distinct (map ID (fst (query_filters ch 0 s fs [] [])))"
    by (simp_all add: query_state_def)
qed

lemma finite_matching [simp]: "mem_inv s \<Longrightarrow> finite (mem_matching s fs)"
  by (metis query_all_state(1) List.finite_set)

lemma length_query_all: "mem_inv s \<Longrightarrow> length (fst (query_filters ch 0 s fs [] [])) = card (mem_matching s fs)"
  by (metis distinct_card distinct_map query_all_state)

text \<open>C17: A query with a non-negative limit (or none) returns live matching events, newest first,
  each once; all of them, or as many as the first filter's limit; and an event left out by the limit
  is no newer than any event returned. This holds for every iteration order and every tie-break.\<close>

theorem mem_QueryEvents_spec:
  assumes "mem_inv s" and "case fs of [] \<Rightarrow> True | f # _ \<Rightarrow> (case Limit f of None \<Rightarrow> True | Some l \<Rightarrow> 0 \<le> l)"
  shows "\<exists>es. mem_QueryEvents ch s fs = Ok es
    \<and> sorted_wrt (\<lambda>a b. CreatedAt b \<le> CreatedAt a) es \<and> distinct (map ID es)
    \<and> set es \<subseteq> mem_matching s fs
    \<and> length es = (case fs of [] \<Rightarrow> card (mem_matching s fs) | f # _ \<Rightarrow>
        (case Limit f of None \<Rightarrow> card (mem_matching s fs) | Some l \<Rightarrow> min (nat l) (card (mem_matching s fs))))
    \<and> (\<forall>a \<in> mem_matching s fs - set es. \<forall>b \<in> set es. CreatedAt a \<le> CreatedAt b)"
proof -
  define all where "all = sort_newest (mc_ties ch) (fst (query_filters ch 0 s fs [] []))"
  note facts = sort_newest_facts [of "mc_ties ch" "fst (query_filters ch 0 s fs [] [])", folded all_def]
  have all: "set all = mem_matching s fs" "distinct (map ID all)" "length all = card (mem_matching s fs)"
    using facts query_all_state [OF assms(1)] length_query_all [OF assms(1)] by simp_all
  have q: "mem_QueryEvents ch s fs = apply_limit fs all"
    by (simp add: mem_QueryEvents_def all_def)
  have lim: "\<exists>n. mem_QueryEvents ch s fs = Ok (take n all) \<and>
    length (take n all) = (case fs of [] \<Rightarrow> card (mem_matching s fs) | f # _ \<Rightarrow>
      (case Limit f of None \<Rightarrow> card (mem_matching s fs) | Some l \<Rightarrow> min (nat l) (card (mem_matching s fs))))"
  proof (cases "\<exists>f r l. fs = f # r \<and> Limit f = Some l \<and> int (length all) > l")
    case True
    then obtain f r l where f: "fs = f # r" "Limit f = Some l" "int (length all) > l" by blast
    with assms(2) have "0 \<le> l" by simp
    with f have "apply_limit fs all = Ok (take (nat l) all)"
      by (simp add: apply_limit_def)
    then show ?thesis unfolding q
      by (intro exI [of _ "nat l"]) (simp add: f(1,2) all(3))
  next
    case False
    then have "apply_limit fs all = Ok all"
      by (auto simp: apply_limit_def split: list.splits option.splits)
    with False show ?thesis
      by (intro exI [of _ "length all"])
        (auto simp: q all(3) split: list.splits option.splits)
  qed
  then obtain n where n: "mem_QueryEvents ch s fs = Ok (take n all)"
    "length (take n all) = (case fs of [] \<Rightarrow> card (mem_matching s fs) | f # _ \<Rightarrow>
      (case Limit f of None \<Rightarrow> card (mem_matching s fs) | Some l \<Rightarrow> min (nat l) (card (mem_matching s fs))))"
    by blast
  have "sorted_wrt (\<lambda>a b. CreatedAt b \<le> CreatedAt a) (take n all @ drop n all)"
    using facts(4) by simp
  then have so: "sorted_wrt (\<lambda>a b. CreatedAt b \<le> CreatedAt a) (take n all)"
    and le: "\<forall>b \<in> set (take n all). \<forall>a \<in> set (drop n all). CreatedAt a \<le> CreatedAt b"
    by (auto simp only: sorted_wrt_append)
  have "mem_matching s fs - set (take n all) \<subseteq> set (drop n all)"
    using all(1) by (metis Diff_subset_conv append_take_drop_id set_append order_refl)
  moreover have "distinct (map ID (take n all))"
    using all(2) by (simp add: distinct_take take_map [symmetric])
  moreover have "set (take n all) \<subseteq> mem_matching s fs"
    using all(1) set_take_subset by metis
  ultimately show ?thesis
    using n so le by (intro exI [of _ "take n all"]) blast
qed

text \<open>A count is the number of live events that match some filter, counted once each, whatever
  the iteration order and whatever limits the filters carry.\<close>

theorem mem_CountEvents_spec:
  assumes "mem_inv s"
  shows "mem_CountEvents ch s fs = Inr (int (card (mem_matching s fs)))"
  using count_filters_query_filters [of ch 0 s fs 0 "[]" "[]"] length_query_all [OF assms, of ch fs]
  by (simp add: mem_CountEvents_def)

text \<open>A query panics exactly when its first filter's limit is negative: the slice bound is
  checked by nothing before it is used.\<close>

theorem mem_QueryEvents_Panic_iff:
  "mem_QueryEvents ch s fs = Panic \<longleftrightarrow> fs \<noteq> [] \<and> (\<exists>l. Limit (hd fs) = Some l \<and> l < 0)"
  by (auto simp: mem_QueryEvents_def apply_limit_def split: list.splits option.splits)

section \<open>The invariant under every operation\<close>

lemma mem_live_mput:
  "mem_live (s\<lparr>events := mput i e (events s)\<rparr>) j =
    (if mem_tomb s j then None else if j = i then Some e else mem_stored s j)"
  by (simp add: mem_view_defs mget_mput)

lemma one_per_author_put:
  assumes "one_per_author s"
    and "\<And>j b. mem_live s j = Some b \<Longrightarrow> j \<noteq> ID e \<Longrightarrow> replaceable_kind (Kind e) \<Longrightarrow> PubKey b = PubKey e \<Longrightarrow> Kind b \<noteq> Kind e"
  shows "one_per_author (s\<lparr>events := mput (ID e) e (events s)\<rparr>)"
  unfolding one_per_author_def
proof (intro allI impI)
  fix i j a b
  assume l: "mem_live (s\<lparr>events := mput (ID e) e (events s)\<rparr>) i = Some a"
    "mem_live (s\<lparr>events := mput (ID e) e (events s)\<rparr>) j = Some b"
    and k: "replaceable_kind (Kind a)" "PubKey a = PubKey b" "Kind a = Kind b"
  have v: "mem_live s x = Some y \<or> x = ID e \<and> y = e" and w: "x = ID e \<Longrightarrow> y = e"
    if "mem_live (s\<lparr>events := mput (ID e) e (events s)\<rparr>) x = Some y" for x y
    using that unfolding mem_live_mput by (simp_all add: mem_live_def split: if_splits)
  show "i = j"
  proof (cases "i = ID e \<or> j = ID e")
    case True
    then show ?thesis
      using v [OF l(1)] v [OF l(2)] w [OF l(1)] w [OF l(2)] assms(2) k by metis
  next
    case False
    then have "mem_live s i = Some a" "mem_live s j = Some b"
      using v [OF l(1)] v [OF l(2)] by blast+
    with assms(1) k show ?thesis unfolding one_per_author_def by blast
  qed
qed

lemma mem_inv_put:
  assumes "mem_inv s"
    and "\<And>j b. mem_live s j = Some b \<Longrightarrow> j \<noteq> ID e \<Longrightarrow> replaceable_kind (Kind e) \<Longrightarrow> PubKey b = PubKey e \<Longrightarrow> Kind b \<noteq> Kind e"
  shows "mem_inv (s\<lparr>events := mput (ID e) e (events s)\<rparr>)"
  using assms one_per_author_put [OF _ assms(2)] by (simp add: mem_inv_def keys_are_IDs_mput)

lemma mem_inv_SaveEvent:
  assumes inv: "mem_inv s"
  shows "mem_inv (fst (mem_SaveEvent ch s e))"
proof (cases "mem_tomb s (ID e)")
  case True
  then show ?thesis using inv by (simp add: mem_SaveEvent_tomb)
next
  case nt: False
  show ?thesis
  proof (cases "replaceable_kind (Kind e)")
    case False
    then have "mem_inv (s\<lparr>events := mput (ID e) e (events s)\<rparr>)"
      using mem_inv_put inv by metis
    then show ?thesis using False nt by (simp add: mem_SaveEvent_plain)
  next
    case rep: True
    show ?thesis
    proof (cases "current s (PubKey e) (Kind e)")
      case None
      then have "mem_inv (s\<lparr>events := mput (ID e) e (events s)\<rparr>)"
        using mem_inv_put inv current_None by metis
      then show ?thesis using None by (simp add: mem_SaveEvent_replaceable [OF inv rep nt])
    next
      case (Some old)
      let ?s = "s\<lparr>deleted := mput (ID old) True (deleted s)\<rparr>"
      have m: "mem_inv ?s"
        by (rule mem_inv_mark [OF inv]) (simp add: mtrue_mput)
      have "mem_inv (?s\<lparr>events := mput (ID e) e (events ?s)\<rparr>)"
      proof (rule mem_inv_put [OF m])
        fix j b
        assume b: "mem_live ?s j = Some b" "PubKey b = PubKey e"
        then have l: "mem_live s j = Some b" "j \<noteq> ID old"
          by (auto simp: mem_view_defs mtrue_mput split: if_splits)
        show "Kind b \<noteq> Kind e"
        proof
          assume "Kind b = Kind e"
          with current_unique [OF inv rep l(1) b(2)] Some have "b = old" by simp
          moreover have "ID b = j"
            using inv l(1) by (auto simp: mem_inv_def keys_are_IDs_def mem_view_defs split: if_splits)
          ultimately show False using l(2) by simp
        qed
      qed
      then show ?thesis using Some inv by (simp add: mem_SaveEvent_replaceable [OF inv rep nt])
    qed
  qed
qed

lemma mem_inv_DeleteEvent: "mem_inv s \<Longrightarrow> mem_inv (fst (mem_DeleteEvent s i pk))"
  by (auto simp: mem_DeleteEvent_def mtrue_mput intro!: mem_inv_mark split: option.splits)

lemma mark_author_iff:
  "mtrue (mark_author pk es del) i \<longleftrightarrow> mtrue del i \<or> (\<exists>e. (i, e) \<in> set es \<and> PubKey e = pk)"
proof (induction es arbitrary: del)
  case (Cons x es)
  obtain k v where x: "x = (k, v)" by (cases x)
  show ?case
  proof (cases "PubKey v = pk")
    case True
    then have "mtrue (mark_author pk (x # es) del) i \<longleftrightarrow> (i = k \<or> mtrue del i) \<or> (\<exists>e. (i, e) \<in> set es \<and> PubKey e = pk)"
      using Cons.IH [of "mput k True del"] x by (simp add: mtrue_mput)
    then show ?thesis using True x by fastforce
  next
    case False
    then have "mtrue (mark_author pk (x # es) del) i \<longleftrightarrow> mtrue del i \<or> (\<exists>e. (i, e) \<in> set es \<and> PubKey e = pk)"
      using Cons.IH [of del] x by simp
    then show ?thesis using False x by fastforce
  qed
qed simp

lemma mark_older_iff:
  "mtrue (fst (mark_older t ex es del cnt)) i \<longleftrightarrow> mtrue del i \<or>
    (\<exists>e. (i, e) \<in> set es \<and> CreatedAt e < t \<and> \<not> mtrue ex (Kind e))"
proof (induction es arbitrary: del cnt)
  case (Cons x es)
  let ?P = "\<exists>e. (i, e) \<in> set es \<and> CreatedAt e < t \<and> \<not> mtrue ex (Kind e)"
  obtain k v where x: "x = (k, v)" by (cases x)
  show ?case
  proof (cases "\<not> mtrue del k \<and> CreatedAt v < t \<and> \<not> mtrue ex (Kind v)")
    case True
    then have "mtrue (fst (mark_older t ex (x # es) del cnt)) i \<longleftrightarrow> (i = k \<or> mtrue del i) \<or> ?P"
      using Cons.IH [of "mput k True del"] x by (simp add: mtrue_mput)
    then show ?thesis using True x by fastforce
  next
    case False
    then have "mark_older t ex (x # es) del cnt = mark_older t ex es del cnt"
      using x by auto
    then have "mtrue (fst (mark_older t ex (x # es) del cnt)) i \<longleftrightarrow> mtrue del i \<or> ?P"
      using Cons.IH [of del] by simp
    then show ?thesis using False x by fastforce
  qed
qed simp

lemma exempt_map_iff [simp]: "mtrue (exempt_map ks) k \<longleftrightarrow> k \<in> set ks"
proof -
  have "mtrue (foldl (\<lambda>m k. mput k True m) m ks) k \<longleftrightarrow> mtrue m k \<or> k \<in> set ks" for m
    by (induction ks arbitrary: m) (auto simp: mtrue_mput)
  from this [of "[]"] show ?thesis by (simp add: exempt_map_def)
qed

lemma mem_inv_DeleteAll: "mem_inv s \<Longrightarrow> mem_inv (fst (mem_DeleteAllEventsByPubKey ch s pk))"
  by (simp add: mem_DeleteAllEventsByPubKey_def mem_inv_mark mark_author_iff)

lemma mem_DeleteEventsOlderThan_fst:
  "fst (mem_DeleteEventsOlderThan ch s t ks) = s\<lparr>deleted := fst (mark_older t (exempt_map ks)
     (range_order (mc_range ch 0) (events s)) (deleted s) 0)\<rparr>"
  by (simp add: mem_DeleteEventsOlderThan_def case_prod_beta)

lemma mem_inv_Older: "mem_inv s \<Longrightarrow> mem_inv (fst (mem_DeleteEventsOlderThan ch s t ks))"
  by (simp add: mem_DeleteEventsOlderThan_fst mem_inv_mark mark_older_iff)

lemma mem_views_channelEvents [simp]:
  "mem_live (s\<lparr>channelEvents := cm\<rparr>) = mem_live s"
  "one_per_author (s\<lparr>channelEvents := cm\<rparr>) = one_per_author s"
proof -
  show "mem_live (s\<lparr>channelEvents := cm\<rparr>) = mem_live s"
    by (simp add: mem_view_defs fun_eq_iff)
  then show "one_per_author (s\<lparr>channelEvents := cm\<rparr>) = one_per_author s"
    by (simp add: one_per_author_def)
qed

lemma mem_inv_channels:
  "mem_inv s \<Longrightarrow> wf_map cm \<Longrightarrow> (\<And>c m. mget cm c = Some m \<Longrightarrow> keys_are_IDs m) \<Longrightarrow>
    mem_inv (s\<lparr>channelEvents := cm\<rparr>)"
  by (simp add: mem_inv_def)

lemma mem_inv_DeleteChannel: "mem_inv s \<Longrightarrow> mem_inv (fst (mem_DeleteChannelEvents s c))"
  by (simp add: mem_DeleteChannelEvents_def mget_mdel mem_inv_def split: option.splits)

lemma mem_inv_SaveChannel: "mem_inv s \<Longrightarrow> mem_inv (fst (mem_SaveChannelEvent s e))"
proof -
  assume inv: "mem_inv s"
  let ?c = "mem_getChannelID e"
  let ?m = "case mget (channelEvents s) ?c of None \<Rightarrow> [] | Some m \<Rightarrow> m"
  have "keys_are_IDs ?m"
    using inv by (auto simp: mem_inv_def keys_are_IDs_def split: option.splits)
  then have "mem_inv (s\<lparr>channelEvents := mput ?c (mput (ID e) e ?m) (channelEvents s)\<rparr>)"
    using inv by (simp add: mem_inv_def mget_mput keys_are_IDs_mput)
  with inv show ?thesis
    by (simp add: mem_SaveChannelEvent_def Let_def)
qed

section \<open>The storage contract\<close>

lemma mem_SaveEvent_fst:
  assumes "mem_inv s"
  shows "mem_tomb (fst (mem_SaveEvent ch s e)) j \<longleftrightarrow> mem_tomb s j \<or>
    (\<not> mem_tomb s (ID e) \<and> replaceable_kind (Kind e) \<and>
      (\<exists>old. current s (PubKey e) (Kind e) = Some old \<and> ID old = j \<and> CreatedAt old \<le> CreatedAt e))"
proof (cases "mem_tomb s (ID e)")
  case True
  then show ?thesis by (simp add: mem_SaveEvent_tomb)
next
  case nt: False
  show ?thesis
  proof (cases "replaceable_kind (Kind e)")
    case False
    then show ?thesis using nt by (simp add: mem_SaveEvent_plain mem_tomb_def)
  next
    case True
    show ?thesis unfolding mem_SaveEvent_replaceable [OF assms True nt]
      using nt True by (cases "current s (PubKey e) (Kind e)") (auto simp: mem_tomb_def mtrue_mput)
  qed
qed

lemma mem_if_sel [simp]:
  "SaveEvent (mem_if ch) = mem_SaveEvent ch" "QueryEvents (mem_if ch) = mem_QueryEvents ch"
  "DeleteEvent (mem_if ch) = mem_DeleteEvent" "GetEvent (mem_if ch) = mem_GetEvent"
  "DeleteAllEventsByPubKey (mem_if ch) = mem_DeleteAllEventsByPubKey ch"
  "CountEvents (mem_if ch) = mem_CountEvents ch" "DeleteChannelEvents (mem_if ch) = mem_DeleteChannelEvents"
  "DeleteEventsOlderThan (mem_if ch) = mem_DeleteEventsOlderThan ch"
  by (simp_all add: mem_if_def)

lemma mem_stored_ID: "mem_inv s \<Longrightarrow> mem_stored s i = Some e \<Longrightarrow> ID e = i"
  by (simp add: mem_inv_def keys_are_IDs_def mem_stored_def)

lemma mem_stored_in: "mem_inv s \<Longrightarrow> mem_stored s i = Some e \<longleftrightarrow> (i, e) \<in> set (events s)"
  by (simp add: mem_inv_def keys_are_IDs_def mem_stored_def mget_iff)

lemma mem_DeleteEvent_facts:
  "mem_stored (fst (mem_DeleteEvent s i pk)) = mem_stored s"
  "mem_tomb (fst (mem_DeleteEvent s i pk)) j \<longleftrightarrow>
    mem_tomb s j \<or> j = i \<and> (\<exists>e. mem_stored s i = Some e \<and> PubKey e = pk)"
  "succeeded (mem_DeleteEvent s i pk) \<longleftrightarrow> (\<exists>e. mem_stored s i = Some e \<and> PubKey e = pk)"
  by (auto simp: mem_DeleteEvent_def mem_stored_def mem_tomb_def mtrue_mput fun_eq_iff split: option.splits)

lemma mem_DeleteAll_facts:
  assumes "mem_inv s"
  shows "mem_stored (fst (mem_DeleteAllEventsByPubKey ch s pk)) = mem_stored s"
  "mem_tomb (fst (mem_DeleteAllEventsByPubKey ch s pk)) j \<longleftrightarrow>
    mem_tomb s j \<or> (\<exists>e. mem_stored s j = Some e \<and> PubKey e = pk)"
  "succeeded (mem_DeleteAllEventsByPubKey ch s pk)"
  using assms by (auto simp: mem_DeleteAllEventsByPubKey_def mem_stored_in mem_tomb_def mark_author_iff)
    (simp add: mem_stored_def fun_eq_iff)

lemma mem_Older_facts:
  assumes "mem_inv s"
  shows "mem_stored (fst (mem_DeleteEventsOlderThan ch s t ks)) = mem_stored s"
  "mem_tomb (fst (mem_DeleteEventsOlderThan ch s t ks)) j \<longleftrightarrow>
    mem_tomb s j \<or> (\<exists>e. mem_stored s j = Some e \<and> CreatedAt e < t \<and> Kind e \<notin> set ks)"
  using assms by (auto simp: mem_DeleteEventsOlderThan_fst mem_stored_in mem_tomb_def mark_older_iff)
    (simp add: mem_stored_def fun_eq_iff)

lemma mem_channel_facts:
  "mem_stored (fst (mem_DeleteChannelEvents s c)) = mem_stored s"
  "mem_tomb (fst (mem_DeleteChannelEvents s c)) = mem_tomb s"
  by (simp_all add: mem_DeleteChannelEvents_def mem_stored_def mem_tomb_def fun_eq_iff split: option.splits)

interpretation mem: healthy_storage "mem_if ch" mem_inv mem_stored mem_tomb "\<lambda>e. e" for ch
proof (unfold_locales, goal_cases)
  case (2 s e) then show ?case by (simp add: mem_inv_SaveEvent)
next
  case (7 s i e) then show ?case by (auto simp: mem_GetEvent_def mem_stored_def mem_tomb_def split: if_splits option.splits)
next
  case (8 s i) then show ?case by (auto simp: mem_GetEvent_def mem_tomb_def)
next
  case (11 s e j)
  then show ?case using current_Some [OF 11(1)]
    by (force simp: mem_SaveEvent_fst [OF 11(1)] mem_live_def split: if_splits)
next
  case (23 s i) then show ?case by (auto simp: mem_GetEvent_def mem_stored_def mem_tomb_def split: if_splits option.splits)
next
  case (24 s e) then show ?case
    by (simp add: mem_SaveEvent_plain) (simp add: mem_stored_def mem_tomb_def mget_mput fun_eq_iff)
qed (auto simp: mem_stored_ID mem_inv_DeleteEvent mem_inv_DeleteAll mem_inv_DeleteChannel mem_inv_Older
    mem_SaveEvent_tomb mem_SaveEvent_fst mem_DeleteEvent_facts mem_DeleteAll_facts mem_channel_facts mem_Older_facts)

section \<open>Properties\<close>

text \<open>A concrete store the witnesses use: one note, one profile, and a channel.\<close>

definition any_choice :: choice where
  "any_choice = \<lparr>mc_range = (\<lambda>n k. length k), mc_ties = length\<rparr>"

definition sample_profile :: event where
  "sample_profile = sample_event\<lparr>ID := ''p1'', Kind := 0, CreatedAt := 50\<rparr>"

definition sample_store :: mem_store where
  "sample_store = \<lparr>events = [(''ab12'', sample_event), (''p1'', sample_profile)], deleted = [], channelEvents = []\<rparr>"

lemma sample_kinds [simp]:
  "Kind sample_event = 1" "Kind sample_profile = 0" "ID sample_event = ''ab12''" "ID sample_profile = ''p1''"
  "PubKey sample_event = ''cd34''" "PubKey sample_profile = ''cd34''" "CreatedAt sample_profile = 50"
  "CreatedAt sample_event = 100"
  by (simp_all add: sample_event_def sample_profile_def)

lemma sample_store_saves:
  "sample_store = fst (mem_SaveEvent any_choice (fst (mem_SaveEvent any_choice mem_New sample_event)) sample_profile)"
  by (simp add: sample_store_def mem_SaveEvent_def mem_New_def mem_isReplaceableEvent_def mput_def range_order_def)

lemma mem_inv_sample: "mem_inv sample_store"
  unfolding sample_store_saves by (intro mem_inv_SaveEvent mem_inv_New)

text \<open>Saving an event gives the same store and the same answer whatever the order in which the
  \<^verbatim>\<open>range\<close> loop meets the stored events.\<close>

theorem mem_SaveEvent_deterministic:
  assumes "mem_inv s"
  shows "mem_SaveEvent ch s e = mem_SaveEvent ch' s e"
proof (cases "mem_tomb s (ID e)")
  case False
  show ?thesis
  proof (cases "replaceable_kind (Kind e)")
    case True
    show ?thesis unfolding mem_SaveEvent_replaceable [OF assms True False] ..
  qed (simp add: mem_SaveEvent_plain False)
qed (simp add: mem_SaveEvent_tomb)

lemma mem_SaveEvent_deterministic_witness:
  "mem_SaveEvent any_choice sample_store sample_profile =
    mem_SaveEvent (any_choice\<lparr>mc_range := (\<lambda>n k. 7 - length k)\<rparr>) sample_store sample_profile"
  by (rule mem_SaveEvent_deterministic [OF mem_inv_sample])

text \<open>Newest wins. After a new replaceable event is saved, the live event of its author and kind is
  the later of the new event and the one that was live (the new one when they are equally old); the
  live events of every other author and replaceable kind are untouched.\<close>

theorem mem_newest_wins:
  assumes inv: "mem_inv s" and e: "replaceable_kind (Kind e)" "mget (events s) (ID e) = None"
    "\<not> mem_tomb s (ID e)" and k: "replaceable_kind k"
  shows "current (fst (mem_SaveEvent ch s e)) pk k =
    (if pk = PubKey e \<and> k = Kind e then
       (case current s pk k of
          Some old \<Rightarrow> if CreatedAt old > CreatedAt e then Some old else Some e
        | None \<Rightarrow> Some e)
     else current s pk k)"
proof -
  let ?s = "fst (mem_SaveEvent ch s e)"
  have inv': "mem_inv ?s" by (rule mem_inv_SaveEvent [OF inv])
  have cur: "current ?s pk k = Some a" if "mem_live ?s (ID a) = Some a" "PubKey a = pk" "Kind a = k" for a
    using current_unique [OF inv' k that] .
  note save = mem_SaveEvent_replaceable [OF inv e(1,3), of ch]
  have live: "mem_live ?s i = (case current s (PubKey e) (Kind e) of
      None \<Rightarrow> if i = ID e then Some e else mem_live s i
    | Some old \<Rightarrow> if CreatedAt old > CreatedAt e then mem_live s i
        else if i = ID e then Some e else if i = ID old then None else mem_live s i)" for i
  proof (cases "current s (PubKey e) (Kind e)")
    case None
    then show ?thesis using e unfolding save by (simp add: mem_view_defs mget_mput)
  next
    case (Some old)
    have "ID old \<noteq> ID e"
      using current_Some [OF inv Some] e(2) by (auto simp: mem_view_defs split: if_splits)
    then show ?thesis using e Some unfolding save by (simp add: mem_view_defs mget_mput mtrue_mput)
  qed
  have live_e: "mem_live s (ID e) = None"
    using e by (simp add: mem_view_defs)
  show ?thesis
  proof (cases "pk = PubKey e \<and> k = Kind e")
    case True
    show ?thesis
    proof (cases "current s (PubKey e) (Kind e)")
      case None
      then have "mem_live ?s (ID e) = Some e" by (simp add: live)
      from cur [OF this] True None show ?thesis by simp
    next
      case (Some old)
      show ?thesis
      proof (cases "CreatedAt old > CreatedAt e")
        case old: True
        then have "mem_live ?s (ID old) = Some old"
          using Some current_Some [OF inv Some] by (simp add: live)
        from cur [OF this] current_Some [OF inv Some] True Some old show ?thesis by simp
      next
        case False
        then have "mem_live ?s (ID e) = Some e" using Some by (simp add: live)
        from cur [OF this] True Some False show ?thesis by simp
      qed
    qed
  next
    case other: False
    show ?thesis
    proof (cases "current s pk k")
      case None
      have "current ?s pk k = None"
      proof (rule ccontr)
        assume "current ?s pk k \<noteq> None"
        then obtain a where "current ?s pk k = Some a" by blast
        note a = current_Some [OF inv' this]
        then have "a \<noteq> e" using other by blast
        with a have "mem_live s (ID a) = Some a"
          unfolding live by (auto split: option.splits if_splits)
        with current_None [OF inv None this] a show False by blast
      qed
      with None show ?thesis unfolding if_not_P [OF other] by simp
    next
      case (Some a)
      note a = current_Some [OF inv Some]
      then have "ID a \<noteq> ID e" using live_e by auto
      moreover have "ID a \<noteq> ID old" if "current s (PubKey e) (Kind e) = Some old" for old
        using current_Some [OF inv that] a other by auto
      ultimately have "mem_live ?s (ID a) = Some a"
        unfolding live using a by (simp split: option.splits)
      from cur [OF this] a Some show ?thesis unfolding if_not_P [OF other] by simp
    qed
  qed
qed

lemma mem_newest_wins_witness:
  "current (fst (mem_SaveEvent any_choice sample_store (sample_profile\<lparr>ID := ''p2'', CreatedAt := 60\<rparr>))) ''cd34'' 0
    = Some (sample_profile\<lparr>ID := ''p2'', CreatedAt := 60\<rparr>)"
  by (subst mem_newest_wins [OF mem_inv_sample])
    (simp_all add: replaceable_kind_def sample_store_def mem_tomb_def mget_def current_def)

text \<open>C35: Saving the same replaceable event a second time deletes it: the loop meets the stored copy,
  finds it no newer, and marks its own ID deleted, after which reading it fails. (The relay's own
  duplicate check shadows this only while the first copy is readable.)\<close>

theorem mem_resave_deletes:
  assumes "mem_inv s" "mem_live s (ID e) = Some e" "replaceable_kind (Kind e)"
  shows "mem_GetEvent s (ID e) = Inr e \<and>
    mem_GetEvent (fst (mem_SaveEvent ch s e)) (ID e) = Inl (ErrorString ''event has been deleted'')"
proof -
  have nt: "\<not> mem_tomb s (ID e)" using assms(2) by (simp add: mem_live_def split: if_splits)
  have "current s (PubKey e) (Kind e) = Some e"
    by (rule current_unique [OF assms(1,3,2)]) simp_all
  then have "mem_GetEvent (fst (mem_SaveEvent ch s e)) (ID e) = Inl (ErrorString ''event has been deleted'')"
    unfolding mem_SaveEvent_replaceable [OF assms(1,3) nt] by (simp add: mem_GetEvent_def mtrue_mput)
  moreover have "mem_GetEvent s (ID e) = Inr e"
    using assms(2) nt by (simp add: mem_GetEvent_def mem_view_defs)
  ultimately show ?thesis by blast
qed

lemma mem_resave_deletes_witness:
  "mem_GetEvent (fst (mem_SaveEvent any_choice sample_store sample_profile)) ''p1'' =
    Inl (ErrorString ''event has been deleted'')"
  using mem_resave_deletes [OF mem_inv_sample, of sample_profile any_choice]
  by (simp add: replaceable_kind_def mem_view_defs sample_store_def mget_def)

section \<open>Runs of the store\<close>

text \<open>One call of any operation that changes the store, with any arguments and any choices.\<close>

inductive mem_step :: "mem_store \<Rightarrow> mem_store \<Rightarrow> bool" where
  save: "mem_step s (fst (mem_SaveEvent ch s e))"
| delete: "mem_step s (fst (mem_DeleteEvent s i pk))"
| delete_all: "mem_step s (fst (mem_DeleteAllEventsByPubKey ch s pk))"
| older: "mem_step s (fst (mem_DeleteEventsOlderThan ch s t ks))"
| save_channel: "mem_step s (fst (mem_SaveChannelEvent s e))"
| delete_channel: "mem_step s (fst (mem_DeleteChannelEvents s c))"

lemma mem_step_inv: "mem_step s s' \<Longrightarrow> mem_inv s \<Longrightarrow> mem_inv s'"
  by (induction rule: mem_step.induct)
    (simp_all add: mem_inv_SaveEvent mem_inv_DeleteEvent mem_inv_DeleteAll mem_inv_Older
      mem_inv_SaveChannel mem_inv_DeleteChannel)

lemma mem_steps_inv: "mem_step\<^sup>*\<^sup>* s s' \<Longrightarrow> mem_inv s \<Longrightarrow> mem_inv s'"
  by (induction rule: rtranclp_induct) (auto intro: mem_step_inv)

lemma mem_SaveChannel_views:
  "mem_tomb (fst (mem_SaveChannelEvent s e)) = mem_tomb s"
  by (simp add: mem_SaveChannelEvent_def Let_def mem_tomb_def fun_eq_iff)

lemma mem_step_tomb: "mem_step s s' \<Longrightarrow> mem_inv s \<Longrightarrow> mem_tomb s i \<Longrightarrow> mem_tomb s' i"
  by (induction rule: mem_step.induct)
    (simp_all add: mem_SaveChannel_views mem.tombs_final [simplified])

text \<open>C27: In every state the store can reach there is at most one live event per author and replaceable
  kind, every event is filed under its own ID, and every channel's events too.\<close>

theorem mem_reachable_inv:
  assumes "mem_step\<^sup>*\<^sup>* mem_New s"
  shows "mem_inv s"
  using assms mem_inv_New by (rule mem_steps_inv)

lemma mem_reachable_inv_witness: "mem_inv (fst (mem_SaveEvent any_choice mem_New sample_profile))"
  by (rule mem_reachable_inv) (blast intro: mem_step.intros)



section \<open>Deletion requests and requests to vanish on this store\<close>


definition sample_deletion :: event where
  "sample_deletion = sample_event\<lparr>ID := ''d1'', Kind := 5, Tags := Some [Some [''e'', ''ab12''], Some [''e'', ''zz'']]\<rparr>"


text \<open>C40: The channel wipe runs before the authorship check: a deletion request by any key whose first
  \<open>e\<close> tag names a live channel-creation or channel-metadata event removes every stored event of that
  channel, whoever wrote them.\<close>

theorem mem_HandleDeletion_wipes_foreign_channel:
  assumes "Kind evt = 5" "tags evt = [[''e'', i]]"
    and "mem_GetEvent s i = Inr created" "Kind created = 40 \<or> Kind created = 41"
    and "nip09_getChannelIDFromEvent created = c" "c \<noteq> []" "PubKey created \<noteq> PubKey evt"
  shows "mget (channelEvents (fst (HandleDeletion (mem_if ch) s evt))) c = None
    \<and> events (fst (HandleDeletion (mem_if ch) s evt)) = events s
    \<and> deleted (fst (HandleDeletion (mem_if ch) s evt)) = deleted s"
proof -
  let ?w = "fst (mem_DeleteChannelEvents s c)"
  have w: "wipe_channel (mem_if ch) s i = ?w"
    using assms by (simp add: wipe_channel_def)
  have ev: "events ?w = events s" "deleted ?w = deleted s" "mget (channelEvents ?w) c = None"
    by (simp_all add: mem_DeleteChannelEvents_def mget_mdel split: option.splits)
  have "mget (events s) i = Some created"
    using assms(3) by (simp add: mem_GetEvent_def split: if_splits option.splits)
  then have "fst (mem_DeleteEvent ?w i (PubKey evt)) = ?w"
    using assms(7) ev by (simp add: mem_DeleteEvent_def)
  then have "fst (HandleDeletion (mem_if ch) s evt) = ?w"
    using assms(1,2) w by (simp add: HandleDeletion_def)
  with ev show ?thesis by simp
qed

definition sample_channel :: event where
  "sample_channel = sample_event\<lparr>ID := ''c1'', Kind := 40, Tags := Some [Some [''channel_id'', ''ch'']]\<rparr>"

definition channel_store :: mem_store where
  "channel_store = \<lparr>events = [(''c1'', sample_channel)], deleted = [],
     channelEvents = [(''ch'', [(''c1'', sample_channel)])]\<rparr>"

lemma mem_HandleDeletion_wipes_foreign_channel_witness:
  "mget (channelEvents (fst (HandleDeletion (mem_if any_choice) channel_store
     (sample_deletion\<lparr>PubKey := ''ee'', Tags := Some [Some [''e'', ''c1'']]\<rparr>)))) ''ch'' = None"
  by (rule mem_HandleDeletion_wipes_foreign_channel [where created = sample_channel and i = "''c1''", THEN conjunct1])
    (simp_all add: sample_deletion_def sample_channel_def channel_store_def tags_def mem_GetEvent_def mget_def
      nip09_getChannelIDFromEvent_def first_tag_or_empty_def first_tag_def sample_event_def)

text \<open>A valid request to vanish that addresses this relay marks deleted exactly the requesting
  key's stored events; one that addresses another relay changes nothing.\<close>

theorem mem_vanish_exact:
  assumes "mem_inv s" "Kind evt = 62" "ValidateRequestToVanish evt = None"
  shows "mem_tomb (fst (HandleRequestToVanish U (mem_if ch) s evt url)) i \<longleftrightarrow>
    mem_tomb s i \<or> isForThisRelay U url evt \<and> (\<exists>e. mem_stored s i = Some e \<and> PubKey e = PubKey evt)"
  by (rule mem.HandleRequestToVanish_exact [OF assms])

definition ascii_unicode :: unicode where
  "ascii_unicode = \<lparr>uc_lower = (\<lambda>r. r), uc_fold = (\<lambda>r. r), uc_print = (\<lambda>r. False)\<rparr>"

definition sample_vanish :: event where
  "sample_vanish = sample_event\<lparr>ID := ''v1'', Kind := 62, Tags := Some [Some [''relay'', ''ALL_RELAYS'']]\<rparr>"

lemma mem_vanish_exact_witness:
  "mem_tomb (fst (HandleRequestToVanish ascii_unicode (mem_if any_choice) sample_store sample_vanish ''ws'')) ''p1''"
proof -
  have "TrimSpace ''ALL_RELAYS'' = ''ALL_RELAYS''" by code_simp
  then have "ValidateRequestToVanish sample_vanish = None" "isForThisRelay ascii_unicode ''ws'' sample_vanish"
    by (simp_all add: ValidateRequestToVanish_def isForThisRelay_def addresses_def sample_vanish_def first_tag_def tags_def)
  moreover have "Kind sample_vanish = 62" "PubKey sample_vanish = ''cd34''"
    by (simp_all add: sample_vanish_def)
  moreover have "mem_stored sample_store ''p1'' = Some sample_profile"
    by (simp add: mem_stored_def sample_store_def mget_def)
  ultimately show ?thesis
    using mem_vanish_exact [OF mem_inv_sample] by simp
qed

lemma mem_QueryEvents_spec_witness:
  "\<exists>es. mem_QueryEvents any_choice sample_store [sample_filter\<lparr>FTags := [], Limit := Some 3\<rparr>] = Ok es
    \<and> distinct (map ID es)"
  using mem_QueryEvents_spec [OF mem_inv_sample, of "[sample_filter\<lparr>FTags := [], Limit := Some 3\<rparr>]" any_choice]
  by auto

lemma mem_CountEvents_spec_witness:
  "mem_CountEvents any_choice sample_store [sample_filter\<lparr>FTags := []\<rparr>, sample_filter\<lparr>FTags := []\<rparr>] = Inr 1"
proof -
  have k: "keys_are_IDs (events sample_store)" using mem_inv_sample by (simp add: mem_inv_def)
  have "mem_matching sample_store [sample_filter\<lparr>FTags := []\<rparr>, sample_filter\<lparr>FTags := []\<rparr>] = {sample_event}"
    unfolding matching_in_events [OF k]
    by (auto simp: sample_store_def Matches_def matchesPrefix_def sample_filter_def sample_event_def sample_profile_def)
  then show ?thesis
    using mem_CountEvents_spec [OF mem_inv_sample, of any_choice] by simp
qed

end
