(* ===== verification/Decode.thy ===== *)
theory Decode
  imports Event
begin

text \<open>
  The decoding of JSON values into the Go types the protocol uses, as \<^verbatim>\<open>json.Unmarshal\<close> does it:
  an object's members in order, field names matched without regard to case, a null that leaves a
  string or number as it is and empties a slice or pointer, and failure on any type mismatch.
  \<^verbatim>\<open>Filter.UnmarshalJSON\<close> of \<^verbatim>\<open>pkg/event/event.go\<close> reads the known fields first and then the tag
  members. The decoder's own error texts are not modelled: a failure is \<open>None\<close>.

  Proved: what filter decoding does with tag members.
\<close>

definition name_is :: "unicode \<Rightarrow> string \<Rightarrow> string \<Rightarrow> bool" where
  "name_is U key n = (key = n \<or> EqualFold U key n)"

text \<open>A value decoded over an old one.\<close>

fun as_string :: "json \<Rightarrow> string \<Rightarrow> string option" where
  "as_string (JString s) old = Some s"
| "as_string JNull old = Some old"
| "as_string _ old = None"

fun as_int :: "json \<Rightarrow> int \<Rightarrow> int option" where
  "as_int (JNumber n) old = ParseInt n"
| "as_int JNull old = Some old"
| "as_int _ old = None"

fun as_int_ptr :: "json \<Rightarrow> int option option" where
  "as_int_ptr (JNumber n) = map_option Some (ParseInt n)"
| "as_int_ptr JNull = Some None"
| "as_int_ptr _ = None"

fun decode_all :: "('a \<Rightarrow> 'b option) \<Rightarrow> 'a list \<Rightarrow> 'b list option" where
  "decode_all f [] = Some []"
| "decode_all f (x # xs) = (case f x of
      None \<Rightarrow> None
    | Some y \<Rightarrow> map_option (\<lambda>ys. y # ys) (decode_all f xs))"

fun as_slice :: "(json \<Rightarrow> 'a option) \<Rightarrow> json \<Rightarrow> 'a slice option" where
  "as_slice f (JArray xs) = map_option Some (decode_all f xs)"
| "as_slice f JNull = Some None"
| "as_slice f _ = None"

definition as_strings :: "json \<Rightarrow> string slice option" where
  "as_strings j = as_slice (\<lambda>x. as_string x []) j"

definition as_ints :: "json \<Rightarrow> int slice option" where
  "as_ints j = as_slice (\<lambda>x. as_int x 0) j"

definition as_tags :: "json \<Rightarrow> string slice slice option" where
  "as_tags j = as_slice as_strings j"

section \<open>Events\<close>

definition zero_event :: event where
  "zero_event = \<lparr>ID = [], PubKey = [], CreatedAt = 0, Kind = 0, Tags = None, Content = [], Sig = []\<rparr>"

definition event_member :: "unicode \<Rightarrow> string \<Rightarrow> json \<Rightarrow> event \<Rightarrow> event option" where
  "event_member U key v e =
    (if name_is U key ''id'' then map_option (\<lambda>x. e\<lparr>ID := x\<rparr>) (as_string v (ID e))
     else if name_is U key ''pubkey'' then map_option (\<lambda>x. e\<lparr>PubKey := x\<rparr>) (as_string v (PubKey e))
     else if name_is U key ''created_at'' then map_option (\<lambda>x. e\<lparr>CreatedAt := x\<rparr>) (as_int v (CreatedAt e))
     else if name_is U key ''kind'' then map_option (\<lambda>x. e\<lparr>Kind := x\<rparr>) (as_int v (Kind e))
     else if name_is U key ''tags'' then map_option (\<lambda>x. e\<lparr>Tags := x\<rparr>) (as_tags v)
     else if name_is U key ''content'' then map_option (\<lambda>x. e\<lparr>Content := x\<rparr>) (as_string v (Content e))
     else if name_is U key ''sig'' then map_option (\<lambda>x. e\<lparr>Sig := x\<rparr>) (as_string v (Sig e))
     else Some e)"

fun members :: "(string \<Rightarrow> json \<Rightarrow> 'a \<Rightarrow> 'a option) \<Rightarrow> (string \<times> json) list \<Rightarrow> 'a \<Rightarrow> 'a option" where
  "members f [] x = Some x"
| "members f ((k, v) # kvs) x = (case f k v x of None \<Rightarrow> None | Some y \<Rightarrow> members f kvs y)"

fun as_struct :: "(string \<Rightarrow> json \<Rightarrow> 'a \<Rightarrow> 'a option) \<Rightarrow> 'a \<Rightarrow> json \<Rightarrow> 'a option" where
  "as_struct f x (JObject kvs) = members f kvs x"
| "as_struct f x JNull = Some x"
| "as_struct f x _ = None"

definition as_event :: "unicode \<Rightarrow> json \<Rightarrow> event option" where
  "as_event U j = as_struct (event_member U) zero_event j"

text \<open>The two partial structs of the authentication gate.\<close>

definition as_kind :: "unicode \<Rightarrow> json \<Rightarrow> int option" where
  "as_kind U j = as_struct (\<lambda>key v x. if name_is U key ''kind'' then as_int v x else Some x) 0 j"

definition as_id :: "unicode \<Rightarrow> json \<Rightarrow> string option" where
  "as_id U j = as_struct (\<lambda>key v x. if name_is U key ''id'' then as_string v x else Some x) [] j"

section \<open>Filters\<close>

definition zero_filter :: filt where
  "zero_filter = \<lparr>IDs = None, Authors = None, Kinds = None, FTags = [], Since = None, Until = None,
     Limit = None, Search = []\<rparr>"

text \<open>The field \<^verbatim>\<open>Tags\<close> has no JSON name of its own, so a member called "tags" decodes into it.\<close>

fun as_tag_map :: "json \<Rightarrow> (string, string slice) gomap \<Rightarrow> (string, string slice) gomap option" where
  "as_tag_map (JObject kvs) m =
     members (\<lambda>key v m. map_option (\<lambda>x. mput key x m) (as_strings v)) kvs m"
| "as_tag_map JNull m = Some []"
| "as_tag_map _ m = None"

definition filter_member :: "unicode \<Rightarrow> string \<Rightarrow> json \<Rightarrow> filt \<Rightarrow> filt option" where
  "filter_member U key v f =
    (if name_is U key ''ids'' then map_option (\<lambda>x. f\<lparr>IDs := x\<rparr>) (as_strings v)
     else if name_is U key ''authors'' then map_option (\<lambda>x. f\<lparr>Authors := x\<rparr>) (as_strings v)
     else if name_is U key ''kinds'' then map_option (\<lambda>x. f\<lparr>Kinds := x\<rparr>) (as_ints v)
     else if name_is U key ''Tags'' then map_option (\<lambda>x. f\<lparr>FTags := x\<rparr>) (as_tag_map v (FTags f))
     else if name_is U key ''since'' then map_option (\<lambda>x. f\<lparr>Since := x\<rparr>) (as_int_ptr v)
     else if name_is U key ''until'' then map_option (\<lambda>x. f\<lparr>Until := x\<rparr>) (as_int_ptr v)
     else if name_is U key ''limit'' then map_option (\<lambda>x. f\<lparr>Limit := x\<rparr>) (as_int_ptr v)
     else if name_is U key ''search'' then map_option (\<lambda>x. f\<lparr>Search := x\<rparr>) (as_string v (Search f))
     else Some f)"

text \<open>\<^verbatim>\<open>map[string]json.RawMessage\<close>: of repeated members the last remains.\<close>

fun as_raw_map :: "json \<Rightarrow> (string, json) gomap option" where
  "as_raw_map (JObject kvs) = Some (foldl (\<lambda>m (k, v). mput k v m) [] kvs)"
| "as_raw_map JNull = Some []"
| "as_raw_map _ = None"

fun tag_members :: "(string \<times> json) list \<Rightarrow> (string, string slice) gomap \<Rightarrow> (string, string slice) gomap option" where
  "tag_members [] m = Some m"
| "tag_members ((key, v) # kvs) m =
     (if 1 < length key \<and> hd key = CHR ''#'' then
        (case as_strings v of None \<Rightarrow> None | Some tagValues \<Rightarrow> tag_members kvs (mput (tl key) tagValues m))
      else tag_members kvs m)"

text \<open>The loop over the raw map visits its members in any order; they have distinct keys, so the
  resulting map and whether it fails do not depend on it, and the definition takes them in place.\<close>

definition UnmarshalJSON :: "unicode \<Rightarrow> json \<Rightarrow> filt option" where
  "UnmarshalJSON U j =
    (case as_struct (filter_member U) zero_filter j of
       None \<Rightarrow> None
     | Some f \<Rightarrow> (case as_raw_map j of
         None \<Rightarrow> None
       | Some m \<Rightarrow> map_option (\<lambda>ts. f\<lparr>FTags := ts\<rparr>) (tag_members m (FTags f))))"

lemma tag_members_get:
  assumes "wf_map kvs" "tag_members kvs m = Some m'"
  shows "mget m' n = (case (if n = [] then None else mget kvs (CHR ''#'' # n)) of
      Some v \<Rightarrow> as_strings v | None \<Rightarrow> mget m n)"
  using assms
proof (induction kvs m rule: tag_members.induct)
  case (2 key v kvs m)
  have w: "wf_map kvs" and fresh: "mget kvs key = None"
    using 2(3) by (auto simp: wf_map_def mget_None_iff)
  have step: "mget ((key, v) # kvs) k = (if k = key then Some v else mget kvs k)" for k
    by (simp add: mget_def)
  show ?case
  proof (cases "1 < length key \<and> hd key = CHR ''#''")
    case True
    then obtain x where x: "as_strings v = Some x" "tag_members kvs (mput (tl key) x m) = Some m'"
      using 2(4) by (auto split: option.splits)
    have key: "key = CHR ''#'' # tl key" "tl key \<noteq> []"
      using True by (cases key; auto)+
    from 2(1) [OF True x(1) w x(2)] show ?thesis
      using key fresh x(1) by (cases "n = tl key") (auto simp: step mget_mput split: option.splits)
  next
    case False
    then have "tag_members kvs m = Some m'" using 2(4) by (simp split: if_splits)
    moreover have "n \<noteq> [] \<Longrightarrow> key \<noteq> CHR ''#'' # n" using False by auto
    ultimately show ?thesis using 2(2) [OF False w] by (auto simp: step)
  qed
qed simp

lemma raw_map_wf: "as_raw_map j = Some m \<Longrightarrow> wf_map m"
proof (induction j rule: as_raw_map.induct)
  case (1 kvs)
  have "wf_map m0 \<Longrightarrow> wf_map (foldl (\<lambda>m (k, v). mput k v m) m0 kvs)" for m0 :: "(string, json) gomap"
    by (induction kvs arbitrary: m0) (auto split: prod.splits)
  then show ?case using 1 by auto
qed auto

lemma members_other:
  assumes "\<And>k v x y. (k, v) \<in> set kvs \<Longrightarrow> f k v x = Some y \<Longrightarrow> g y = g x" "members f kvs x = Some y"
  shows "g y = g x"
  using assms
proof (induction kvs arbitrary: x)
  case (Cons kv kvs)
  obtain k v where kv: "kv = (k, v)" by (cases kv)
  then obtain z where z: "f k v x = Some z" "members f kvs z = Some y"
    using Cons.prems(2) by (auto split: option.splits)
  have "g y = g z"
    by (rule Cons.IH [OF _ z(2)]) (use Cons.prems(1) in auto)
  then show ?case using Cons.prems(1) [of k v x z] kv z(1) by simp
qed simp

lemma raw_map_get:
  "mget (foldl (\<lambda>m (k, v). mput k v m) m0 kvs) k =
    (case map_of (rev kvs) k of Some v \<Rightarrow> Some v | None \<Rightarrow> mget m0 k)"
  by (induction kvs arbitrary: m0) (auto simp: mget_mput map_add_def split: option.splits)

text \<open>In a decoded filter the values of tag \<open>n\<close> are those of the last member "#n", read as a list of
  strings; a null there is an empty list, which no event can satisfy; and a filter without such a
  member does not constrain the tag. (This is for objects without a member called "tags", which the
  decoder would take for the tag map itself.)\<close>

theorem UnmarshalJSON_tags:
  assumes "UnmarshalJSON U (JObject kvs) = Some f"
    and no_tags: "\<forall>(k, v) \<in> set kvs. \<not> name_is U k ''Tags''" and "n \<noteq> []"
  shows "mget (FTags f) n = (case map_of (rev kvs) (CHR ''#'' # n) of Some v \<Rightarrow> as_strings v | None \<Rightarrow> None)"
proof -
  obtain f0 m where f0: "members (filter_member U) kvs zero_filter = Some f0"
    and m: "as_raw_map (JObject kvs) = Some m" and t: "tag_members m (FTags f0) = Some (FTags f)"
    using assms(1) by (auto simp: UnmarshalJSON_def split: option.splits)
  have "FTags f0 = FTags zero_filter"
  proof (rule members_other [OF _ f0])
    fix k v x y
    assume "(k, v) \<in> set kvs" and y: "filter_member U k v x = Some y"
    then have "\<not> name_is U k ''Tags''" using no_tags by auto
    then show "FTags y = FTags x"
      using y by (auto simp: filter_member_def split: if_splits)
  qed
  then have e: "FTags f0 = []" by (simp add: zero_filter_def)
  have "mget m k = map_of (rev kvs) k" for k
    using m raw_map_get [of "[]" kvs k] by (auto split: option.splits)
  then show ?thesis
    using tag_members_get [OF raw_map_wf [OF m] t, of n] assms(3) e by (simp split: option.splits)
qed

definition plain_case :: unicode where
  "plain_case = \<lparr>uc_lower = (\<lambda>r. r), uc_fold = (\<lambda>r. r), uc_print = (\<lambda>r. False)\<rparr>"

lemma ascii_decode_length: "ascii s \<Longrightarrow> length (utf8_decode s) = length s"
  by (induction s) (simp_all add: ascii_def utf8_first_def Let_def)

lemma name_is_length: "name_is U k n \<Longrightarrow> ascii k \<Longrightarrow> ascii n \<Longrightarrow> length k = length n"
  unfolding name_is_def EqualFold_def by (metis ascii_decode_length length_map)

lemma UnmarshalJSON_tags_witness:
  "\<exists>f. UnmarshalJSON plain_case (JObject [(''#p'', JArray [JString ''aa'', JNull])]) = Some f
    \<and> mget (FTags f) ''p'' = Some (Some [''aa'', ''''])"
proof -
  have n: "\<not> name_is plain_case ''#p'' n" if "ascii n" "length n \<noteq> 2" for n
    using name_is_length [OF _ _ that(1), of plain_case "''#p''"] that(2) by (auto simp: ascii_def)
  have names: "ascii ''Tags''" "ascii ''ids''" "ascii ''authors''" "ascii ''kinds''" "ascii ''since''"
    "ascii ''until''" "ascii ''limit''" "ascii ''search''"
    by (simp_all add: ascii_def)
  let ?j = "JObject [(''#p'', JArray [JString ''aa'', JNull])]"
  have m: "filter_member plain_case ''#p'' v f = Some f" for v f
    using n names by (simp add: filter_member_def)
  have "as_struct (filter_member plain_case) zero_filter ?j = Some zero_filter"
    by (simp add: m)
  moreover have "as_raw_map ?j = Some [(''#p'', JArray [JString ''aa'', JNull])]"
    by (simp add: mput_def)
  ultimately obtain f where f: "UnmarshalJSON plain_case ?j = Some f"
    by (simp add: UnmarshalJSON_def as_strings_def)
  have "\<forall>(k, v) \<in> set [(''#p'', JArray [JString ''aa'', JNull])]. \<not> name_is plain_case k ''Tags''"
    using n names by simp
  from UnmarshalJSON_tags [OF f this, of "''p''"]
  have "mget (FTags f) ''p'' = Some (Some [''aa'', ''''])"
    by (simp add: as_strings_def)
  with f show ?thesis by blast
qed

end
