(* ===== verification/Protocol.thy ===== *)
theory Protocol
  imports Decode
begin

text \<open>
  A client connection, \<^verbatim>\<open>pkg/protocol/protocol.go\<close>: the \<open>client\<close> record is the struct, \<open>sent\<close> the
  messages accepted by its send channel in order. \<open>handleMessage\<close> takes the message as a JSON value
  or a syntax error; an element is decoded by the theory \<open>Decode\<close>.

  The \<^verbatim>\<open>Handler\<close> interface and the rate-limit callback are a record of functions over a world \<open>'w\<close>
  that holds the client; the locale \<open>handler\<close> says what they may do to it. From it: at most 20
  subscriptions, the authentication gate, and that closing is always possible. A send here
  never waits (waiting on a full channel is the subject of \<open>Pumps\<close>); a closed client drops what is sent
  to it.
\<close>

section \<open>Messages to the client\<close>

datatype msg =
    MEvent string event
  | MEOSE string
  | MOK string bool string
  | MNotice string
  | MAuth string
  | MCount string int bool
  | MClosed string string

definition event_json :: "event \<Rightarrow> string" where
  "event_json e =
    ''{'' @ Join [json_quote ''id'' @ '':'' @ json_quote (ID e),
       json_quote ''pubkey'' @ '':'' @ json_quote (PubKey e),
       json_quote ''created_at'' @ '':'' @ show_int (CreatedAt e),
       json_quote ''kind'' @ '':'' @ show_int (Kind e),
       json_quote ''tags'' @ '':'' @ marshal_slice (marshal_slice json_quote) (Tags e),
       json_quote ''content'' @ '':'' @ json_quote (Content e),
       json_quote ''sig'' @ '':'' @ json_quote (Sig e)] '','' @ ''}''"

definition bool_json :: "bool \<Rightarrow> string" where
  "bool_json b = (if b then ''true'' else ''false'')"

definition arr :: "string list \<Rightarrow> string" where
  "arr xs = ''['' @ Join xs '','' @ '']''"

text \<open>The bytes put on the channel.\<close>

fun encode_msg :: "msg \<Rightarrow> string" where
  "encode_msg (MEvent sub e) = arr [json_quote ''EVENT'', json_quote sub, event_json e]"
| "encode_msg (MEOSE sub) = arr [json_quote ''EOSE'', json_quote sub]"
| "encode_msg (MOK i b m) = arr [json_quote ''OK'', json_quote i, bool_json b, json_quote m]"
| "encode_msg (MNotice m) = arr [json_quote ''NOTICE'', json_quote m]"
| "encode_msg (MAuth ch) = arr [json_quote ''AUTH'', json_quote ch]"
| "encode_msg (MCount i n approximate) = arr [json_quote ''COUNT'', json_quote i,
     ''{'' @ Join ((if approximate then [json_quote ''approximate'' @ '':true''] else [])
       @ [json_quote ''count'' @ '':'' @ show_int n]) '','' @ ''}'']"
| "encode_msg (MClosed i m) = arr [json_quote ''CLOSED'', json_quote i, json_quote m]"

section \<open>The client\<close>

record client =
  subscriptions :: "(string, filt list) gomap"
  sent :: "msg list"
  closed :: bool
  realIP :: string
  rateLimited :: bool
  requireAuth :: bool
  authenticated :: bool
  authChallenge :: string
  authPubKey :: string

definition MaxSubscriptionsPerClient :: nat where
  "MaxSubscriptionsPerClient = 20"

definition NewClient :: "string \<Rightarrow> client" where
  "NewClient ip = \<lparr>subscriptions = [], sent = [], closed = False, realIP = ip, rateLimited = False,
     requireAuth = False, authenticated = False, authChallenge = [], authPubKey = []\<rparr>"

definition SetRateLimit :: "client \<Rightarrow> client" where
  "SetRateLimit c = c\<lparr>rateLimited := True\<rparr>"

text \<open>\<open>rnd\<close>: the 16 random bytes.\<close>

definition SetRequireAuth :: "string \<Rightarrow> client \<Rightarrow> client" where
  "SetRequireAuth rnd c = c\<lparr>requireAuth := True, authChallenge := EncodeToString rnd\<rparr>"

definition send :: "msg \<Rightarrow> client \<Rightarrow> client \<times> error option" where
  "send m c = (if closed c then (c, Errorf ''client closed'') else (c\<lparr>sent := sent c @ [m]\<rparr>, None))"

definition SendAuth :: "client \<Rightarrow> client \<times> error option" where
  "SendAuth c = send (MAuth (authChallenge c)) c"

definition SendEvent :: "string \<Rightarrow> event \<Rightarrow> client \<Rightarrow> client \<times> error option" where
  "SendEvent sub e c = send (MEvent sub e) c"

definition SendEOSE :: "string \<Rightarrow> client \<Rightarrow> client \<times> error option" where
  "SendEOSE sub c = send (MEOSE sub) c"

definition SendOK :: "string \<Rightarrow> bool \<Rightarrow> string \<Rightarrow> client \<Rightarrow> client \<times> error option" where
  "SendOK i accepted m c = send (MOK i accepted m) c"

definition SendNotice :: "string \<Rightarrow> client \<Rightarrow> client \<times> error option" where
  "SendNotice m c = send (MNotice m) c"

definition SendCount :: "string \<Rightarrow> int \<Rightarrow> bool \<Rightarrow> client \<Rightarrow> client \<times> error option" where
  "SendCount i n approximate c = send (MCount i n approximate) c"

definition SendClosed :: "string \<Rightarrow> string \<Rightarrow> client \<Rightarrow> client \<times> error option" where
  "SendClosed i reason c = send (MClosed i reason) c"

lemmas send_defs = SendAuth_def SendEvent_def SendEOSE_def SendOK_def SendNotice_def SendCount_def SendClosed_def

definition Authenticate :: "string \<Rightarrow> client \<Rightarrow> client" where
  "Authenticate pk c = c\<lparr>authenticated := True, authPubKey := pk\<rparr>"

definition RemoveSubscription :: "string \<Rightarrow> client \<Rightarrow> client" where
  "RemoveSubscription sub c = c\<lparr>subscriptions := mdel sub (subscriptions c)\<rparr>"

definition Close_client :: "client \<Rightarrow> client" where
  "Close_client c = c\<lparr>closed := True\<rparr>"

definition GetSubscriptions :: "client \<Rightarrow> (string, filt list) gomap" where
  "GetSubscriptions c = subscriptions c"

definition HasSubscriptionToPubKey :: "client \<Rightarrow> string \<Rightarrow> bool" where
  "HasSubscriptionToPubKey c pubKey =
     list_ex (\<lambda>(sub, fs). list_ex (\<lambda>f. case mget (FTags f) ''p'' of
        Some pTags \<Rightarrow> list_ex (\<lambda>p. p = pubKey) (elems pTags) | None \<Rightarrow> False) fs) (subscriptions c)"

section \<open>Handling a message\<close>

text \<open>The handler's operations. \<open>Ok ()\<close> is a nil error; a panic ends the process.\<close>

record 'w handler =
  the_client :: "'w \<Rightarrow> client"
  on_client :: "(client \<Rightarrow> client) \<Rightarrow> 'w \<Rightarrow> 'w"
  rateLimit :: "string \<Rightarrow> string \<Rightarrow> 'w \<Rightarrow> 'w \<times> string"
  do_event :: "event \<Rightarrow> 'w \<Rightarrow> 'w \<times> unit outcome"
  do_req :: "string \<Rightarrow> filt list \<Rightarrow> 'w \<Rightarrow> 'w \<times> unit outcome"
  do_close :: "string \<Rightarrow> 'w \<Rightarrow> 'w \<times> unit outcome"
  do_count :: "string \<Rightarrow> filt list \<Rightarrow> 'w \<Rightarrow> 'w \<times> unit outcome"

text \<open>What the connection needs besides its handler: the libraries, and the text of the JSON
  decoder's error for a value.\<close>

record ('pk, 'sg) codec =
  cd_unicode :: unicode
  cd_crypto :: "('pk, 'sg) crypto"
  cd_error :: "json \<Rightarrow> error"

abbreviation tell :: "'w handler \<Rightarrow> (client \<Rightarrow> client \<times> error option) \<Rightarrow> 'w \<Rightarrow> 'w" where
  "tell H f w \<equiv> on_client H (\<lambda>c. fst (f c)) w"

abbreviation failure :: "string \<Rightarrow> unit outcome" where
  "failure s \<equiv> Err (ErrorString s)"

definition handleEventMessage :: "('pk, 'sg) codec \<Rightarrow> 'w handler \<Rightarrow> json list \<Rightarrow> 'w \<Rightarrow> 'w \<times> unit outcome" where
  "handleEventMessage D H raw w =
    (if length raw \<noteq> 2 then (w, failure ''EVENT message must have 2 elements'')
     else (case as_event (cd_unicode D) (raw ! 1) of
       None \<Rightarrow> (w, Err (wrap_err ''invalid event: '' (cd_error D (raw ! 1))))
     | Some evt \<Rightarrow>
       (case Validate (cd_crypto D) evt of
          Some err \<Rightarrow> (tell H (SendOK (ID evt) False (''invalid: '' @ Error err)) w, Ok ())
        | None \<Rightarrow>
          (case do_event H evt w of
             (w', Err err) \<Rightarrow> (tell H (SendOK (ID evt) False (''error: '' @ Error err)) w', Ok ())
           | (w', Panic) \<Rightarrow> (w', Panic)
           | (w', Ok _) \<Rightarrow> (tell H (SendOK (ID evt) True []) w', Ok ())))))"

definition parse_filters :: "('pk, 'sg) codec \<Rightarrow> json list \<Rightarrow> json + filt list" where
  "parse_filters D js =
    (case find (\<lambda>j. UnmarshalJSON (cd_unicode D) j = None) js of
       Some j \<Rightarrow> Inl j
     | None \<Rightarrow> Inr (map (\<lambda>j. the (UnmarshalJSON (cd_unicode D) j)) js))"

definition handleReqMessage :: "('pk, 'sg) codec \<Rightarrow> 'w handler \<Rightarrow> json list \<Rightarrow> 'w \<Rightarrow> 'w \<times> unit outcome" where
  "handleReqMessage D H raw w =
    (if length raw < 2 then (w, failure ''REQ message must have at least 2 elements'')
     else (case as_string (raw ! 1) [] of
       None \<Rightarrow> (w, Err (wrap_err ''invalid subscription ID: '' (cd_error D (raw ! 1))))
     | Some subID \<Rightarrow>
         let subs = subscriptions (the_client H w) in
         if mget subs subID = None \<and> mlen subs \<ge> MaxSubscriptionsPerClient
         then (tell H (SendClosed subID ''rate-limited: too many concurrent subscriptions'') w, Ok ())
         else (case parse_filters D (drop 2 raw) of
           Inl j \<Rightarrow> (w, Err (wrap_err ''invalid filter: '' (cd_error D j)))
         | Inr filters \<Rightarrow>
             do_req H subID filters
               (on_client H (\<lambda>c. c\<lparr>subscriptions := mput subID filters (subscriptions c)\<rparr>) w))))"

definition handleCloseMessage :: "('pk, 'sg) codec \<Rightarrow> 'w handler \<Rightarrow> json list \<Rightarrow> 'w \<Rightarrow> 'w \<times> unit outcome" where
  "handleCloseMessage D H raw w =
    (if length raw \<noteq> 2 then (w, failure ''CLOSE message must have 2 elements'')
     else (case as_string (raw ! 1) [] of
       None \<Rightarrow> (w, Err (wrap_err ''invalid subscription ID: '' (cd_error D (raw ! 1))))
     | Some subID \<Rightarrow> do_close H subID w))"

definition handleCountMessage :: "('pk, 'sg) codec \<Rightarrow> 'w handler \<Rightarrow> json list \<Rightarrow> 'w \<Rightarrow> 'w \<times> unit outcome" where
  "handleCountMessage D H raw w =
    (if length raw < 3 then (w, failure ''COUNT message must have at least 3 elements'')
     else (case as_string (raw ! 1) [] of
       None \<Rightarrow> (w, Err (wrap_err ''invalid count ID: '' (cd_error D (raw ! 1))))
     | Some countID \<Rightarrow>
         (case parse_filters D (drop 2 raw) of
            Inl j \<Rightarrow> (w, Err (wrap_err ''invalid filter: '' (cd_error D j)))
          | Inr filters \<Rightarrow> do_count H countID filters w)))"

text \<open>The gate: is the message let through without authentication?\<close>

definition auth_event :: "('pk, 'sg) codec \<Rightarrow> string \<Rightarrow> json list \<Rightarrow> bool" where
  "auth_event D msgType raw \<longleftrightarrow>
     msgType = ''EVENT'' \<and> 2 \<le> length raw \<and> as_kind (cd_unicode D) (raw ! 1) = Some 22242"

definition auth_required :: string where
  "auth_required = ''auth-required: this relay requires NIP-42 authentication''"

text \<open>The refusal sent at the gate: CLOSED, OK or a notice.\<close>

definition refusal :: "('pk, 'sg) codec \<Rightarrow> string \<Rightarrow> json list \<Rightarrow> msg" where
  "refusal D msgType raw =
    (case (if (msgType = ''REQ'' \<or> msgType = ''COUNT'') \<and> 2 \<le> length raw then as_string (raw ! 1) [] else None) of
       Some subID \<Rightarrow> MClosed subID auth_required
     | None \<Rightarrow>
       (case (if msgType = ''EVENT'' \<and> 2 \<le> length raw then as_id (cd_unicode D) (raw ! 1) else None) of
          Some i \<Rightarrow> MOK i False auth_required
        | None \<Rightarrow> MNotice auth_required))"

definition limit_refusal :: "string \<Rightarrow> json list \<Rightarrow> string \<Rightarrow> msg" where
  "limit_refusal msgType raw reason =
    (case (if (msgType = ''REQ'' \<or> msgType = ''COUNT'') \<and> 2 \<le> length raw then as_string (raw ! 1) [] else None) of
       Some subID \<Rightarrow> MClosed subID reason
     | None \<Rightarrow> MNotice reason)"

definition dispatch :: "('pk, 'sg) codec \<Rightarrow> 'w handler \<Rightarrow> string \<Rightarrow> json list \<Rightarrow> 'w \<Rightarrow> 'w \<times> unit outcome" where
  "dispatch D H msgType raw w =
    (if msgType = ''EVENT'' then handleEventMessage D H raw w
     else if msgType = ''REQ'' then handleReqMessage D H raw w
     else if msgType = ''CLOSE'' then handleCloseMessage D H raw w
     else if msgType = ''COUNT'' then handleCountMessage D H raw w
     else (w, failure (''unknown message type: '' @ msgType)))"

text \<open>A message whose type has been read.\<close>

definition typed_message ::
  "('pk, 'sg) codec \<Rightarrow> 'w handler \<Rightarrow> string \<Rightarrow> json list \<Rightarrow> 'w \<Rightarrow> 'w \<times> unit outcome" where
  "typed_message D H msgType raw w =
    (let c = the_client H w in
     if requireAuth c \<and> \<not> authenticated c \<and> msgType \<noteq> ''CLOSE'' \<and> \<not> auth_event D msgType raw
     then (tell H (send (refusal D msgType raw)) w, Ok ())
     else if msgType \<noteq> ''CLOSE'' \<and> rateLimited c then
       (case rateLimit H (realIP c) (authPubKey c) w of
          (w', reason) \<Rightarrow>
            if reason \<noteq> [] then (tell H (send (limit_refusal msgType raw reason)) w', Ok ())
            else dispatch D H msgType raw w')
     else dispatch D H msgType raw w)"

definition handleMessage ::
  "('pk, 'sg) codec \<Rightarrow> 'w handler \<Rightarrow> error + json \<Rightarrow> 'w \<Rightarrow> 'w \<times> unit outcome" where
  "handleMessage D H message w =
    (case (case message of
         Inl err \<Rightarrow> Inl err
       | Inr (JArray js) \<Rightarrow> Inr js
       | Inr JNull \<Rightarrow> Inr []
       | Inr j \<Rightarrow> Inl (cd_error D j)) of
       Inl err \<Rightarrow> (w, Err (wrap_err ''invalid JSON: '' err))
     | Inr raw \<Rightarrow>
       if length raw = 0 then (w, failure ''empty message'')
       else (case as_string (raw ! 0) [] of
         None \<Rightarrow> (w, Err (wrap_err ''invalid message type: '' (cd_error D (raw ! 0))))
       | Some msgType \<Rightarrow> typed_message D H msgType raw w))"

text \<open>One round of \<^verbatim>\<open>readPump\<close>: an error is reported to the client as a notice.\<close>

definition read_one :: "('pk, 'sg) codec \<Rightarrow> 'w handler \<Rightarrow> error + json \<Rightarrow> 'w \<Rightarrow> 'w \<times> unit outcome" where
  "read_one D H message w =
    (case handleMessage D H message w of
       (w', Err err) \<Rightarrow> (tell H (SendNotice (''error: '' @ Error err)) w', Ok ())
     | r \<Rightarrow> r)"

section \<open>What a message may do\<close>

text \<open>A property of the world survives a message when it survives what the message is made of: replies
  that carry no event or count, the rate-limit call, a new subscription where there is room, and the handler's
  operations, \<open>do_event\<close> on a validated event only, \<open>do_req\<close> and \<open>do_count\<close> behind the gate only.\<close>

definition let_in :: "client \<Rightarrow> bool" where
  "let_in c \<longleftrightarrow> \<not> requireAuth c \<or> authenticated c"

fun quiet :: "msg \<Rightarrow> bool" where
  "quiet (MEvent i e) = False"
| "quiet (MCount i n b) = False"
| "quiet _ = True"

lemma refusal_quiet [simp]: "quiet (refusal D t raw)" "quiet (limit_refusal t raw reason)"
  by (simp_all add: refusal_def limit_refusal_def split: option.split)

definition kept :: "('pk, 'sg) codec \<Rightarrow> 'w handler \<Rightarrow> ('w \<Rightarrow> bool) \<Rightarrow> bool" where
  "kept D H I \<longleftrightarrow>
    (\<forall>m w. quiet m \<longrightarrow> I w \<longrightarrow> I (on_client H (\<lambda>c. fst (send m c)) w)) \<and>
    (\<forall>ip pk w. I w \<longrightarrow> I (fst (rateLimit H ip pk w)) \<and>
       the_client H (fst (rateLimit H ip pk w)) = the_client H w) \<and>
    (\<forall>e w. Validate (cd_crypto D) e = None \<longrightarrow> I w \<longrightarrow> I (fst (do_event H e w))) \<and>
    (\<forall>i fs w. I w \<longrightarrow> let_in (the_client H w) \<longrightarrow>
       \<not> (mget (subscriptions (the_client H w)) i = None \<and>
          mlen (subscriptions (the_client H w)) \<ge> MaxSubscriptionsPerClient) \<longrightarrow>
       I (fst (do_req H i fs (on_client H (\<lambda>c. c\<lparr>subscriptions := mput i fs (subscriptions c)\<rparr>) w)))) \<and>
    (\<forall>i w. I w \<longrightarrow> I (fst (do_close H i w))) \<and>
    (\<forall>i fs w. I w \<longrightarrow> let_in (the_client H w) \<longrightarrow> I (fst (do_count H i fs w)))"

lemma keptD:
  assumes "kept D H I" "I w"
  shows "quiet m \<Longrightarrow> I (on_client H (\<lambda>c. fst (send m c)) w)"
    "I (fst (rateLimit H ip pk w))" "the_client H (fst (rateLimit H ip pk w)) = the_client H w"
    "Validate (cd_crypto D) e = None \<Longrightarrow> I (fst (do_event H e w))"
    "let_in (the_client H w) \<Longrightarrow> \<not> (mget (subscriptions (the_client H w)) i = None \<and>
        mlen (subscriptions (the_client H w)) \<ge> MaxSubscriptionsPerClient) \<Longrightarrow>
      I (fst (do_req H i fs (on_client H (\<lambda>c. c\<lparr>subscriptions := mput i fs (subscriptions c)\<rparr>) w)))"
    "I (fst (do_close H i w))" "let_in (the_client H w) \<Longrightarrow> I (fst (do_count H i fs w))"
  using assms unfolding kept_def by blast+

lemma handleEvent_kept:
  assumes "kept D H I" "I w"
  shows "I (fst (handleEventMessage D H raw w))"
proof (cases "length raw \<noteq> 2 \<or> as_event (cd_unicode D) (raw ! 1) = None")
  case True
  then show ?thesis using assms by (auto simp: handleEventMessage_def)
next
  case False
  then obtain e where e: "length raw = 2" "as_event (cd_unicode D) (raw ! 1) = Some e" by auto
  show ?thesis
  proof (cases "Validate (cd_crypto D) e")
    case (Some err)
    then show ?thesis
      using e keptD(1) [OF assms] by (simp add: handleEventMessage_def SendOK_def del: append.simps)
  next
    case None
    note k = keptD(4) [OF assms None]
    obtain v r where v: "do_event H e w = (v, r)" by (cases "do_event H e w")
    then have "I v" using k by simp
    from keptD(1) [OF assms(1) this] \<open>I v\<close> show ?thesis
      using e None v by (cases r) (simp_all add: handleEventMessage_def SendOK_def del: append.simps)
  qed
qed

lemma handleReq_kept:
  assumes "kept D H I" "I w" "let_in (the_client H w)"
  shows "I (fst (handleReqMessage D H raw w))"
proof (cases "length raw < 2 \<or> as_string (raw ! 1) [] = None")
  case True
  then show ?thesis using assms by (auto simp: handleReqMessage_def)
next
  case False
  then obtain i where i: "\<not> length raw < 2" "as_string (raw ! 1) [] = Some i" by auto
  let ?full = "mget (subscriptions (the_client H w)) i = None \<and>
    MaxSubscriptionsPerClient \<le> mlen (subscriptions (the_client H w))"
  show ?thesis
  proof (cases ?full)
    case True
    then show ?thesis
      using i keptD(1) [OF assms(1,2)] by (simp add: handleReqMessage_def Let_def SendClosed_def)
  next
    case room: False
    show ?thesis
      unfolding handleReqMessage_def Let_def if_not_P [OF i(1)] i(2) option.case if_not_P [OF room]
      using assms(2) keptD(5) [OF assms room] by (cases "parse_filters D (drop 2 raw)") simp_all
  qed
qed

lemma dispatch_kept:
  assumes "kept D H I" "I w" "t = ''REQ'' \<or> t = ''COUNT'' \<Longrightarrow> let_in (the_client H w)"
  shows "I (fst (dispatch D H t raw w))"
proof -
  have "I (fst (handleCloseMessage D H raw w))"
    using assms(2) keptD(6) [OF assms(1,2)] by (simp add: handleCloseMessage_def split: option.split)
  moreover have "I (fst (handleCountMessage D H raw w))" if "t = ''COUNT''"
    using assms(2) keptD(7) [OF assms(1,2)] assms(3) that
    by (simp add: handleCountMessage_def split: option.split sum.split)
  ultimately show ?thesis
    using handleEvent_kept [OF assms(1,2)] handleReq_kept [OF assms(1,2)] assms(2,3)
    by (simp add: dispatch_def)
qed

lemma handleMessage_cases:
  "(\<exists>err. handleMessage D H message w = (w, Err err)) \<or>
   (\<exists>raw t. message = Inr (JArray raw) \<and> raw \<noteq> [] \<and> as_string (raw ! 0) [] = Some t \<and>
      handleMessage D H message w = typed_message D H t raw w)"
proof (cases "\<exists>raw. message = Inr (JArray raw) \<and> raw \<noteq> []")
  case False
  then have "\<exists>err. handleMessage D H message w = (w, Err err)"
    by (cases message; cases "projr message") (simp_all add: handleMessage_def)
  then show ?thesis ..
next
  case True
  then obtain raw where m: "message = Inr (JArray raw)" "raw \<noteq> []" by blast
  show ?thesis
  proof (cases "as_string (raw ! 0) []")
    case None
    then have "\<exists>err. handleMessage D H message w = (w, Err err)"
      using m by (simp add: handleMessage_def)
    then show ?thesis ..
  next
    case (Some t)
    then have "handleMessage D H message w = typed_message D H t raw w"
      using m by (simp add: handleMessage_def)
    then show ?thesis using m Some by blast
  qed
qed

lemma typed_message_kept:
  assumes "kept D H I" "I w"
  shows "I (fst (typed_message D H t raw w))"
proof (cases "requireAuth (the_client H w) \<and> \<not> authenticated (the_client H w) \<and> t \<noteq> ''CLOSE'' \<and> \<not> auth_event D t raw")
  case True
  then show ?thesis using keptD(1) [OF assms] by (simp add: typed_message_def Let_def)
next
  case False
  then have l: "let_in (the_client H w)" if "t = ''REQ'' \<or> t = ''COUNT''"
    using that by (auto simp: let_in_def auth_event_def)
  obtain v reason where v: "rateLimit H (realIP (the_client H w)) (authPubKey (the_client H w)) w = (v, reason)"
    by (cases "rateLimit H (realIP (the_client H w)) (authPubKey (the_client H w)) w")
  then have "I v" "the_client H v = the_client H w" using keptD(2,3) [OF assms] by (metis fst_conv)+
  then show ?thesis
    unfolding typed_message_def Let_def if_not_P [OF False] v prod.case
    using l keptD(1) [OF assms(1) \<open>I v\<close>] dispatch_kept [OF assms, of t raw] dispatch_kept [OF assms(1) \<open>I v\<close>, of t raw]
    by simp
qed

lemma handleMessage_kept:
  assumes "kept D H I" "I w"
  shows "I (fst (handleMessage D H message w))"
  using handleMessage_cases [of D H message w] typed_message_kept [OF assms] assms(2) by fastforce

lemma read_one_kept:
  assumes "kept D H I" "I w"
  shows "I (fst (read_one D H message w))"
proof -
  obtain v r where v: "handleMessage D H message w = (v, r)" by (cases "handleMessage D H message w")
  then have "I v" using handleMessage_kept [OF assms, of message] by simp
  then show ?thesis
    using v keptD(1) [OF assms(1) \<open>I v\<close>] by (cases r) (simp_all add: read_one_def SendNotice_def)
qed

lemma read_one_not_Err: "snd (read_one D H message w) \<noteq> Err err"
  by (simp add: read_one_def split: prod.split outcome.split)

section \<open>What a handler may do to its client\<close>

lemma send_frame [simp]:
  "subscriptions (fst (send m c)) = subscriptions c" "requireAuth (fst (send m c)) = requireAuth c"
  "authenticated (fst (send m c)) = authenticated c" "closed (fst (send m c)) = closed c"
  "rateLimited (fst (send m c)) = rateLimited c" "authPubKey (fst (send m c)) = authPubKey c"
  "authChallenge (fst (send m c)) = authChallenge c" "realIP (fst (send m c)) = realIP c"
  by (simp_all add: send_def)

definition subs_ok :: "client \<Rightarrow> bool" where
  "subs_ok c \<longleftrightarrow> wf_map (subscriptions c) \<and> mlen (subscriptions c) \<le> MaxSubscriptionsPerClient"

lemma subs_ok_New: "subs_ok (NewClient ip)"
  by (simp add: subs_ok_def NewClient_def mlen_def)

lemma subs_ok_send [simp]: "subs_ok (fst (send m c)) = subs_ok c"
  by (simp add: subs_ok_def)

lemma subs_ok_Remove: "subs_ok c \<Longrightarrow> subs_ok (RemoveSubscription i c)"
  using mlen_mdel_le [of i "subscriptions c"] by (simp add: subs_ok_def RemoveSubscription_def)

lemma subs_ok_put:
  assumes "subs_ok c" "\<not> (mget (subscriptions c) i = None \<and> mlen (subscriptions c) \<ge> MaxSubscriptionsPerClient)"
  shows "subs_ok (c\<lparr>subscriptions := mput i fs (subscriptions c)\<rparr>)"
  using assms by (auto simp: subs_ok_def mlen_mput split: option.splits)

locale handler =
  fixes H :: "'w handler"
  assumes client_on: "the_client H (on_client H f w) = f (the_client H w)"
    and rate_client: "the_client H (fst (rateLimit H ip pk w)) = the_client H w"
    and event_subs: "subscriptions (the_client H (fst (do_event H e w))) = subscriptions (the_client H w)"
    and count_subs: "subscriptions (the_client H (fst (do_count H i fs w))) = subscriptions (the_client H w)"
    and req_subs: "subscriptions (the_client H (fst (do_req H i fs w))) \<in>
      {subscriptions (the_client H w), mdel i (subscriptions (the_client H w))}"
    and close_subs: "subscriptions (the_client H (fst (do_close H i w))) = mdel i (subscriptions (the_client H w))"
begin

lemma subs_ok_cong: "subscriptions a = subscriptions b \<Longrightarrow> subs_ok a = subs_ok b"
  by (simp add: subs_ok_def)

lemma subs_ok_mdel: "subs_ok b \<Longrightarrow> subscriptions a = mdel i (subscriptions b) \<Longrightarrow> subs_ok a"
  using subs_ok_Remove [of b i] by (simp add: subs_ok_def RemoveSubscription_def)

lemma req_subs_ok: "subs_ok (the_client H w) \<Longrightarrow> subs_ok (the_client H (fst (do_req H i fs w)))"
  using req_subs [of i fs w] subs_ok_cong subs_ok_mdel by blast

lemma kept_subs_ok: "kept D H (\<lambda>w. subs_ok (the_client H w))"
  unfolding kept_def
  using subs_ok_cong [OF event_subs] subs_ok_cong [OF count_subs] subs_ok_mdel [OF _ close_subs] req_subs_ok subs_ok_put
  by (simp add: client_on rate_client)

lemmas read_one_subs_ok = read_one_kept [OF kept_subs_ok]

text \<open>CLOSE passes the gate and the rate limit whatever the client's state.\<close>

lemma close_always:
  "handleMessage D H (Inr (JArray [JString ''CLOSE'', JString i])) w = do_close H i w"
  by (simp add: handleMessage_def typed_message_def dispatch_def handleCloseMessage_def Let_def)

text \<open>The gate: a message it refuses changes nothing but the client's outbox.\<close>

lemma gate:
  assumes "requireAuth (the_client H w)" "\<not> authenticated (the_client H w)"
    and "raw \<noteq> []" "as_string (raw ! 0) [] = Some t" "t \<noteq> ''CLOSE''" "\<not> auth_event D t raw"
  shows "handleMessage D H (Inr (JArray raw)) w = (tell H (send (refusal D t raw)) w, Ok ())"
  using assms by (simp add: handleMessage_def typed_message_def Let_def)

end

end
