(* ===== verification/RateLimit.thy ===== *)
theory RateLimit
  imports Prelude Complex_Main
begin

text \<open>
  The per-IP token bucket and ban list of \<^verbatim>\<open>pkg/relay/relay.go\<close> (\<^verbatim>\<open>checkRate\<close>, \<^verbatim>\<open>isIPBanned\<close>).
  Times are nanoseconds of the monotonic clock. The bucket is a \<^verbatim>\<open>float64\<close>: a number with the
  rounding function \<open>rnd\<close> applied after every operation. What is used of it, that it is monotone,
  exact on small integers and off by at most \<open>\<epsilon>\<close>, is what IEEE 754 guarantees of rounding to
  nearest (\<open>rounding\<close>).

  Proved: bounds of the state; how many messages an instant admits before the limit and the ban;
  that a ban holds for 24 hours and ends; and that over any period at most 20 messages plus 10 a
  second are admitted.
\<close>

record limiter =
  tokens :: rat
  lastRefill :: int
  violations :: int
  bannedAt :: "int option"
  pubkeys :: "(string, bool) gomap"

record limits =
  ipLimiters :: "(string, limiter) gomap"
  rateLimitedCount :: int

text \<open>The clock readings of one call: in the ban check, at the creation of a limiter, at the refill.\<close>

record instants =
  at_ban :: int
  at_new :: int
  at_now :: int

definition reqRatePerSec :: rat where "reqRatePerSec = 10"

definition reqBurstLimit :: rat where "reqBurstLimit = 20"

definition banViolationLimit :: int where "banViolationLimit = 10"

definition second :: int where "second = 1000000000"

definition banDuration :: int where "banDuration = 24 * 3600 * second"

abbreviation banned_msg :: string where
  "banned_msg \<equiv> ''banned: too many rate limit violations''"

abbreviation limited_msg :: string where
  "limited_msg \<equiv> ''rate-limited: too many messages, slow down''"

definition isIPBanned :: "int \<Rightarrow> string \<Rightarrow> limits \<Rightarrow> limits \<times> bool" where
  "isIPBanned now ip r =
    (case mget (ipLimiters r) ip of
       None \<Rightarrow> (r, False)
     | Some lm \<Rightarrow>
       (case bannedAt lm of
          None \<Rightarrow> (r, False)
        | Some t \<Rightarrow>
            if now - t > banDuration
            then (r\<lparr>ipLimiters := mput ip (lm\<lparr>bannedAt := None, violations := 0\<rparr>) (ipLimiters r)\<rparr>, False)
            else (r, True)))"

text \<open>\<^verbatim>\<open>Duration.Seconds\<close>.\<close>

definition Seconds :: "(rat \<Rightarrow> rat) \<Rightarrow> int \<Rightarrow> rat" where
  "Seconds rnd d = rnd (rnd (of_int (d div second)) + rnd (rnd (of_int (d mod second)) / of_int second))"

definition refill :: "(rat \<Rightarrow> rat) \<Rightarrow> int \<Rightarrow> limiter \<Rightarrow> limiter" where
  "refill rnd now lm =
    (let elapsed = Seconds rnd (now - lastRefill lm);
         tk = rnd (tokens lm + rnd (elapsed * reqRatePerSec))
     in lm\<lparr>tokens := (if tk > reqBurstLimit then reqBurstLimit else tk), lastRefill := now\<rparr>)"

definition new_limiter :: "int \<Rightarrow> limiter" where
  "new_limiter now = \<lparr>tokens = reqBurstLimit, lastRefill = now, violations = 0, bannedAt = None, pubkeys = []\<rparr>"

definition checkRate :: "(rat \<Rightarrow> rat) \<Rightarrow> instants \<Rightarrow> string \<Rightarrow> string \<Rightarrow> limits \<Rightarrow> limits \<times> string" where
  "checkRate rnd i ip pubkey r0 =
    (case isIPBanned (at_ban i) ip r0 of
       (r, True) \<Rightarrow> (r, banned_msg)
     | (r, False) \<Rightarrow>
         let lm = (case mget (ipLimiters r) ip of Some lm \<Rightarrow> lm | None \<Rightarrow> new_limiter (at_new i));
             lm = (if pubkey \<noteq> [] then lm\<lparr>pubkeys := mput pubkey True (pubkeys lm)\<rparr> else lm);
             lm = refill rnd (at_now i) lm
         in if tokens lm < 1 then
              let lm = lm\<lparr>violations := violations lm + 1\<rparr>;
                  r = r\<lparr>rateLimitedCount := rateLimitedCount r + 1\<rparr>
              in if violations lm \<ge> banViolationLimit
                 then (r\<lparr>ipLimiters := mput ip (lm\<lparr>bannedAt := Some (at_now i)\<rparr>) (ipLimiters r)\<rparr>, banned_msg)
                 else (r\<lparr>ipLimiters := mput ip lm (ipLimiters r)\<rparr>, limited_msg)
            else (r\<lparr>ipLimiters := mput ip (lm\<lparr>tokens := rnd (tokens lm - 1)\<rparr>) (ipLimiters r)\<rparr>, []))"

text \<open>A sequence of calls for one address: the answers in order.\<close>

fun rate_run :: "(rat \<Rightarrow> rat) \<Rightarrow> string \<Rightarrow> (instants \<times> string) list \<Rightarrow> limits \<Rightarrow> limits \<times> string list" where
  "rate_run rnd ip [] r = (r, [])"
| "rate_run rnd ip ((i, pk) # cs) r =
     (let (r1, a) = checkRate rnd i ip pk r; (r2, as) = rate_run rnd ip cs r1 in (r2, a # as))"

section \<open>Rounding\<close>

definition rounding :: "rat \<Rightarrow> (rat \<Rightarrow> rat) \<Rightarrow> bool" where
  "rounding \<epsilon> rnd \<longleftrightarrow> (\<forall>x y. x \<le> y \<longrightarrow> rnd x \<le> rnd y) \<and> (\<forall>n. \<bar>n\<bar> \<le> 1024 \<longrightarrow> rnd (of_int n) = of_int n) \<and>
     0 \<le> \<epsilon> \<and> (\<forall>x. 0 \<le> x \<longrightarrow> x \<le> 2 ^ 40 \<longrightarrow> rnd x \<le> x + \<epsilon>)"

lemma rounding_mono: "rounding \<epsilon> rnd \<Longrightarrow> x \<le> y \<Longrightarrow> rnd x \<le> rnd y"
  by (simp add: rounding_def)

lemma rounding_int: "rounding \<epsilon> rnd \<Longrightarrow> \<bar>n\<bar> \<le> 1024 \<Longrightarrow> rnd (of_int n) = of_int n"
  by (simp add: rounding_def)

lemma rounding_0: "rounding \<epsilon> rnd \<Longrightarrow> rnd 0 = 0"
  using rounding_int [of \<epsilon> rnd 0] by simp

lemma rounding_nonneg: "rounding \<epsilon> rnd \<Longrightarrow> 0 \<le> x \<Longrightarrow> 0 \<le> rnd x"
  using rounding_mono [of \<epsilon> rnd 0 x] rounding_0 by fastforce

lemma rounding_error: "rounding \<epsilon> rnd \<Longrightarrow> 0 \<le> x \<Longrightarrow> x \<le> 2 ^ 40 \<Longrightarrow> rnd x \<le> x + \<epsilon>"
  by (simp add: rounding_def)

lemma Seconds_nonneg:
  assumes "rounding \<epsilon> rnd" "0 \<le> d"
  shows "0 \<le> Seconds rnd d"
proof -
  have "0 \<le> d div second" "0 \<le> d mod second"
    using assms(2) by (simp_all add: second_def pos_imp_zdiv_nonneg_iff)
  then show ?thesis
    unfolding Seconds_def using assms(1)
    by (intro rounding_nonneg [OF assms(1)] add_nonneg_nonneg divide_nonneg_nonneg) (simp_all add: second_def)
qed

lemma Seconds_0 [simp]: "rounding \<epsilon> rnd \<Longrightarrow> Seconds rnd 0 = 0"
  by (simp add: Seconds_def second_def rounding_0)

section \<open>State bounds\<close>

definition limiter_ok :: "limiter \<Rightarrow> bool" where
  "limiter_ok l \<longleftrightarrow> 0 \<le> tokens l \<and> tokens l \<le> reqBurstLimit \<and> 0 \<le> violations l \<and>
     violations l \<le> banViolationLimit \<and> (bannedAt l = None \<longrightarrow> violations l < banViolationLimit)"

definition limits_ok :: "limits \<Rightarrow> bool" where
  "limits_ok r \<longleftrightarrow> (\<forall>ip l. mget (ipLimiters r) ip = Some l \<longrightarrow> limiter_ok l)"

text \<open>The clock does not run backwards: no limiter was refilled later than now.\<close>

definition clock_ok :: "int \<Rightarrow> limits \<Rightarrow> bool" where
  "clock_ok t r \<longleftrightarrow> (\<forall>ip l. mget (ipLimiters r) ip = Some l \<longrightarrow> lastRefill l \<le> t)"

definition ordered :: "instants \<Rightarrow> bool" where
  "ordered i \<longleftrightarrow> at_ban i \<le> at_new i \<and> at_new i \<le> at_now i"

lemma refill_bounds:
  assumes "rounding \<epsilon> rnd" "0 \<le> tokens l" "lastRefill l \<le> now"
  shows "0 \<le> tokens (refill rnd now l)" "tokens (refill rnd now l) \<le> reqBurstLimit"
    "violations (refill rnd now l) = violations l" "bannedAt (refill rnd now l) = bannedAt l"
    "lastRefill (refill rnd now l) = now"
proof -
  have "0 \<le> Seconds rnd (now - lastRefill l)"
    using Seconds_nonneg [OF assms(1)] assms(3) by simp
  then have "0 \<le> rnd (tokens l + rnd (Seconds rnd (now - lastRefill l) * reqRatePerSec))"
    using assms(2) by (intro rounding_nonneg [OF assms(1)] add_nonneg_nonneg mult_nonneg_nonneg) (simp_all add: reqRatePerSec_def)
  then show "0 \<le> tokens (refill rnd now l)" "tokens (refill rnd now l) \<le> reqBurstLimit"
    by (simp_all add: refill_def Let_def reqBurstLimit_def)
qed (simp_all add: refill_def Let_def)

lemma new_limiter_ok: "limiter_ok (new_limiter t)"
  by (simp add: limiter_ok_def new_limiter_def reqBurstLimit_def banViolationLimit_def)

section \<open>One address at a time\<close>

definition admit :: "(rat \<Rightarrow> rat) \<Rightarrow> instants \<Rightarrow> string \<Rightarrow> limiter \<Rightarrow> limiter \<times> string" where
  "admit rnd i pubkey l =
    (let l = refill rnd (at_now i) (if pubkey \<noteq> [] then l\<lparr>pubkeys := mput pubkey True (pubkeys l)\<rparr> else l) in
     if tokens l < 1 then
       (if violations l + 1 \<ge> banViolationLimit
        then (l\<lparr>violations := violations l + 1, bannedAt := Some (at_now i)\<rparr>, banned_msg)
        else (l\<lparr>violations := violations l + 1\<rparr>, limited_msg))
     else (l\<lparr>tokens := rnd (tokens l - 1)\<rparr>, []))"

text \<open>What a call does to the limiter of its own address, as a function of that limiter alone.\<close>

definition limiter_step :: "(rat \<Rightarrow> rat) \<Rightarrow> instants \<Rightarrow> string \<Rightarrow> limiter option \<Rightarrow> limiter \<times> string" where
  "limiter_step rnd i pubkey lo =
    (case lo of
       None \<Rightarrow> admit rnd i pubkey (new_limiter (at_new i))
     | Some l \<Rightarrow>
       (case bannedAt l of
          None \<Rightarrow> admit rnd i pubkey l
        | Some t \<Rightarrow>
            if at_ban i - t > banDuration then admit rnd i pubkey (l\<lparr>bannedAt := None, violations := 0\<rparr>)
            else (l, banned_msg)))"

lemma checkRate_admit:
  assumes "isIPBanned (at_ban i) ip r0 = (r, False)"
  shows "mget (ipLimiters (fst (checkRate rnd i ip pk r0))) j =
      (if j = ip then Some (fst (admit rnd i pk (case mget (ipLimiters r) ip of Some l \<Rightarrow> l | None \<Rightarrow> new_limiter (at_new i))))
       else mget (ipLimiters r) j)"
    and "snd (checkRate rnd i ip pk r0) =
      snd (admit rnd i pk (case mget (ipLimiters r) ip of Some l \<Rightarrow> l | None \<Rightarrow> new_limiter (at_new i)))"
  unfolding checkRate_def assms by (simp_all add: admit_def Let_def mget_mput)

text \<open>The limiters of other addresses are never touched, and the limiter of this one is a function of its
  own history.\<close>

lemma checkRate_step:
  "mget (ipLimiters (fst (checkRate rnd i ip pk r))) j =
      (if j = ip then Some (fst (limiter_step rnd i pk (mget (ipLimiters r) ip))) else mget (ipLimiters r) j)"
  "snd (checkRate rnd i ip pk r) = snd (limiter_step rnd i pk (mget (ipLimiters r) ip))"
proof -
  have "mget (ipLimiters (fst (checkRate rnd i ip pk r))) j =
      (if j = ip then Some (fst (limiter_step rnd i pk (mget (ipLimiters r) ip))) else mget (ipLimiters r) j) \<and>
    snd (checkRate rnd i ip pk r) = snd (limiter_step rnd i pk (mget (ipLimiters r) ip))"
  proof (cases "mget (ipLimiters r) ip")
    case None
    then have "isIPBanned (at_ban i) ip r = (r, False)" by (simp add: isIPBanned_def)
    from checkRate_admit [OF this] show ?thesis using None by (simp add: limiter_step_def)
  next
    case (Some l)
    show ?thesis
    proof (cases "bannedAt l")
      case None
      then have "isIPBanned (at_ban i) ip r = (r, False)" using Some by (simp add: isIPBanned_def)
      from checkRate_admit [OF this] show ?thesis using None Some by (simp add: limiter_step_def)
    next
      case t: (Some t)
      show ?thesis
      proof (cases "at_ban i - t > banDuration")
        case True
        then have "isIPBanned (at_ban i) ip r =
            (r\<lparr>ipLimiters := mput ip (l\<lparr>bannedAt := None, violations := 0\<rparr>) (ipLimiters r)\<rparr>, False)"
          using Some t by (simp add: isIPBanned_def)
        from checkRate_admit [OF this] show ?thesis using Some t True by (simp add: limiter_step_def mget_mput)
      next
        case False
        then have "isIPBanned (at_ban i) ip r = (r, True)" using Some t by (simp add: isIPBanned_def)
        then show ?thesis using Some t False by (simp add: limiter_step_def checkRate_def)
      qed
    qed
  qed
  then show "mget (ipLimiters (fst (checkRate rnd i ip pk r))) j =
      (if j = ip then Some (fst (limiter_step rnd i pk (mget (ipLimiters r) ip))) else mget (ipLimiters r) j)"
    "snd (checkRate rnd i ip pk r) = snd (limiter_step rnd i pk (mget (ipLimiters r) ip))" by blast+
qed

fun step_run :: "(rat \<Rightarrow> rat) \<Rightarrow> (instants \<times> string) list \<Rightarrow> limiter option \<Rightarrow> limiter option \<times> string list" where
  "step_run rnd [] lo = (lo, [])"
| "step_run rnd ((i, pk) # cs) lo =
     (let (l, a) = limiter_step rnd i pk lo; (lo', as) = step_run rnd cs (Some l) in (lo', a # as))"

lemma rate_run_step_run:
  "snd (rate_run rnd ip cs r) = snd (step_run rnd cs (mget (ipLimiters r) ip))"
proof (induction cs arbitrary: r)
  case (Cons c cs)
  obtain i pk where c: "c = (i, pk)" by (cases c)
  have "mget (ipLimiters (fst (checkRate rnd i ip pk r))) ip = Some (fst (limiter_step rnd i pk (mget (ipLimiters r) ip)))"
    by (simp add: checkRate_step)
  then show ?case
    using Cons [of "fst (checkRate rnd i ip pk r)"] checkRate_step(2) [of rnd i ip pk r]
    by (simp add: c case_prod_beta Let_def)
qed simp

section \<open>Bounds\<close>

lemma admit_ok:
  assumes r: "rounding \<epsilon> rnd" and l: "limiter_ok l" "bannedAt l = None" "lastRefill l \<le> at_now i"
  shows "limiter_ok (fst (admit rnd i pk l)) \<and> lastRefill (fst (admit rnd i pk l)) = at_now i"
proof -
  define l0 where "l0 = (if pk \<noteq> [] then l\<lparr>pubkeys := mput pk True (pubkeys l)\<rparr> else l)"
  have l0: "tokens l0 = tokens l" "violations l0 = violations l" "bannedAt l0 = None" "lastRefill l0 = lastRefill l"
    using l(2) by (simp_all add: l0_def)
  have t0: "0 \<le> tokens l0" "lastRefill l0 \<le> at_now i"
    using l(1,3) l0 by (simp_all add: limiter_ok_def)
  note b = refill_bounds [OF r t0]
  have v: "0 \<le> violations l" "violations l < banViolationLimit"
    using l by (simp_all add: limiter_ok_def)
  have "0 \<le> rnd (tokens (refill rnd (at_now i) l0) - 1) \<and> rnd (tokens (refill rnd (at_now i) l0) - 1) \<le> reqBurstLimit"
    if "\<not> tokens (refill rnd (at_now i) l0) < 1"
  proof
    show "0 \<le> rnd (tokens (refill rnd (at_now i) l0) - 1)"
      by (rule rounding_nonneg [OF r]) (use that in simp)
    have "rnd (tokens (refill rnd (at_now i) l0) - 1) \<le> rnd (of_int 20)"
      by (rule rounding_mono [OF r]) (use b(2) in \<open>simp add: reqBurstLimit_def\<close>)
    then show "rnd (tokens (refill rnd (at_now i) l0) - 1) \<le> reqBurstLimit"
      using rounding_int [OF r, of 20] by (simp add: reqBurstLimit_def)
  qed
  then show ?thesis
    using b l0 v unfolding admit_def l0_def [symmetric] Let_def
    by (auto simp: limiter_ok_def)
qed

lemma limiter_step_ok:
  assumes "rounding \<epsilon> rnd" "ordered i" "\<And>l. lo = Some l \<Longrightarrow> limiter_ok l \<and> lastRefill l \<le> at_ban i"
  shows "limiter_ok (fst (limiter_step rnd i pk lo)) \<and> lastRefill (fst (limiter_step rnd i pk lo)) \<le> at_now i"
proof (cases lo)
  case None
  have "lastRefill (new_limiter (at_new i)) \<le> at_now i" "bannedAt (new_limiter (at_new i)) = None"
    using assms(2) by (simp_all add: new_limiter_def ordered_def)
  from admit_ok [OF assms(1) new_limiter_ok this(2,1)] None show ?thesis by (simp add: limiter_step_def)
next
  case (Some l)
  then have l: "limiter_ok l" "lastRefill l \<le> at_now i"
    using assms(2,3) by (auto simp: ordered_def)
  then have l': "limiter_ok (l\<lparr>bannedAt := None, violations := 0\<rparr>)"
    by (simp add: limiter_ok_def banViolationLimit_def)
  have b: "bannedAt (l\<lparr>bannedAt := None, violations := 0\<rparr>) = None" "lastRefill (l\<lparr>bannedAt := None, violations := 0\<rparr>) \<le> at_now i"
    using l by simp_all
  show ?thesis
    using Some l admit_ok [OF assms(1) l(1) _ l(2), of pk] admit_ok [OF assms(1) l' b, of pk]
    by (auto simp: limiter_step_def split: option.splits)
qed

text \<open>The rate limiter's state stays in bounds: every bucket holds between 0 and 20 tokens and at most 10
  violations, and an address that is not banned has fewer than 10. A call changes only the limiter of
  its own address.\<close>

theorem checkRate_bounds:
  assumes "rounding \<epsilon> rnd" "ordered i" "limits_ok r" "clock_ok (at_ban i) r"
  shows "limits_ok (fst (checkRate rnd i ip pk r)) \<and> clock_ok (at_now i) (fst (checkRate rnd i ip pk r))
    \<and> (\<forall>j. j \<noteq> ip \<longrightarrow> mget (ipLimiters (fst (checkRate rnd i ip pk r))) j = mget (ipLimiters r) j)"
proof -
  have "limiter_ok (fst (limiter_step rnd i pk (mget (ipLimiters r) ip))) \<and>
      lastRefill (fst (limiter_step rnd i pk (mget (ipLimiters r) ip))) \<le> at_now i"
    by (rule limiter_step_ok [OF assms(1,2)]) (use assms(3,4) in \<open>simp add: limits_ok_def clock_ok_def\<close>)
  moreover have "lastRefill l \<le> at_now i" if "mget (ipLimiters r) j = Some l" for j l
    using that assms(2,4) unfolding clock_ok_def ordered_def by fastforce
  ultimately show ?thesis
    using assms(3) by (auto simp: limits_ok_def clock_ok_def checkRate_step)
qed

lemma exact_rounding: "rounding 0 (\<lambda>x. x)"
  by (simp add: rounding_def)

lemma checkRate_bounds_witness:
  "limits_ok (fst (checkRate (\<lambda>x. x) \<lparr>at_ban = 1, at_new = 2, at_now = 3\<rparr> ''a'' [] \<lparr>ipLimiters = [], rateLimitedCount = 0\<rparr>))"
  using checkRate_bounds [OF exact_rounding, of "\<lparr>at_ban = 1, at_new = 2, at_now = 3\<rparr>" "\<lparr>ipLimiters = [], rateLimitedCount = 0\<rparr>"]
  by (simp add: ordered_def limits_ok_def clock_ok_def)

section \<open>Bursts and bans\<close>

lemma admit_still:
  assumes r: "rounding \<epsilon> rnd" and i: "at_now i = t" "lastRefill l = t"
    and k: "tokens l = of_int (int k)" "k \<le> 20" and v: "violations l = int v"
  shows "snd (admit rnd i pk l) = (if k > 0 then [] else if v \<ge> 9 then banned_msg else limited_msg)
    \<and> lastRefill (fst (admit rnd i pk l)) = t
    \<and> tokens (fst (admit rnd i pk l)) = of_int (int (k - 1))
    \<and> violations (fst (admit rnd i pk l)) = int (if k > 0 then v else v + 1)
    \<and> bannedAt (fst (admit rnd i pk l)) = (if k = 0 \<and> v \<ge> 9 then Some t else bannedAt l)"
proof -
  define l0 where "l0 = (if pk \<noteq> [] then l\<lparr>pubkeys := mput pk True (pubkeys l)\<rparr> else l)"
  have l0: "tokens l0 = of_int (int k)" "violations l0 = int v" "bannedAt l0 = bannedAt l" "lastRefill l0 = t"
    using assms by (simp_all add: l0_def)
  have "rnd (of_int (int k)) = of_int (int k)"
    by (rule rounding_int [OF r]) (use k(2) in simp)
  then have f: "tokens (refill rnd t l0) = of_int (int k)" "violations (refill rnd t l0) = int v"
    "bannedAt (refill rnd t l0) = bannedAt l" "lastRefill (refill rnd t l0) = t"
    using l0 k(2) Seconds_0 [OF r] rounding_0 [OF r] by (simp_all add: refill_def Let_def reqBurstLimit_def)
  have d: "rnd (of_int (int k) - 1) = of_int (int (k - 1))" if "k > 0"
  proof -
    have "rnd (of_int (int k - 1)) = of_int (int k - 1)"
      by (rule rounding_int [OF r]) (use k(2) in simp)
    with that show ?thesis by (simp add: of_nat_diff)
  qed
  show ?thesis
    unfolding admit_def l0_def [symmetric] i(1) Let_def
    using f d by (auto simp: banViolationLimit_def)
qed

abbreviation at_instant :: "int \<Rightarrow> instants" where
  "at_instant t \<equiv> \<lparr>at_ban = t, at_new = t, at_now = t\<rparr>"

lemma step_run_banned:
  assumes "bannedAt l = Some t" "\<And>i pk. (i, pk) \<in> set cs \<Longrightarrow> at_ban i - t \<le> banDuration"
  shows "step_run rnd cs (Some l) = (Some l, replicate (length cs) banned_msg)"
  using assms(2)
proof (induction cs)
  case (Cons c cs)
  obtain i pk where c: "c = (i, pk)" by (cases c)
  then have "at_ban i - t \<le> banDuration" using Cons.prems [of i pk] by simp
  then have "limiter_step rnd i pk (Some l) = (l, banned_msg)"
    using assms(1) by (simp add: limiter_step_def)
  moreover have "step_run rnd cs (Some l) = (Some l, replicate (length cs) banned_msg)"
    by (rule Cons.IH) (meson Cons.prems list.set_intros(2))
  ultimately show ?case using c by simp
qed simp

lemma burst:
  assumes r: "rounding \<epsilon> rnd"
  shows "lastRefill l = t \<Longrightarrow> bannedAt l = None \<Longrightarrow> tokens l = of_int (int k) \<Longrightarrow> k \<le> 20 \<Longrightarrow>
    violations l = int v \<Longrightarrow> v \<le> 9 \<Longrightarrow> length pks \<le> m \<Longrightarrow>
    snd (step_run rnd (map (Pair (at_instant t)) pks) (Some l)) =
      take (length pks) (replicate k [] @ replicate (9 - v) limited_msg @ replicate m banned_msg)"
proof (induction pks arbitrary: l k v)
  case (Cons pk pks)
  let ?a = "admit rnd (at_instant t) pk l"
  have a: "snd ?a = (if k > 0 then [] else if v \<ge> 9 then banned_msg else limited_msg)"
    "lastRefill (fst ?a) = t" "tokens (fst ?a) = of_int (int (k - 1))"
    "violations (fst ?a) = int (if k > 0 then v else v + 1)"
    "bannedAt (fst ?a) = (if k = 0 \<and> v \<ge> 9 then Some t else None)"
    using admit_still [OF r _ Cons.prems(1) Cons.prems(3,4,5), of "at_instant t" pk] Cons.prems(2) by simp_all
  have s: "snd (step_run rnd (map (Pair (at_instant t)) (pk # pks)) (Some l)) =
      snd ?a # snd (step_run rnd (map (Pair (at_instant t)) pks) (Some (fst ?a)))"
    using Cons.prems(2) by (simp add: limiter_step_def case_prod_beta Let_def)
  consider "k > 0" | "k = 0" "v < 9" | "k = 0" "v = 9" using Cons.prems(6) by linarith
  then show ?case
  proof cases
    case 1
    then obtain k' where k': "k = Suc k'" by (cases k) auto
    have "snd (step_run rnd (map (Pair (at_instant t)) pks) (Some (fst ?a))) =
      take (length pks) (replicate (k - 1) [] @ replicate (9 - v) limited_msg @ replicate m banned_msg)"
      by (rule Cons.IH) (use a 1 Cons.prems in auto)
    then show ?thesis unfolding s using a(1) k' by (simp add: take_replicate min_def)
  next
    case 2
    have "snd (step_run rnd (map (Pair (at_instant t)) pks) (Some (fst ?a))) =
      take (length pks) (replicate 0 [] @ replicate (9 - (v + 1)) limited_msg @ replicate m banned_msg)"
      by (rule Cons.IH) (use a 2 Cons.prems in auto)
    moreover have "9 - v = Suc (9 - (v + 1))" using 2 by simp
    ultimately show ?thesis unfolding s using a(1) 2 by (simp add: take_replicate min_def)
  next
    case 3
    then have "snd (step_run rnd (map (Pair (at_instant t)) pks) (Some (fst ?a))) = replicate (length pks) banned_msg"
      by (subst step_run_banned [where t = t]) (use a(5) 3 in \<open>auto simp: banDuration_def second_def\<close>)
    then show ?thesis unfolding s using a(1) 3 Cons.prems(7) by (simp add: take_replicate min_def)
  qed
qed simp

text \<open>Messages arriving from a new address at one instant: the first 20 are admitted, the next 9 are
  refused as too fast, and from the 30th on the address is banned.\<close>

theorem burst_from_new_address:
  assumes "rounding \<epsilon> rnd" "mget (ipLimiters r) ip = None"
  shows "snd (rate_run rnd ip (map (Pair (at_instant t)) pks) r) =
    take (length pks) (replicate 20 [] @ replicate 9 limited_msg @ replicate (length pks) banned_msg)"
proof -
  have "snd (step_run rnd (map (Pair (at_instant t)) pks) None) =
      snd (step_run rnd (map (Pair (at_instant t)) pks) (Some (new_limiter t)))"
    by (cases pks) (simp_all add: limiter_step_def new_limiter_def)
  moreover have "snd (step_run rnd (map (Pair (at_instant t)) pks) (Some (new_limiter t))) =
      take (length pks) (replicate 20 [] @ replicate (9 - 0) limited_msg @ replicate (length pks) banned_msg)"
    by (rule burst [OF assms(1)]) (simp_all add: new_limiter_def reqBurstLimit_def)
  ultimately show ?thesis
    using assms(2) by (simp add: rate_run_step_run)
qed

lemma burst_from_new_address_witness:
  "snd (rate_run (\<lambda>x. x) ''a'' (map (Pair (at_instant 5)) (replicate 31 [])) \<lparr>ipLimiters = [], rateLimitedCount = 0\<rparr>)
    = replicate 20 [] @ replicate 9 limited_msg @ replicate 2 banned_msg"
proof -
  have "mget (ipLimiters \<lparr>ipLimiters = [], rateLimitedCount = 0\<rparr>) ''a'' = None" by simp
  from burst_from_new_address [OF exact_rounding this, of 5 "replicate 31 []"] show ?thesis
    by (simp add: take_replicate)
qed

text \<open>A banned address gets nothing through, and its limiter does not change, until 24 hours after the
  ban; after that the ban is lifted, the violations are forgotten, and with a full second since the
  last refill its next message is admitted.\<close>

theorem ban_lasts_a_day:
  assumes r: "rounding \<epsilon> rnd" and l: "mget (ipLimiters r) ip = Some l" "bannedAt l = Some t" "lastRefill l \<le> t"
    and ok: "limiter_ok l" and i: "ordered i"
  shows "(at_ban i - t \<le> banDuration \<longrightarrow> checkRate rnd i ip pk r = (r, banned_msg)) \<and>
    (at_ban i - t > banDuration \<longrightarrow> snd (checkRate rnd i ip pk r) = [] \<and>
      (\<exists>l'. mget (ipLimiters (fst (checkRate rnd i ip pk r))) ip = Some l' \<and> bannedAt l' = None \<and> violations l' = 0))"
proof (rule conjI; rule impI)
  assume "at_ban i - t \<le> banDuration"
  then show "checkRate rnd i ip pk r = (r, banned_msg)"
    using l by (simp add: checkRate_def isIPBanned_def)
next
  assume over: "at_ban i - t > banDuration"
  define l1 where "l1 = (let l0 = l\<lparr>bannedAt := None, violations := 0\<rparr> in
    if pk \<noteq> [] then l0\<lparr>pubkeys := mput pk True (pubkeys l0)\<rparr> else l0)"
  define d where "d = at_now i - lastRefill l1"
  have l1: "tokens l1 = tokens l" "violations l1 = 0" "bannedAt l1 = None" "lastRefill l1 = lastRefill l"
    by (simp_all add: l1_def Let_def)
  have "second \<le> d"
    using over i l(3) l1 by (simp add: d_def ordered_def banDuration_def second_def)
  then have "second div second \<le> d div second"
    by (intro zdiv_mono1) (simp_all add: second_def)
  then have "1 \<le> d div second" "0 \<le> d mod second"
    by (simp_all add: second_def)
  then have "1 \<le> rnd (of_int (d div second))"
    using rounding_mono [OF r, of "of_int 1" "of_int (d div second)"] rounding_int [OF r, of 1] by simp
  moreover have "0 \<le> rnd (rnd (of_int (d mod second)) / of_int second)"
    by (intro rounding_nonneg [OF r] divide_nonneg_nonneg) (use \<open>0 \<le> d mod second\<close> in \<open>simp_all add: second_def\<close>)
  ultimately have "1 \<le> Seconds rnd d"
    unfolding Seconds_def
    using rounding_mono [OF r, of "of_int 1" "rnd (of_int (d div second)) + rnd (rnd (of_int (d mod second)) / of_int second)"]
      rounding_int [OF r, of 1] by simp
  then have "10 \<le> rnd (Seconds rnd d * reqRatePerSec)"
    using rounding_mono [OF r, of "of_int 10" "Seconds rnd d * reqRatePerSec"] rounding_int [OF r, of 10]
    by (simp add: reqRatePerSec_def)
  moreover have "0 \<le> tokens l" using ok by (simp add: limiter_ok_def)
  ultimately have "10 \<le> rnd (tokens l1 + rnd (Seconds rnd d * reqRatePerSec))"
    using rounding_mono [OF r, of "of_int 10" "tokens l1 + rnd (Seconds rnd d * reqRatePerSec)"] rounding_int [OF r, of 10] l1(1)
    by simp
  then have f: "\<not> tokens (refill rnd (at_now i) l1) < 1" "violations (refill rnd (at_now i) l1) = 0"
    "bannedAt (refill rnd (at_now i) l1) = None"
    using l1 by (simp_all add: refill_def Let_def d_def reqBurstLimit_def)
  have "limiter_step rnd i pk (Some l) = admit rnd i pk (l\<lparr>bannedAt := None, violations := 0\<rparr>)"
    using l(2) over by (simp add: limiter_step_def)
  also have "\<dots> = (let m = refill rnd (at_now i) l1 in (m\<lparr>tokens := rnd (tokens m - 1)\<rparr>, []))"
    using f(1) unfolding admit_def l1_def by (simp add: Let_def)
  finally show "snd (checkRate rnd i ip pk r) = [] \<and>
      (\<exists>l'. mget (ipLimiters (fst (checkRate rnd i ip pk r))) ip = Some l' \<and> bannedAt l' = None \<and> violations l' = 0)"
    using l(1) f by (simp add: checkRate_step Let_def)
qed

lemma ban_lasts_a_day_witness:
  "snd (checkRate (\<lambda>x. x) (at_instant (banDuration + 1)) ''a'' []
    \<lparr>ipLimiters = [(''a'', \<lparr>tokens = 0, lastRefill = 0, violations = 10, bannedAt = Some 0, pubkeys = []\<rparr>)],
      rateLimitedCount = 10\<rparr>) = []"
proof -
  let ?l = "\<lparr>tokens = 0, lastRefill = 0, violations = 10, bannedAt = Some 0, pubkeys = []\<rparr>"
  have "mget (ipLimiters \<lparr>ipLimiters = [(''a'', ?l)], rateLimitedCount = 10\<rparr>) ''a'' = Some ?l"
    by (simp add: mget_def)
  from ban_lasts_a_day [OF exact_rounding this, of 0 "at_instant (banDuration + 1)" "[]"] show ?thesis
    by (simp add: limiter_ok_def reqBurstLimit_def banViolationLimit_def ordered_def)
qed

section \<open>The rate over any period\<close>

text \<open>Tokens plus what has accrued since the last refill, at time \<open>t\<close>: exact arithmetic.\<close>

definition potential :: "int \<Rightarrow> limiter option \<Rightarrow> rat" where
  "potential t lo = (case lo of
      None \<Rightarrow> 20
    | Some l \<Rightarrow> tokens l + 10 * of_int (t - lastRefill l) / of_int second)"

definition admitted :: "string list \<Rightarrow> nat" where
  "admitted as = length (filter (\<lambda>a. a = []) as)"

definition late_enough :: "int \<Rightarrow> bool" where
  "late_enough d \<longleftrightarrow> 0 \<le> d \<and> d < 2 ^ 30 * second"

lemma Seconds_le:
  assumes "rounding \<epsilon> rnd" "\<epsilon> \<le> 1" "late_enough d"
  shows "Seconds rnd d \<le> of_int d / of_int second + 4 * \<epsilon>"
proof -
  have d: "0 \<le> d div second" "d div second < 2 ^ 30" "0 \<le> d mod second" "d mod second < second"
  proof -
    have "0 \<le> d" "d < 2 ^ 30 * 1000000000" using assms(3) by (simp_all add: late_enough_def second_def)
    then show "0 \<le> d div second"
      by (simp add: second_def pos_imp_zdiv_nonneg_iff)
    show "d div second < 2 ^ 30"
    proof (rule ccontr)
      assume "\<not> d div second < 2 ^ 30"
      then have "2 ^ 30 * second \<le> d div second * second"
        by (intro mult_right_mono) (simp_all add: second_def)
      also have "\<dots> \<le> d"
        using div_mult_mod_eq [of d second] pos_mod_sign [of second d] by (simp add: second_def)
      finally show False using assms(3) by (simp add: late_enough_def)
    qed
    show "0 \<le> d mod second" "d mod second < second"
      by (simp_all add: second_def)
  qed
  have e: "0 \<le> \<epsilon>" using assms(1) by (simp add: rounding_def)
  have q: "(of_int (d div second) :: rat) \<le> 2 ^ 30" "0 \<le> (of_int (d div second) :: rat)"
    using d(1,2) by (simp_all add: of_int_le_numeral_power_cancel_iff less_imp_le)
  have m: "(of_int (d mod second) :: rat) \<le> 1000000000" "0 \<le> (of_int (d mod second) :: rat)"
    using d(3,4) by (simp_all add: second_def)
  have a: "rnd (of_int (d div second)) \<le> of_int (d div second) + \<epsilon>" "0 \<le> rnd (of_int (d div second))"
    by (rule rounding_error [OF assms(1) q(2)], use q in simp, rule rounding_nonneg [OF assms(1) q(2)])
  have b: "rnd (of_int (d mod second)) \<le> of_int (d mod second) + \<epsilon>" "0 \<le> rnd (of_int (d mod second))"
    by (rule rounding_error [OF assms(1) m(2)], use m in simp, rule rounding_nonneg [OF assms(1) m(2)])
  let ?n = "rnd (of_int (d mod second)) / of_int second"
  have n: "0 \<le> ?n" "?n \<le> of_int (d mod second) / of_int second + \<epsilon>"
  proof -
    show "0 \<le> ?n" using b(2) by (simp add: second_def)
    have "?n \<le> (of_int (d mod second) + \<epsilon>) / of_int second"
      using b(1) by (intro divide_right_mono) (simp_all add: second_def)
    also have "\<dots> \<le> of_int (d mod second) / of_int second + \<epsilon>"
      using e by (simp add: add_divide_distrib second_def)
    finally show "?n \<le> of_int (d mod second) / of_int second + \<epsilon>" .
  qed
  have "?n \<le> 2" using n(2) m(1) assms(2) by (simp add: second_def)
  then have c: "rnd ?n \<le> ?n + \<epsilon>" "0 \<le> rnd ?n"
    by (intro rounding_error [OF assms(1) n(1)], simp, intro rounding_nonneg [OF assms(1) n(1)])
  have s: "0 \<le> rnd (of_int (d div second)) + rnd ?n" "rnd (of_int (d div second)) + rnd ?n \<le> 2 ^ 40"
    using a c \<open>?n \<le> 2\<close> q assms(2) by simp_all
  have "(of_int d :: rat) = of_int (d div second * second + d mod second)" by simp
  then have dd: "(of_int d :: rat) / of_int second = of_int (d div second) + of_int (d mod second) / of_int second"
    by (simp only: of_int_add of_int_mult) (simp add: second_def field_simps)
  have "Seconds rnd d \<le> rnd (of_int (d div second)) + rnd ?n + \<epsilon>"
    unfolding Seconds_def by (rule rounding_error [OF assms(1) s])
  then show ?thesis using a c n dd by linarith
qed

lemma refill_le:
  assumes r: "rounding \<epsilon> rnd" "\<epsilon> \<le> 1" and l: "0 \<le> tokens l" "tokens l \<le> 20"
    and d: "late_enough (now - lastRefill l)"
  shows "tokens (refill rnd now l) \<le> potential now (Some l) + 42 * \<epsilon>"
proof -
  let ?d = "now - lastRefill l"
  let ?s = "Seconds rnd ?d"
  have e: "0 \<le> \<epsilon>" using r(1) by (simp add: rounding_def)
  have s: "0 \<le> ?s" "?s \<le> of_int ?d / of_int second + 4 * \<epsilon>"
    using Seconds_nonneg [OF r(1), of ?d] Seconds_le [OF r d] d by (simp_all add: late_enough_def)
  have "(of_int ?d :: rat) \<le> of_int (2 ^ 30 * second)"
    using d by (simp only: of_int_le_iff late_enough_def) simp
  then have "of_int ?d / of_int second \<le> (2 ^ 30 :: rat)"
    by (simp add: second_def divide_le_eq)
  then have sb: "?s \<le> 2 ^ 30 + 4" using s(2) r(2) by linarith
  have g: "0 \<le> ?s * reqRatePerSec" "?s * reqRatePerSec \<le> 2 ^ 40"
    using s(1) sb by (simp_all add: reqRatePerSec_def)
  have a: "rnd (?s * reqRatePerSec) \<le> ?s * reqRatePerSec + \<epsilon>" "0 \<le> rnd (?s * reqRatePerSec)"
    by (rule rounding_error [OF r(1) g], rule rounding_nonneg [OF r(1) g(1)])
  have "tokens l + rnd (?s * reqRatePerSec) \<le> 2 ^ 40"
    using a(1) l(2) sb r(2) by (simp add: reqRatePerSec_def)
  then have "rnd (tokens l + rnd (?s * reqRatePerSec)) \<le> tokens l + rnd (?s * reqRatePerSec) + \<epsilon>"
    by (intro rounding_error [OF r(1)]) (use l(1) a(2) in simp_all)
  also have "\<dots> \<le> tokens l + 10 * ?s + 2 * \<epsilon>"
    using a(1) by (simp add: reqRatePerSec_def)
  also have "\<dots> \<le> potential now (Some l) + 42 * \<epsilon>"
  proof -
    have "potential now (Some l) = tokens l + 10 * (of_int ?d / of_int second)"
      by (simp add: potential_def)
    then show ?thesis using s(2) by linarith
  qed
  finally show ?thesis
    by (simp add: refill_def Let_def)
qed

lemma admit_potential:
  assumes r: "rounding \<epsilon> rnd" "\<epsilon> \<le> 1" and l: "limiter_ok l" and d: "late_enough (at_now i - lastRefill l)"
  shows "potential (at_now i) (Some (fst (admit rnd i pk l))) + (if snd (admit rnd i pk l) = [] then 1 else 0)
      \<le> potential (at_now i) (Some l) + 50 * \<epsilon>"
    and "tokens l = 20 \<Longrightarrow> potential (at_now i) (Some (fst (admit rnd i pk l))) +
      (if snd (admit rnd i pk l) = [] then 1 else 0) \<le> 20 + 50 * \<epsilon>"
proof -
  define l0 where "l0 = (if pk \<noteq> [] then l\<lparr>pubkeys := mput pk True (pubkeys l)\<rparr> else l)"
  have l0: "tokens l0 = tokens l" "lastRefill l0 = lastRefill l"
    by (simp_all add: l0_def)
  have t: "0 \<le> tokens l0" "tokens l0 \<le> 20" using l l0 by (simp_all add: limiter_ok_def reqBurstLimit_def)
  have now: "lastRefill l0 \<le> at_now i" using d l0 by (simp add: late_enough_def)
  let ?m = "refill rnd (at_now i) l0"
  note m = refill_bounds [OF r(1) t(1) now]
  have e: "0 \<le> \<epsilon>" using r(1) by (simp add: rounding_def)
  have le: "tokens ?m \<le> potential (at_now i) (Some l) + 42 * \<epsilon>"
    using refill_le [OF r t] d l0 by (simp add: potential_def)
  have ad: "potential (at_now i) (Some (fst (admit rnd i pk l))) + (if snd (admit rnd i pk l) = [] then 1 else 0)
      \<le> tokens ?m + \<epsilon>"
  proof (cases "tokens ?m < 1")
    case True
    then show ?thesis
      unfolding admit_def l0_def [symmetric] Let_def using m(5) e by (simp add: potential_def)
  next
    case False
    then have "rnd (tokens ?m - 1) \<le> tokens ?m - 1 + \<epsilon>"
      using m(2) by (intro rounding_error [OF r(1)]) (simp_all add: reqBurstLimit_def)
    then show ?thesis
      unfolding admit_def l0_def [symmetric] Let_def using m(5) False by (simp add: potential_def)
  qed
  show "potential (at_now i) (Some (fst (admit rnd i pk l))) + (if snd (admit rnd i pk l) = [] then 1 else 0)
      \<le> potential (at_now i) (Some l) + 50 * \<epsilon>"
    using ad le e by linarith
  show "potential (at_now i) (Some (fst (admit rnd i pk l))) +
      (if snd (admit rnd i pk l) = [] then 1 else 0) \<le> 20 + 50 * \<epsilon>"
    using ad m(2) e by (simp add: reqBurstLimit_def)
qed

lemma limiter_step_potential:
  assumes r: "rounding \<epsilon> rnd" "\<epsilon> \<le> 1" and i: "ordered i" "at_now i - at_new i < 2 ^ 30 * second"
    and lo: "\<And>l. lo = Some l \<Longrightarrow> limiter_ok l \<and> late_enough (at_now i - lastRefill l)"
  shows "potential (at_now i) (Some (fst (limiter_step rnd i pk lo))) + (if snd (limiter_step rnd i pk lo) = [] then 1 else 0)
    \<le> potential (at_now i) lo + 50 * \<epsilon>"
proof (cases lo)
  case None
  have "late_enough (at_now i - lastRefill (new_limiter (at_new i)))"
    using i by (simp add: late_enough_def new_limiter_def ordered_def)
  from admit_potential(2) [OF r new_limiter_ok this, of pk] show ?thesis
    using None by (simp add: limiter_step_def new_limiter_def reqBurstLimit_def potential_def)
next
  case (Some l)
  then have l: "limiter_ok l" "late_enough (at_now i - lastRefill l)" using lo by auto
  have l': "limiter_ok (l\<lparr>bannedAt := None, violations := 0\<rparr>)"
    using l(1) by (simp add: limiter_ok_def banViolationLimit_def)
  have e: "0 \<le> \<epsilon>" using r(1) by (simp add: rounding_def)
  have p: "potential (at_now i) (Some (l\<lparr>bannedAt := None, violations := 0\<rparr>)) = potential (at_now i) (Some l)"
    by (simp add: potential_def)
  note a = admit_potential(1) [OF r l, of pk] admit_potential(1) [OF r l', of i pk, unfolded p]
  show ?thesis
  proof (cases "bannedAt l")
    case None
    then show ?thesis using Some a(1) by (simp add: limiter_step_def)
  next
    case (Some t)
    then show ?thesis
      using \<open>lo = Some l\<close> a(2) l(2) e by (cases "at_ban i - t > banDuration") (simp_all add: limiter_step_def)
  qed
qed

text \<open>Calls in time order between two instants.\<close>

fun paced :: "int \<Rightarrow> int \<Rightarrow> (instants \<times> string) list \<Rightarrow> bool" where
  "paced t0 t1 [] = (t0 \<le> t1)"
| "paced t0 t1 ((i, pk) # cs) = (t0 \<le> at_ban i \<and> ordered i \<and> paced (at_now i) t1 cs)"

lemma paced_le: "paced t0 t1 cs \<Longrightarrow> t0 \<le> t1"
proof (induction cs arbitrary: t0)
  case (Cons c cs)
  obtain i pk where "c = (i, pk)" by (cases c)
  then show ?case using Cons.IH [of "at_now i"] Cons.prems by (simp add: ordered_def)
qed simp

lemma admit_lastRefill: "lastRefill (fst (admit rnd i pk l)) = at_now i"
  by (simp add: admit_def refill_def Let_def)

lemma step_lastRefill:
  "lastRefill (fst (limiter_step rnd i pk lo)) = at_now i \<or> lo = Some (fst (limiter_step rnd i pk lo))"
  by (auto simp: limiter_step_def admit_lastRefill split: option.splits)

lemma step_run_bound:
  assumes r: "rounding \<epsilon> rnd" "\<epsilon> \<le> 1"
  shows "paced t0 t1 cs \<Longrightarrow> t1 - t0 < 2 ^ 30 * second \<Longrightarrow>
    (\<And>l. lo = Some l \<Longrightarrow> limiter_ok l \<and> lastRefill l \<le> t0 \<and> t1 - lastRefill l < 2 ^ 30 * second) \<Longrightarrow>
    of_nat (admitted (snd (step_run rnd cs lo))) \<le>
      potential t0 lo + 10 * of_int (t1 - t0) / of_int second + 50 * \<epsilon> * of_nat (length cs)"
proof (induction cs arbitrary: t0 lo)
  case Nil
  have "0 \<le> potential t0 lo"
  proof (cases lo)
    case (Some l)
    then show ?thesis using Nil.prems(3) by (simp add: potential_def limiter_ok_def second_def)
  qed (simp add: potential_def)
  moreover have "(0 :: rat) \<le> 10 * of_int (t1 - t0) / of_int second"
    using Nil.prems(1) by (simp add: second_def)
  ultimately show ?case by (simp add: admitted_def)
next
  case (Cons c cs)
  obtain i pk where c: "c = (i, pk)" by (cases c)
  then have i: "t0 \<le> at_ban i" "ordered i" "paced (at_now i) t1 cs" using Cons.prems(1) by simp_all
  note o = i(2) [unfolded ordered_def]
  have t1: "at_now i \<le> t1" by (rule paced_le [OF i(3)])
  let ?l = "fst (limiter_step rnd i pk lo)" and ?a = "snd (limiter_step rnd i pk lo)"
  have lo: "limiter_ok l \<and> lastRefill l \<le> at_ban i" "late_enough (at_now i - lastRefill l)" if "lo = Some l" for l
    using Cons.prems(3) [OF that] i(1) o t1 by (auto simp: late_enough_def)
  have ok: "limiter_ok ?l" "lastRefill ?l \<le> at_now i"
    using limiter_step_ok [OF r(1) i(2) lo(1)] by blast+
  have "t1 - lastRefill ?l < 2 ^ 30 * second"
    using step_lastRefill [of rnd i pk lo] Cons.prems(2,3) i(1) o t1 by fastforce
  with ok have ih: "of_nat (admitted (snd (step_run rnd cs (Some ?l)))) \<le>
      potential (at_now i) (Some ?l) + 10 * of_int (t1 - at_now i) / of_int second + 50 * \<epsilon> * of_nat (length cs)"
    using Cons.prems(2) i(1) o by (intro Cons.IH [OF i(3)]) auto
  have "at_now i - at_new i < 2 ^ 30 * second"
    using Cons.prems(2) i(1) o t1 by linarith
  from limiter_step_potential [OF r i(2) this, of lo pk] lo
  have st: "potential (at_now i) (Some ?l) + (if ?a = [] then 1 else 0) \<le> potential (at_now i) lo + 50 * \<epsilon>"
    by blast
  have grow: "potential (at_now i) lo \<le> potential t0 lo + 10 * of_int (at_now i - t0) / of_int second"
  proof (cases lo)
    case None
    have "(0 :: rat) \<le> 10 * of_int (at_now i - t0) / of_int second" using i(1) o by (simp add: second_def)
    then show ?thesis using None by (simp add: potential_def)
  next
    case (Some l)
    then show ?thesis by (simp add: potential_def second_def field_simps)
  qed
  have split: "(10 * of_int (t1 - at_now i) / of_int second + 10 * of_int (at_now i - t0) / of_int second :: rat) =
      10 * of_int (t1 - t0) / of_int second"
    by (simp add: second_def field_simps)
  have "of_nat (admitted (snd (step_run rnd (c # cs) lo))) =
      (if ?a = [] then 1 else 0) + (of_nat (admitted (snd (step_run rnd cs (Some ?l)))) :: rat)"
    by (simp add: c case_prod_beta Let_def admitted_def)
  also have "\<dots> \<le> potential t0 lo + 10 * of_int (t1 - t0) / of_int second + (50 * \<epsilon> + 50 * \<epsilon> * of_nat (length cs))"
    using ih st grow split by linarith
  finally show ?case by (simp add: algebra_simps)
qed

text \<open>C33: Over any period (shorter than 34 years) a new address gets at most 20 messages through, plus 10 for
  every second of the period, however its messages are spread and however often it is refused, up to
  50 rounding errors per message (less than a hundredth of a message each in \<^verbatim>\<open>float64\<close>).\<close>

theorem rate_bound:
  assumes "rounding \<epsilon> rnd" "\<epsilon> \<le> 1" "paced t0 t1 cs" "t1 - t0 < 2 ^ 30 * second"
    and "mget (ipLimiters r) ip = None"
  shows "of_nat (admitted (snd (rate_run rnd ip cs r))) \<le>
    20 + 10 * of_int (t1 - t0) / of_int second + 50 * \<epsilon> * of_nat (length cs)"
  using step_run_bound [OF assms(1-4), of None] assms(5)
  by (simp add: rate_run_step_run potential_def)

lemma rate_bound_witness:
  "of_nat (admitted (snd (rate_run (\<lambda>x. x) ''a'' (replicate 99 (at_instant 0, []))
    \<lparr>ipLimiters = [], rateLimitedCount = 0\<rparr>))) \<le> (20 :: rat)"
proof -
  have "paced 0 0 (replicate n (at_instant 0, []))" for n
    by (induction n) (simp_all add: ordered_def)
  then show ?thesis
    using rate_bound [where \<epsilon> = 0 and rnd = "\<lambda>x. x" and ?t0.0 = 0 and ?t1.0 = 0 and ip = "''a''"
        and cs = "replicate 99 (at_instant 0, [])" and r = "\<lparr>ipLimiters = [], rateLimitedCount = 0\<rparr>", OF exact_rounding]
    by (simp add: second_def)
qed

end
