(* ===== verification/Nip02.thy ===== *)
theory Nip02
  imports Storage
begin

text \<open>
  Follow lists, \<^verbatim>\<open>pkg/nips/nip02/nip02.go\<close>: validation of kind 3 events and the extraction of the
  followed keys. Proved: which follow lists validate, and that the extracted keys of a valid list
  are 64 hex digits.
\<close>

definition check_p_tag :: "string list \<Rightarrow> error option" where
  "check_p_tag t =
    (if 1 \<le> length t \<and> t ! 0 = ''p'' then
       (if length t < 2 then Errorf ''p tag must have at least 2 elements (tag name and pubkey)''
        else if length (t ! 1) \<noteq> 64 then
          Errorf (''p tag pubkey must be 64 hex characters, got '' @ show_int (int (length (t ! 1))) @ '' characters'')
        else if \<not> all_hex (t ! 1) then Errorf (''p tag pubkey contains invalid hex characters: '' @ t ! 1)
        else None)
     else None)"

definition ValidateFollowList :: "event \<Rightarrow> error option" where
  "ValidateFollowList e =
    (if Kind e \<noteq> 3 then None
     else if Content e \<noteq> [] then Errorf ''follow list (kind 3) must have empty content''
     else (case first_err check_p_tag (tags e) of
       Some err \<Rightarrow> Some err
     | None \<Rightarrow>
         if filter (\<lambda>t. 1 \<le> length t \<and> t ! 0 = ''p'') (tags e) = []
         then Errorf ''follow list (kind 3) must have at least one p tag'' else None))"

definition HandleFollowList :: "event \<Rightarrow> error option" where
  "HandleFollowList e =
    (if Kind e \<noteq> 3 then None
     else map_option (wrap_err ''invalid follow list event: '') (ValidateFollowList e))"

definition ExtractFollowedPubkeys :: "event \<Rightarrow> error + string list" where
  "ExtractFollowedPubkeys e =
    (if Kind e \<noteq> 3 then Inl (ErrorString (''event is not a follow list (kind '' @ show_int (Kind e) @ '')''))
     else Inr (map (\<lambda>t. t ! 1) (filter (\<lambda>t. 2 \<le> length t \<and> t ! 0 = ''p'') (tags e))))"

record FollowedPubkey =
  fp_PubKey :: string
  fp_RelayURL :: string
  fp_Petname :: string

definition GetFollowedPubkeyWithDetails :: "event \<Rightarrow> FollowedPubkey list" where
  "GetFollowedPubkeyWithDetails e =
    (if Kind e \<noteq> 3 then []
     else map (\<lambda>t. \<lparr>fp_PubKey = t ! 1,
         fp_RelayURL = (if 3 \<le> length t \<and> t ! 2 \<noteq> [] then t ! 2 else []),
         fp_Petname = (if 4 \<le> length t \<and> t ! 3 \<noteq> [] then t ! 3 else [])\<rparr>)
       (filter (\<lambda>t. 2 \<le> length t \<and> t ! 0 = ''p'') (tags e)))"

definition IsFollowListEvent :: "event \<Rightarrow> bool" where
  "IsFollowListEvent e = (Kind e = 3)"

lemma check_p_tag_None:
  "check_p_tag t = None \<longleftrightarrow>
    \<not> (1 \<le> length t \<and> t ! 0 = ''p'') \<or> (2 \<le> length t \<and> length (t ! 1) = 64 \<and> all_hex (t ! 1))"
  by (auto simp: check_p_tag_def)

lemma ValidateFollowList_ok:
  "ValidateFollowList e = None \<longleftrightarrow> Kind e \<noteq> 3 \<or>
    (Content e = [] \<and> (\<exists>t \<in> set (tags e). 1 \<le> length t \<and> t ! 0 = ''p'') \<and>
     (\<forall>t \<in> set (tags e). 1 \<le> length t \<longrightarrow> t ! 0 = ''p'' \<longrightarrow>
        2 \<le> length t \<and> length (t ! 1) = 64 \<and> all_hex (t ! 1)))"
proof -
  have a: "first_err check_p_tag (tags e) = None \<longleftrightarrow> (\<forall>t \<in> set (tags e). 1 \<le> length t \<longrightarrow> t ! 0 = ''p'' \<longrightarrow>
        2 \<le> length t \<and> length (t ! 1) = 64 \<and> all_hex (t ! 1))"
    unfolding first_err_None_iff check_p_tag_None by blast
  have b: "filter (\<lambda>t. 1 \<le> length t \<and> t ! 0 = ''p'') (tags e) = [] \<longleftrightarrow>
      \<not> (\<exists>t \<in> set (tags e). 1 \<le> length t \<and> t ! 0 = ''p'')"
    unfolding filter_empty_conv by blast
  show ?thesis
    unfolding ValidateFollowList_def a [symmetric] b
    by (cases "first_err check_p_tag (tags e)") auto
qed

lemma ExtractFollowedPubkeys_valid:
  assumes "Kind e = 3" "ValidateFollowList e = None"
  shows "\<exists>ks. ExtractFollowedPubkeys e = Inr ks \<and> ks \<noteq> [] \<and>
    map fp_PubKey (GetFollowedPubkeyWithDetails e) = ks \<and> (\<forall>k \<in> set ks. length k = 64 \<and> all_hex k)"
proof -
  have v: "\<exists>t \<in> set (tags e). 1 \<le> length t \<and> t ! 0 = ''p''"
    "\<And>t. t \<in> set (tags e) \<Longrightarrow> 1 \<le> length t \<Longrightarrow> t ! 0 = ''p'' \<Longrightarrow>
      2 \<le> length t \<and> length (t ! 1) = 64 \<and> all_hex (t ! 1)"
    using assms by (simp_all only: ValidateFollowList_ok) blast+
  have "filter (\<lambda>t. 2 \<le> length t \<and> t ! 0 = ''p'') (tags e) \<noteq> []"
    unfolding filter_empty_conv using v by blast
  moreover have "map fp_PubKey (GetFollowedPubkeyWithDetails e) =
      map (\<lambda>t. t ! 1) (filter (\<lambda>t. 2 \<le> length t \<and> t ! 0 = ''p'') (tags e))"
    using assms(1) by (simp add: GetFollowedPubkeyWithDetails_def)
  ultimately show ?thesis
    using assms(1) v(2) by (auto simp: ExtractFollowedPubkeys_def)
qed

end
