(* ===== verification/Nip22.thy ===== *)
theory Nip22
  imports Storage
begin

text \<open>
  Comments, \<^verbatim>\<open>pkg/nips/nip22/nip22.go\<close>: the thread structure of a kind 1111 event (upper-case
  tags name the root, lower-case tags the parent) and its validation. The two \<^verbatim>\<open>map[string]string\<close>
  of the code are Go maps built by a loop; the \<^verbatim>\<open>range\<close> over the parent map stops at the first
  difference, so its order does not show and the definition asks for the existence of one.

  Proved: which comments validate.
\<close>

record CommentThreadInfo =
  RootTags :: "string list"
  ParentTags :: "string list"
  IsReply :: bool
  RootEventID :: string
  ParentEventID :: string

abbreviation err_not_comment :: "event \<Rightarrow> error" where
  "err_not_comment e \<equiv> ErrorString (''event is not a comment (kind '' @ show_int (Kind e) @ '')'')"

definition root_scope :: "string list \<Rightarrow> bool" where
  "root_scope t \<longleftrightarrow> 2 \<le> length t \<and> length (t ! 0) = 1 \<and> is_upper1 (t ! 0) \<and> t ! 0 \<noteq> ''K'' \<and> t ! 0 \<noteq> ''P''"

definition parent_scope :: "string list \<Rightarrow> bool" where
  "parent_scope t \<longleftrightarrow> 2 \<le> length t \<and> length (t ! 0) = 1 \<and> is_lower1 (t ! 0) \<and> t ! 0 \<noteq> ''k'' \<and> t ! 0 \<noteq> ''p''"

text \<open>The value of the last tag of a given name in a scope: each later tag overwrites it.\<close>

fun last_value :: "(string list \<Rightarrow> bool) \<Rightarrow> string \<Rightarrow> string list list \<Rightarrow> string \<Rightarrow> string" where
  "last_value scope n [] v = v"
| "last_value scope n (t # ts) v =
     last_value scope n ts (if scope t \<and> t ! 0 = n then t ! 1 else v)"

text \<open>The loop that fills the two maps of tag values, root scope first.\<close>

fun scope_maps :: "string list list \<Rightarrow> (string, string) gomap \<Rightarrow> (string, string) gomap \<Rightarrow>
    (string, string) gomap \<times> (string, string) gomap" where
  "scope_maps [] rm pm = (rm, pm)"
| "scope_maps (t # ts) rm pm =
     (if root_scope t then scope_maps ts (mput (t ! 0) (t ! 1) rm) pm
      else if parent_scope t then scope_maps ts rm (mput (t ! 0) (t ! 1) pm)
      else scope_maps ts rm pm)"

definition has_different_parent :: "string list list \<Rightarrow> bool" where
  "has_different_parent ts =
    (let (rm, pm) = scope_maps ts [] [] in
     list_ex (\<lambda>(pTag, pValue). case mget rm (upper1 pTag) of
       Some rValue \<Rightarrow> rValue \<noteq> pValue | None \<Rightarrow> False) pm)"

definition ExtractCommentThreadInfo :: "event \<Rightarrow> error + CommentThreadInfo" where
  "ExtractCommentThreadInfo e =
    (if Kind e \<noteq> 1111 then Inl (err_not_comment e)
     else
       let root = last_value root_scope ''E'' (tags e) [];
           parent = last_value parent_scope ''e'' (tags e) [];
           different = (root \<noteq> [] \<and> parent \<noteq> [] \<and> root \<noteq> parent)
       in Inr \<lparr>RootTags = map (\<lambda>t. t ! 0) (filter root_scope (tags e)),
               ParentTags = map (\<lambda>t. t ! 0) (filter parent_scope (tags e)),
               IsReply = (if different then True else has_different_parent (tags e)),
               RootEventID = root, ParentEventID = parent\<rparr>)"

definition IsCommentEvent :: "event \<Rightarrow> bool" where
  "IsCommentEvent e = (Kind e = 1111)"

definition comment_tag :: "string \<Rightarrow> string \<Rightarrow> event \<Rightarrow> error + string" where
  "comment_tag n msg e =
    (if \<not> IsCommentEvent e then Inl (err_not_comment e)
     else (case first_tag n e of Some v \<Rightarrow> Inr v | None \<Rightarrow> Inl (ErrorString msg)))"

definition GetRootKind :: "event \<Rightarrow> error + string" where
  "GetRootKind e = comment_tag ''K'' ''K tag not found'' e"

definition GetParentKind :: "event \<Rightarrow> error + string" where
  "GetParentKind e = comment_tag ''k'' ''k tag not found'' e"

definition GetRootPubkey :: "event \<Rightarrow> error + string" where
  "GetRootPubkey e = comment_tag ''P'' ''P tag not found'' e"

definition GetParentPubkey :: "event \<Rightarrow> error + string" where
  "GetParentPubkey e = comment_tag ''p'' ''p tag not found'' e"

definition IsTopLevelComment :: "event \<Rightarrow> error + bool" where
  "IsTopLevelComment e = (case ExtractCommentThreadInfo e of
     Inl err \<Rightarrow> Inl err | Inr info \<Rightarrow> Inr (\<not> IsReply info))"

definition ValidateCommentForKind :: "event \<Rightarrow> int \<Rightarrow> error option" where
  "ValidateCommentForKind e rootKind =
    (if \<not> IsCommentEvent e then Some (err_not_comment e)
     else if rootKind = 1 then
       Errorf ''comments must not be used to reply to kind 1 notes, use NIP-10 instead''
     else None)"

text \<open>\<^verbatim>\<open>strconv.Atoi\<close>; only whether it fails is used.\<close>

definition ParseKind :: "unicode \<Rightarrow> string \<Rightarrow> int option" where
  "ParseKind U kindStr = (if ToLower U kindStr = ''web'' then Some (- 1) else ParseInt kindStr)"

text \<open>The branches of \<^verbatim>\<open>validateTagRelationships\<close> are empty: it accepts every event.\<close>

definition validateTagRelationships :: "event \<Rightarrow> error option" where
  "validateTagRelationships e = None"

definition check_kind_tag :: "string list \<Rightarrow> error option" where
  "check_kind_tag t =
    (if 1 \<le> length t then
       (if t ! 0 = ''K'' \<and> (length t < 2 \<or> t ! 1 = []) then Errorf ''K tag must have a kind value''
        else if t ! 0 = ''k'' \<and> (length t < 2 \<or> t ! 1 = []) then Errorf ''k tag must have a kind value''
        else None)
     else None)"

definition has_named :: "string \<Rightarrow> event \<Rightarrow> bool" where
  "has_named n e = list_ex (\<lambda>t. 1 \<le> length t \<and> t ! 0 = n) (tags e)"

definition ValidateComment :: "unicode \<Rightarrow> event \<Rightarrow> error option" where
  "ValidateComment U e =
    (if Kind e \<noteq> 1111 then None
     else if TrimSpace (Content e) = [] then Errorf ''comment (kind 1111) must have non-empty content''
     else (case ExtractCommentThreadInfo e of
       Inl err \<Rightarrow> Some (wrap_err ''invalid comment thread structure: '' err)
     | Inr _ \<Rightarrow>
       (case first_err check_kind_tag (tags e) of
         Some err \<Rightarrow> Some err
       | None \<Rightarrow>
         if \<not> has_named ''K'' e then Errorf ''comment must have K tag specifying root kind''
         else if \<not> has_named ''k'' e then Errorf ''comment must have k tag specifying parent kind''
         else (case validateTagRelationships e of
           Some err \<Rightarrow> Some err
         | None \<Rightarrow>
           (case GetRootKind e of
             Inr rootKind \<Rightarrow>
               if ParseKind U rootKind = Some 1
               then Errorf ''comments must not be used to reply to kind 1 notes, use NIP-10 instead''
               else None
           | Inl _ \<Rightarrow> None)))))"

lemma check_kind_tag_None:
  "check_kind_tag t = None \<longleftrightarrow> (1 \<le> length t \<longrightarrow> t ! 0 = ''K'' \<or> t ! 0 = ''k'' \<longrightarrow> 2 \<le> length t \<and> t ! 1 \<noteq> [])"
  by (auto simp: check_kind_tag_def)

text \<open>A comment validates exactly when it has non-blank content, a \<open>K\<close> and a \<open>k\<close> tag, every such tag
  has a non-empty value, and the first \<open>K\<close> value does not read as the number 1. Nothing else of the
  thread structure is required: a comment with no root or parent reference at all is accepted.\<close>

theorem ValidateComment_ok:
  "ValidateComment U e = None \<longleftrightarrow> (if Kind e = 1111 then
     TrimSpace (Content e) \<noteq> [] \<and>
     (\<exists>t \<in> set (tags e). 1 \<le> length t \<and> t ! 0 = ''K'') \<and> (\<exists>t \<in> set (tags e). 1 \<le> length t \<and> t ! 0 = ''k'') \<and>
     (\<nexists>t. t \<in> set (tags e) \<and> 1 \<le> length t \<and> (t ! 0 = ''K'' \<or> t ! 0 = ''k'') \<and> (length t < 2 \<or> t ! 1 = [])) \<and>
     (\<nexists>v. first_tag ''K'' e = Some v \<and> ParseKind U v = Some 1) else True)"
proof (cases "Kind e = 1111")
  case True
  have a: "first_err check_kind_tag (tags e) = None \<longleftrightarrow>
     (\<nexists>t. t \<in> set (tags e) \<and> 1 \<le> length t \<and> (t ! 0 = ''K'' \<or> t ! 0 = ''k'') \<and> (length t < 2 \<or> t ! 1 = []))"
    unfolding first_err_None_iff check_kind_tag_None by (meson not_le)
  have b: "has_named n e \<longleftrightarrow> (\<exists>t \<in> set (tags e). 1 \<le> length t \<and> t ! 0 = n)" for n
    by (simp add: has_named_def list_ex_iff)
  have c: "\<exists>i. ExtractCommentThreadInfo e = Inr i"
    using True by (simp add: ExtractCommentThreadInfo_def Let_def)
  have d: "GetRootKind e = (case first_tag ''K'' e of Some v \<Rightarrow> Inr v | None \<Rightarrow> Inl (ErrorString ''K tag not found''))"
    using True by (simp add: GetRootKind_def comment_tag_def IsCommentEvent_def)
  show ?thesis
    unfolding ValidateComment_def a [symmetric] b [symmetric] d
    using True c by (cases "first_err check_kind_tag (tags e)"; cases "first_tag ''K'' e")
      (auto simp: validateTagRelationships_def)
qed (simp add: ValidateComment_def)

text \<open>A later tag of the same name overrides an earlier one.\<close>

lemma last_value_snoc:
  "last_value scope n (ts @ [t]) v = (if scope t \<and> t ! 0 = n then t ! 1 else last_value scope n ts v)"
  by (induction ts arbitrary: v) auto

end
