(* ===== verification/Nip25.thy ===== *)
theory Nip25
  imports Storage
begin

text \<open>
  Reactions, \<^verbatim>\<open>pkg/nips/nip25/nip25.go\<close>: validation of kind 7 events and the accessors for what
  is reacted to and how. Proved: which reactions validate, and that like, dislike and emoji
  partition the reactions.
\<close>

definition validateReactionContent :: "string \<Rightarrow> error option" where
  "validateReactionContent content =
    (if TrimSpace content = [] then None
     else if length content = 1 then None
     else if HasPrefix content '':'' then
       (let parts = Split content (CHR '':'') in
        if 3 \<le> length parts \<and> parts ! 0 = [] \<and> parts ! (length parts - 1) = [] then
          (if TrimSpace (Join (take (length parts - 2) (drop 1 parts)) '':'') = []
           then Errorf ''emoji shortcode cannot be empty'' else None)
        else Errorf ''invalid emoji shortcode format, expected :shortcode:'')
     else None)"

text \<open>The three loops each stop at the first tag of their name.\<close>

definition ValidateReaction :: "event \<Rightarrow> error option" where
  "ValidateReaction e =
    (if Kind e \<noteq> 7 then None
     else (case first_tag ''e'' e of
       None \<Rightarrow> Errorf ''reaction must have at least one e tag pointing to the event being reacted to''
     | Some i \<Rightarrow>
         if i = [] then Errorf ''e tag must have event ID''
         else if length i \<noteq> 64 then Errorf ''e tag event ID must be 64 hex characters''
         else if \<not> all_hex i then Errorf ''e tag event ID contains invalid hex characters''
         else (case validateReactionContent (Content e) of
           Some err \<Rightarrow> Some (wrap_err ''invalid reaction content: '' err)
         | None \<Rightarrow>
           (case (case first_tag ''p'' e of
               None \<Rightarrow> None
             | Some p \<Rightarrow>
                 if length p \<noteq> 64 then Errorf ''p tag pubkey must be 64 hex characters''
                 else if \<not> all_hex p then Errorf ''p tag pubkey contains invalid hex characters''
                 else None) of
             Some err \<Rightarrow> Some err
           | None \<Rightarrow>
             (case first_tag ''k'' e of
                None \<Rightarrow> None
              | Some k \<Rightarrow> if ParseInt k = None then Errorf ''k tag must be a stringified number'' else None)))))"

definition IsReactionEvent :: "event \<Rightarrow> bool" where
  "IsReactionEvent e = (Kind e = 7)"

definition GetReactedEventIDs :: "event \<Rightarrow> string slice" where
  "GetReactedEventIDs e = (if \<not> IsReactionEvent e then None else Some (GetTagValues e ''e''))"

definition GetReactedEventAuthors :: "event \<Rightarrow> string slice" where
  "GetReactedEventAuthors e = (if \<not> IsReactionEvent e then None else Some (GetTagValues e ''p''))"

definition GetReactionType :: "event \<Rightarrow> string" where
  "GetReactionType e =
    (if \<not> IsReactionEvent e then []
     else let content = TrimSpace (Content e) in if content = [] then ''+'' else content)"

definition IsLikeReaction :: "event \<Rightarrow> bool" where
  "IsLikeReaction e =
    (if \<not> IsReactionEvent e then False
     else let content = TrimSpace (Content e) in content = [] \<or> content = ''+'')"

definition IsDislikeReaction :: "event \<Rightarrow> bool" where
  "IsDislikeReaction e = (if \<not> IsReactionEvent e then False else TrimSpace (Content e) = ''-'')"

definition IsEmojiReaction :: "event \<Rightarrow> bool" where
  "IsEmojiReaction e =
    (if \<not> IsReactionEvent e then False
     else let content = TrimSpace (Content e) in
       if content = [] \<or> content = ''+'' \<or> content = ''-'' then False
       else if HasPrefix content '':shortcode:'' then True else True)"

definition GetReactedEventKind :: "unicode \<Rightarrow> event \<Rightarrow> error + int" where
  "GetReactedEventKind U e =
    (if \<not> IsReactionEvent e then Inl (ErrorString ''event is not a reaction'')
     else (case first_tag ''k'' e of
       None \<Rightarrow> Inl (ErrorString ''k tag not found'')
     | Some v \<Rightarrow> (case ParseInt v of
         None \<Rightarrow> Inl (ErrorString (''invalid k tag value: '' @ Error (atoi_error U v)))
       | Some k \<Rightarrow> Inr k)))"

lemma split_acc_nonempty [simp]: "split_acc sep acc s \<noteq> []"
  by (induction s arbitrary: acc) simp_all

lemma Join_split_acc: "Join (split_acc sep acc s) [sep] = rev acc @ s"
proof (induction s arbitrary: acc)
  case (Cons c s)
  have "Join (x # split_acc sep [] s) [sep] = x @ [sep] @ Join (split_acc sep [] s) [sep]" for x
    by (cases "split_acc sep [] s") simp_all
  then show ?case using Cons.IH by simp
qed simp

lemma split_acc_snoc: "split_acc sep acc (s @ [sep]) = split_acc sep acc s @ [[]]"
  by (induction s arbitrary: acc) simp_all

lemma Join_snoc: "xs \<noteq> [] \<Longrightarrow> Join (xs @ [b]) sep = Join xs sep @ sep @ b"
  by (induction xs sep rule: Join.induct) simp_all

lemma TrimSpace_Nil: "TrimSpace [] = []"
  by code_simp

text \<open>A colon word is accepted when it is closed by a colon and not blank between.\<close>

lemma shortcode_parts:
  "(let parts = Split c (CHR '':'') in 3 \<le> length parts \<and> parts ! 0 = [] \<and> parts ! (length parts - 1) = [] \<and>
      TrimSpace (Join (take (length parts - 2) (drop 1 parts)) '':'') \<noteq> []) \<longleftrightarrow>
    (\<exists>m. c = '':'' @ m @ '':'' \<and> TrimSpace m \<noteq> [])" (is "?P \<longleftrightarrow> ?Q")
proof
  assume ?P
  then have p: "3 \<le> length (Split c (CHR '':''))" "Split c (CHR '':'') ! 0 = []"
    "Split c (CHR '':'') ! (length (Split c (CHR '':'')) - 1) = []"
    "TrimSpace (Join (take (length (Split c (CHR '':'')) - 2) (drop 1 (Split c (CHR '':'')))) '':'') \<noteq> []"
    unfolding Let_def by blast+
  obtain x ys where xs: "Split c (CHR '':'') = x # ys" using p(1) by (cases "Split c (CHR '':'')") simp_all
  obtain inner y where ys: "ys = inner @ [y]" using p(1) xs by (cases ys rule: rev_cases) simp_all
  have e: "x = []" "y = []" "inner \<noteq> []" using p(1-3) xs ys by (auto simp: nth_append)
  have i: "take (length (Split c (CHR '':'')) - 2) (drop 1 (Split c (CHR '':''))) = inner" using xs ys by simp
  have "c = Join ([] # inner @ [[]]) '':''"
    using Join_split_acc [of "CHR '':''" "[]" c] xs ys e by (simp add: Split_def)
  also have "\<dots> = '':'' @ Join inner '':'' @ '':''"
    using e(3) Join_snoc [OF e(3), of "[]" "'':''"] by (cases inner) simp_all
  finally show ?Q using p(4) unfolding i by blast
next
  assume ?Q
  then obtain m where m: "c = '':'' @ m @ '':''" "TrimSpace m \<noteq> []" by blast
  have "Split c (CHR '':'') = [] # split_acc (CHR '':'') [] m @ [[]]"
    by (simp add: Split_def m(1) split_acc_snoc)
  moreover have "Join (split_acc (CHR '':'') [] m) '':'' = m"
    using Join_split_acc [of "CHR '':''" "[]" m] by simp
  moreover have "1 \<le> length (split_acc (CHR '':'') [] m)"
    by (cases "split_acc (CHR '':'') [] m") (use split_acc_nonempty in simp_all)
  ultimately show ?P using m(2) by (simp add: nth_append Let_def)
qed

lemma validateReactionContent_ok:
  "validateReactionContent c = None \<longleftrightarrow>
    TrimSpace c = [] \<or> length c = 1 \<or> \<not> HasPrefix c '':'' \<or> (\<exists>m. c = '':'' @ m @ '':'' \<and> TrimSpace m \<noteq> [])"
  unfolding shortcode_parts [symmetric] validateReactionContent_def Let_def by auto

text \<open>A reaction validates exactly when its first \<open>e\<close> tag is 64 hex digits, its content is blank, one
  byte, not a colon word, or a non-blank \<open>:shortcode:\<close>, its first \<open>p\<close> tag, if any, is 64 hex digits and
  its first \<open>k\<close> tag, if any, is a number. Later tags of the same names are not looked at.\<close>

theorem ValidateReaction_ok:
  "ValidateReaction e = None \<longleftrightarrow> (if Kind e = 7 then
    (\<exists>i. first_tag ''e'' e = Some i \<and> length i = 64 \<and> all_hex i) \<and>
     (TrimSpace (Content e) = [] \<or> length (Content e) = 1 \<or>
       (if hd (Content e) = CHR '':'' then \<exists>m. Content e = '':'' @ m @ '':'' \<and> TrimSpace m \<noteq> [] else True)) \<and>
     (case first_tag ''p'' e of None \<Rightarrow> True | Some p \<Rightarrow> length p = 64 \<and> all_hex p) \<and>
     (case first_tag ''k'' e of None \<Rightarrow> True | Some k \<Rightarrow> ParseInt k \<noteq> None) else True)"
proof -
  have h: "TrimSpace c \<noteq> [] \<Longrightarrow> HasPrefix c '':'' \<longleftrightarrow> hd c = CHR '':''" for c
    by (cases c) (simp_all add: TrimSpace_Nil)
  have t: "(TrimSpace c = [] \<or> length c = 1 \<or> (if hd c = CHR '':'' then P else True)) \<longleftrightarrow>
      (TrimSpace c = [] \<or> length c = 1 \<or> \<not> HasPrefix c '':'' \<or> P)" for c P
    by (cases "TrimSpace c = []") (simp_all add: h)
  have "length i \<noteq> 64 \<or> \<not> all_hex i" if "i = []" for i using that by simp
  then show ?thesis
    unfolding t validateReactionContent_ok [symmetric]
    by (cases "first_tag ''e'' e"; cases "validateReactionContent (Content e)"; cases "first_tag ''p'' e";
        cases "first_tag ''k'' e") (simp_all add: ValidateReaction_def)
qed

text \<open>Every reaction is exactly one of like, dislike and emoji.\<close>

lemma reaction_partition:
  assumes "Kind e = 7"
  shows "IsLikeReaction e \<longleftrightarrow> GetReactionType e = ''+''"
    "IsDislikeReaction e \<longleftrightarrow> GetReactionType e = ''-''"
    "IsEmojiReaction e \<longleftrightarrow> \<not> IsLikeReaction e \<and> \<not> IsDislikeReaction e"
  using assms by (auto simp: IsLikeReaction_def IsDislikeReaction_def IsEmojiReaction_def GetReactionType_def
    IsReactionEvent_def Let_def)

end
