(* ===== verification/Nip28.thy ===== *)
theory Nip28
  imports Storage
begin

text \<open>
  Public channels, \<^verbatim>\<open>pkg/nips/nip28/nip28.go\<close>: validation of kinds 40 to 44, which verifies the
  signature when there is one, and the parsing of channel metadata, where the last tag of a name
  wins. Proved: what an accepted channel event carries, and the dispatcher against the kinds.
\<close>

abbreviation err_kind :: "string \<Rightarrow> event \<Rightarrow> error option" where
  "err_kind s e \<equiv> Errorf (s @ show_int (Kind e))"

definition nip28_getChannelID :: "event \<Rightarrow> string" where
  "nip28_getChannelID e = first_tag_or_empty ''channel_id'' e"

definition getEventID :: "event \<Rightarrow> string" where
  "getEventID e = first_tag_or_empty ''e'' e"

definition getPubkey :: "event \<Rightarrow> string" where
  "getPubkey e = first_tag_or_empty ''p'' e"

definition verify_if_signed :: "('pk, 'sg) crypto \<Rightarrow> event \<Rightarrow> error option" where
  "verify_if_signed C e = (if Sig e \<noteq> [] then VerifySignature C e else None)"

definition ValidateChannelCreate :: "('pk, 'sg) crypto \<Rightarrow> event \<Rightarrow> error option" where
  "ValidateChannelCreate C e =
    (if Kind e \<noteq> 40 then err_kind ''not a channel create event: kind '' e
     else if Content e = [] then Errorf ''channel name cannot be empty''
     else if 256 < length (Content e) then Errorf ''channel name too long: max 256 characters''
     else if nip28_getChannelID e = [] then Errorf ''missing or invalid channel id in tags''
     else verify_if_signed C e)"

definition ValidateChannelMetadata :: "('pk, 'sg) crypto \<Rightarrow> event \<Rightarrow> error option" where
  "ValidateChannelMetadata C e =
    (if Kind e \<noteq> 41 then err_kind ''not a channel metadata event: kind '' e
     else if Content e = [] \<and> tags e = [] then Errorf ''channel metadata cannot be empty''
     else if nip28_getChannelID e = [] then Errorf ''missing or invalid channel id in tags''
     else verify_if_signed C e)"

definition ValidateChannelMessage :: "('pk, 'sg) crypto \<Rightarrow> event \<Rightarrow> error option" where
  "ValidateChannelMessage C e =
    (if Kind e \<noteq> 42 then err_kind ''not a channel message event: kind '' e
     else if TrimSpace (Content e) = [] then Errorf ''message content cannot be empty''
     else if 16384 < length (Content e) then Errorf ''message too long: max 16384 characters''
     else if nip28_getChannelID e = [] then Errorf ''missing or invalid channel id in tags''
     else verify_if_signed C e)"

definition ValidateChannelHide :: "('pk, 'sg) crypto \<Rightarrow> event \<Rightarrow> error option" where
  "ValidateChannelHide C e =
    (if Kind e \<noteq> 43 then err_kind ''not a channel hide event: kind '' e
     else if TrimSpace (Content e) = [] then Errorf ''hide reason cannot be empty''
     else if getEventID e = [] then Errorf ''missing event id in tags''
     else verify_if_signed C e)"

definition ValidateChannelMute :: "('pk, 'sg) crypto \<Rightarrow> event \<Rightarrow> error option" where
  "ValidateChannelMute C e =
    (if Kind e \<noteq> 44 then err_kind ''not a channel mute event: kind '' e
     else if getPubkey e = [] then Errorf ''missing pubkey in tags''
     else verify_if_signed C e)"

definition nip28_Process :: "('pk, 'sg) crypto \<Rightarrow> event \<Rightarrow> error option" where
  "nip28_Process C e =
    (if Kind e = 40 then ValidateChannelCreate C e
     else if Kind e = 41 then ValidateChannelMetadata C e
     else if Kind e = 42 then ValidateChannelMessage C e
     else if Kind e = 43 then ValidateChannelHide C e
     else if Kind e = 44 then ValidateChannelMute C e
     else err_kind ''unsupported NIP-28 kind: '' e)"

definition IsNIP28Event :: "event \<Rightarrow> bool" where
  "IsNIP28Event e = (Kind e \<in> {40, 41, 42, 43, 44})"

record Channel =
  ch_ID :: string
  ch_Name :: string
  ch_Description :: string
  ch_Picture :: string
  ch_CreatedAt :: int
  ch_UpdatedAt :: int

fun channel_tags :: "string list list \<Rightarrow> Channel \<Rightarrow> Channel" where
  "channel_tags [] c = c"
| "channel_tags (t # ts) c =
     channel_tags ts
      (if 2 \<le> length t then
         (if t ! 0 = ''name'' then c\<lparr>ch_Name := t ! 1\<rparr>
          else if t ! 0 = ''description'' then c\<lparr>ch_Description := t ! 1\<rparr>
          else if t ! 0 = ''picture'' then c\<lparr>ch_Picture := t ! 1\<rparr>
          else c)
       else c)"

definition ParseChannelMetadata :: "event \<Rightarrow> error + Channel" where
  "ParseChannelMetadata e =
    (if Kind e \<noteq> 41 \<and> Kind e \<noteq> 40 then Inl (ErrorString ''not a channel metadata or create event'')
     else Inr (channel_tags (tags e) \<lparr>ch_ID = nip28_getChannelID e, ch_Name = Content e,
       ch_Description = [], ch_Picture = [], ch_CreatedAt = CreatedAt e, ch_UpdatedAt = CreatedAt e\<rparr>))"

definition ParseChannelMessage :: "event \<Rightarrow> error + string" where
  "ParseChannelMessage e =
    (if Kind e \<noteq> 42 then Inl (ErrorString ''not a channel message event'') else Inr (Content e))"

definition IsReplaceableKind :: "int \<Rightarrow> bool" where
  "IsReplaceableKind k = (k = 40 \<or> k = 41)"

text \<open>An event the channel processor accepts is of one of the five channel kinds; it names its channel
  when it creates, describes or posts to one, and its target when it hides or mutes; a channel name is
  1 to 256 bytes and a message 1 to 16384; and when it is signed its signature has been verified.\<close>

theorem nip28_accepted:
  assumes "nip28_Process C e = None"
  shows "IsNIP28Event e
    \<and> (Kind e \<le> 42 \<longrightarrow> nip28_getChannelID e \<noteq> [])
    \<and> (Kind e = 40 \<longrightarrow> 1 \<le> length (Content e) \<and> length (Content e) \<le> 256)
    \<and> (Kind e = 42 \<longrightarrow> TrimSpace (Content e) \<noteq> [] \<and> length (Content e) \<le> 16384)
    \<and> (Kind e = 43 \<longrightarrow> getEventID e \<noteq> []) \<and> (Kind e = 44 \<longrightarrow> getPubkey e \<noteq> [])
    \<and> (Sig e \<noteq> [] \<longrightarrow> VerifySignature C e = None)"
proof -
  have k: "IsNIP28Event e"
    using assms by (auto simp: nip28_Process_def IsNIP28Event_def split: if_splits)
  then consider "Kind e = 40" | "Kind e = 41" | "Kind e = 42" | "Kind e = 43" | "Kind e = 44"
    by (auto simp: IsNIP28Event_def)
  then show ?thesis
  proof cases
    case 1
    with assms k show ?thesis
      by (simp add: nip28_Process_def ValidateChannelCreate_def verify_if_signed_def Suc_le_eq split: if_splits)
  next
    case 2
    with assms k show ?thesis
      by (simp add: nip28_Process_def ValidateChannelMetadata_def verify_if_signed_def split: if_splits)
  next
    case 3
    with assms k show ?thesis
      by (simp add: nip28_Process_def ValidateChannelMessage_def verify_if_signed_def split: if_splits)
  next
    case 4
    with assms k show ?thesis
      by (simp add: nip28_Process_def ValidateChannelHide_def verify_if_signed_def split: if_splits)
  next
    case 5
    with assms k show ?thesis
      by (simp add: nip28_Process_def ValidateChannelMute_def verify_if_signed_def split: if_splits)
  qed
qed

lemma nip28_accepted_witness:
  "IsNIP28Event (sample_event\<lparr>Kind := 44, Tags := Some [Some [''p'', ''aa'']], Sig := ''''\<rparr>)"
  by (rule nip28_accepted [where C = sample_crypto, THEN conjunct1])
    (simp add: nip28_Process_def ValidateChannelMute_def getPubkey_def first_tag_or_empty_def first_tag_def
      tags_def verify_if_signed_def)

text \<open>The parsed name is the last \<open>name\<close> tag's value, or the content when there is none.\<close>

lemma channel_tags_name:
  "ch_Name (channel_tags ts c) =
    (case filter (\<lambda>t. 2 \<le> length t \<and> t ! 0 = ''name'') ts of [] \<Rightarrow> ch_Name c | us \<Rightarrow> last us ! 1)"
proof (induction ts arbitrary: c)
  case (Cons t ts)
  show ?case
    by (cases "filter (\<lambda>t. 2 \<le> length t \<and> t ! 0 = ''name'') ts") (simp_all add: Cons.IH)
qed simp

end
