(* ===== verification/Nip36.thy ===== *)
theory Nip36
  imports Storage
begin

text \<open>
  The content-warning policy, \<^verbatim>\<open>pkg/nips/nip36/nip36.go\<close>: a vocabulary read from a file, reloaded
  when the file's modification time changes, and the decision whether an event must be refused.
  The file is an argument of \<open>reload\<close>: absent, or a modification time with content that can be
  read or not. The watcher, in \<open>Startup\<close>, is repeated calls of \<open>reload\<close>.

  Proved: the vocabulary never holds an empty or a repeated term, and which events are refused.
\<close>

record Policy =
  path :: string
  terms :: "string list"
  mtime :: int

record disk_file =
  ModTime :: int
  readable :: "error + string"

text \<open>\<^verbatim>\<open>bufio.Scanner\<close>: lines without their end-of-line marker (a carriage return before it goes
  too), nothing after a final newline; a line of 64 KiB or more is an error.\<close>

definition drop_cr :: "string \<Rightarrow> string" where
  "drop_cr l = (if l \<noteq> [] \<and> last l = CHR 0x0D then butlast l else l)"

definition scan_lines :: "string \<Rightarrow> error + string list" where
  "scan_lines content =
    (let ls = Split content (CHR 0x0A); ls = (if last ls = [] then butlast ls else ls) in
     if list_ex (\<lambda>l. 65536 \<le> length l) ls then Inl (ErrorString ''bufio.Scanner: token too long'')
     else Inr (map drop_cr ls))"

fun collect_terms :: "unicode \<Rightarrow> string list \<Rightarrow> (string, bool) gomap \<Rightarrow> string list \<Rightarrow> string list" where
  "collect_terms U [] seen ts = ts"
| "collect_terms U (l # ls) seen ts =
     (let line = TrimSpace l in
      if line = [] \<or> HasPrefix line ''#'' then collect_terms U ls seen ts
      else
        let t = ToLower U line in
        if mtrue seen t then collect_terms U ls seen ts
        else collect_terms U ls (mput t True seen) (ts @ [t]))"

definition loadFile :: "unicode \<Rightarrow> error + string \<Rightarrow> error + string list" where
  "loadFile U f = (case f of
      Inl err \<Rightarrow> Inl err
    | Inr content \<Rightarrow> (case scan_lines content of
        Inl err \<Rightarrow> Inl err
      | Inr ls \<Rightarrow> Inr (collect_terms U ls [] [])))"

definition reload :: "unicode \<Rightarrow> disk_file option \<Rightarrow> Policy \<Rightarrow> Policy" where
  "reload U file p =
    (if path p = [] then p
     else (case file of
       None \<Rightarrow> if mtime p \<noteq> 0 then p\<lparr>terms := [], mtime := 0\<rparr> else p
     | Some f \<Rightarrow>
         if ModTime f = mtime p then p
         else (case loadFile U (readable f) of
           Inl _ \<Rightarrow> p
         | Inr ts \<Rightarrow> p\<lparr>terms := ts, mtime := ModTime f\<rparr>)))"

definition New_policy :: "unicode \<Rightarrow> disk_file option \<Rightarrow> string \<Rightarrow> Policy" where
  "New_policy U file pth = reload U file \<lparr>path = pth, terms = [], mtime = 0\<rparr>"

definition HasContentWarning :: "event \<Rightarrow> bool" where
  "HasContentWarning e = list_ex (\<lambda>t. 1 \<le> length t \<and> t ! 0 = ''content-warning'') (tags e)"

fun matched_tag :: "unicode \<Rightarrow> string list \<Rightarrow> string list list \<Rightarrow> string" where
  "matched_tag U ts [] = []"
| "matched_tag U ts (tag # rest) =
     (if 2 \<le> length tag \<and> tag ! 0 = ''t'' then
        (case find (\<lambda>t. Contains (ToLower U (tag ! 1)) t) ts of
           Some t \<Rightarrow> t | None \<Rightarrow> matched_tag U ts rest)
      else matched_tag U ts rest)"

definition MatchedTerm :: "unicode \<Rightarrow> Policy \<Rightarrow> event \<Rightarrow> string" where
  "MatchedTerm U p e =
    (if terms p = [] then []
     else (case find (\<lambda>t. Contains (ToLower U (Content e)) t) (terms p) of
       Some t \<Rightarrow> t
     | None \<Rightarrow> matched_tag U (terms p) (tags e)))"

definition ShouldReject :: "unicode \<Rightarrow> Policy \<Rightarrow> event \<Rightarrow> string" where
  "ShouldReject U p e =
    (if HasContentWarning e then []
     else if MatchedTerm U p e \<noteq> []
       then ''blocked: NSFW content must include a content-warning tag (NIP-36)'' else [])"

definition TermCount :: "Policy \<Rightarrow> nat" where
  "TermCount p = length (terms p)"

section \<open>The vocabulary\<close>

lemma ToLower_nonempty: "s \<noteq> [] \<Longrightarrow> ToLower U s \<noteq> []"
proof -
  have e: "utf8_encode r \<noteq> []" for r by (simp add: utf8_encode_def)
  assume "s \<noteq> []"
  then obtain c r where "s = c # r" by (cases s) auto
  then show ?thesis by (simp add: ToLower_def e)
qed

lemma collect_terms_ok:
  assumes "distinct ts" "[] \<notin> set ts" "\<And>t. mtrue seen t \<longleftrightarrow> t \<in> set ts"
  shows "distinct (collect_terms U ls seen ts) \<and> [] \<notin> set (collect_terms U ls seen ts)"
  using assms
proof (induction ls arbitrary: seen ts)
  case (Cons l ls)
  let ?t = "ToLower U (TrimSpace l)"
  show ?case
  proof (cases "TrimSpace l = [] \<or> HasPrefix (TrimSpace l) ''#'' \<or> mtrue seen ?t")
    case True
    then show ?thesis using Cons by (auto simp: Let_def)
  next
    case False
    have "distinct (collect_terms U ls (mput ?t True seen) (ts @ [?t])) \<and>
        [] \<notin> set (collect_terms U ls (mput ?t True seen) (ts @ [?t]))"
      by (rule Cons.IH) (use False Cons.prems ToLower_nonempty [of "TrimSpace l" U] in \<open>auto simp: mtrue_mput\<close>)
    then show ?thesis using False by (simp add: Let_def)
  qed
qed simp

definition policy_inv :: "Policy \<Rightarrow> bool" where
  "policy_inv p \<longleftrightarrow> distinct (terms p) \<and> [] \<notin> set (terms p)"

lemma policy_inv_reload: "policy_inv p \<Longrightarrow> policy_inv (reload U file p)"
  using collect_terms_ok [of "[]" "[]" U]
  by (auto simp: reload_def policy_inv_def loadFile_def split: option.splits sum.splits)

lemma policy_inv_New: "policy_inv (New_policy U file pth)"
  unfolding New_policy_def by (rule policy_inv_reload) (simp add: policy_inv_def)

lemma matched_tag_iff:
  assumes "[] \<notin> set ts"
  shows "matched_tag U ts tgs \<noteq> [] \<longleftrightarrow>
    (\<exists>tag \<in> set tgs. 2 \<le> length tag \<and> tag ! 0 = ''t'' \<and> (\<exists>t \<in> set ts. Contains (ToLower U (tag ! 1)) t))"
proof (induction tgs)
  case (Cons tag rest)
  show ?case
  proof (cases "2 \<le> length tag \<and> tag ! 0 = ''t''")
    case True
    show ?thesis
    proof (cases "find (Contains (ToLower U (tag ! 1))) ts")
      case None
      then have "\<not> (\<exists>t \<in> set ts. Contains (ToLower U (tag ! 1)) t)"
        by (auto simp: find_None_iff)
      then show ?thesis using True None Cons by simp
    next
      case (Some t)
      then show ?thesis using True assms find_Some_iff_in [OF Some] by auto
    qed
  next
    case False
    then show ?thesis using Cons by auto
  qed
qed simp

text \<open>With a vocabulary loaded by any sequence of reloads, an event is refused exactly when it has no
  content-warning tag and some term occurs in its lower-cased content or in one of its lower-cased
  hashtags.\<close>

theorem ShouldReject_iff:
  assumes "p = foldl (\<lambda>p fl. reload U fl p) (New_policy U fl pth) files"
  shows "ShouldReject U p e \<noteq> [] \<longleftrightarrow> \<not> HasContentWarning e \<and>
    (\<exists>t \<in> set (terms p). Contains (ToLower U (Content e)) t \<or>
      (\<exists>tag \<in> set (tags e). 2 \<le> length tag \<and> tag ! 0 = ''t'' \<and> Contains (ToLower U (tag ! 1)) t))"
proof -
  have inv: "policy_inv (foldl (\<lambda>p fl. reload U fl p) q files)" if "policy_inv q" for q
    using that by (induction files arbitrary: q) (simp_all add: policy_inv_reload)
  have ne: "[] \<notin> set (terms p)"
    using inv [OF policy_inv_New] assms by (simp add: policy_inv_def)
  show ?thesis
  proof (cases "find (Contains (ToLower U (Content e))) (terms p)")
    case None
    then have c: "\<not> (\<exists>t \<in> set (terms p). Contains (ToLower U (Content e)) t)"
      by (auto simp: find_None_iff)
    have "MatchedTerm U p e \<noteq> [] \<longleftrightarrow> terms p \<noteq> [] \<and> matched_tag U (terms p) (tags e) \<noteq> []"
      using None by (simp add: MatchedTerm_def)
    then show ?thesis
      unfolding ShouldReject_def matched_tag_iff [OF ne] using c by auto
  next
    case (Some t)
    then have "t \<in> set (terms p)" "Contains (ToLower U (Content e)) t" "t \<noteq> []"
      using ne by (auto dest!: find_Some_iff_in)
    with Some show ?thesis
      by (cases "terms p = []") (auto simp: ShouldReject_def MatchedTerm_def)
  qed
qed

definition plain_unicode :: unicode where
  "plain_unicode = \<lparr>uc_lower = (\<lambda>r. r), uc_fold = (\<lambda>r. r), uc_print = (\<lambda>r. False)\<rparr>"

lemma ShouldReject_iff_witness:
  "ShouldReject plain_unicode (New_policy plain_unicode None ''f'') sample_event = []"
proof -
  have "terms (New_policy plain_unicode None ''f'') = []"
    by (simp add: New_policy_def reload_def)
  then show ?thesis
    using ShouldReject_iff [where files = "[]" and fl = None and pth = "''f''" and U = plain_unicode, OF refl,
      of sample_event] by simp
qed

end
