(* ===== verification/Nip40.thy ===== *)
theory Nip40
  imports Storage
begin

text \<open>
  Expiration, \<^verbatim>\<open>pkg/nips/nip40/nip40.go\<close>. A \<^verbatim>\<open>time.Time\<close> counts seconds since the year 1:
  \<^verbatim>\<open>time.Unix\<close> adds 62135596800 to a Unix timestamp in 64 bits, wrapping, and the zero time is
  the count 0. The clock is an argument: the Unix second and whether it has a nanosecond part.

  Proved: when an event is expired, for timestamps whose addition does not wrap; and that one at
  the top of the range is refused as expired.
\<close>

definition unixToInternal :: int where
  "unixToInternal = 62135596800"

definition time_Unix :: "int \<Rightarrow> int" where
  "time_Unix t = wrap64 (t + unixToInternal)"

text \<open>The expiration as seconds since the year 1; 0 is the zero time.\<close>

definition GetExpiration :: "event \<Rightarrow> int" where
  "GetExpiration e = (case first_tag ''expiration'' e of
      None \<Rightarrow> 0
    | Some v \<Rightarrow> (case ParseInt v of None \<Rightarrow> 0 | Some t \<Rightarrow> time_Unix t))"

record clock =
  now_sec :: int
  now_nsec :: nat

definition nip40_IsExpired :: "clock \<Rightarrow> event \<Rightarrow> bool" where
  "nip40_IsExpired now e =
    (if GetExpiration e = 0 then False
     else time_Unix (now_sec now) > GetExpiration e \<or>
       (time_Unix (now_sec now) = GetExpiration e \<and> now_nsec now > 0))"

definition ShouldRejectEvent :: "clock \<Rightarrow> event \<Rightarrow> bool" where
  "ShouldRejectEvent now e = nip40_IsExpired now e"

definition ShouldFilterEvent :: "clock \<Rightarrow> event \<Rightarrow> bool" where
  "ShouldFilterEvent now e = nip40_IsExpired now e"

text \<open>A clock within the years a relay runs in.\<close>

definition sane_clock :: "clock \<Rightarrow> bool" where
  "sane_clock now \<longleftrightarrow> 0 \<le> now_sec now \<and> now_sec now < 2 ^ 40"

lemma time_Unix_id: "in64 (t + unixToInternal) \<Longrightarrow> time_Unix t = t + unixToInternal"
  by (simp add: time_Unix_def wrap64_id)

lemma time_Unix_clock: "sane_clock now \<Longrightarrow> time_Unix (now_sec now) = now_sec now + unixToInternal"
  by (rule time_Unix_id) (simp add: sane_clock_def in64_def unixToInternal_def)

text \<open>An event is refused as expired exactly when its first expiration tag is a number in the past,
  for every timestamp below the last 62135596800 seconds of the 64-bit range (and other than the one
  that denotes the zero time).\<close>

theorem nip40_IsExpired_iff:
  assumes "sane_clock now"
    and "first_tag ''expiration'' e = Some v" "ParseInt v = Some t"
    and "t < 2 ^ 63 - unixToInternal" "t \<noteq> - unixToInternal"
  shows "ShouldRejectEvent now e \<longleftrightarrow> t < now_sec now \<or> (t = now_sec now \<and> now_nsec now > 0)"
proof -
  have "in64 t" using assms(3) by (auto simp: ParseInt_def Let_def split: prod.splits if_splits)
  then have "time_Unix t = t + unixToInternal"
    using assms(4) by (intro time_Unix_id) (simp add: in64_def unixToInternal_def)
  then show ?thesis
    using assms by (auto simp: ShouldRejectEvent_def nip40_IsExpired_def GetExpiration_def time_Unix_clock)
qed

lemma nip40_IsExpired_iff_witness:
  "ShouldRejectEvent \<lparr>now_sec = 100, now_nsec = 0\<rparr>
    (sample_event\<lparr>Tags := Some [Some [''expiration'', ''99'']]\<rparr>)"
proof -
  have "ParseInt ''99'' = Some 99" by code_simp
  then show ?thesis
    by (subst nip40_IsExpired_iff [where v = "''99''" and t = 99])
      (simp_all add: sane_clock_def first_tag_def tags_def unixToInternal_def)
qed

text \<open>The addition wraps for the latest timestamps: an event that expires at any of the last
  62135596800 seconds of the 64-bit range, which is how "never" may be written, is refused as already
  expired by every relay clock.\<close>

theorem far_future_expires_now:
  assumes "sane_clock now" "first_tag ''expiration'' e = Some v" "ParseInt v = Some t"
    and "2 ^ 63 - unixToInternal \<le> t"
  shows "ShouldRejectEvent now e"
proof -
  have t: "in64 t" using assms(3) by (auto simp: ParseInt_def Let_def split: prod.splits if_splits)
  have "(t + unixToInternal + 2 ^ 63) mod 2 ^ 64 = t + unixToInternal - 2 ^ 63"
  proof -
    have "t + unixToInternal + 2 ^ 63 = (t + unixToInternal - 2 ^ 63) + 2 ^ 64"
      by simp
    then have "(t + unixToInternal + 2 ^ 63) mod 2 ^ 64 = (t + unixToInternal - 2 ^ 63) mod 2 ^ 64"
      by (simp only: mod_add_self2)
    also have "\<dots> = t + unixToInternal - 2 ^ 63"
      using t assms(4) by (intro mod_pos_pos_trivial) (simp_all add: in64_def unixToInternal_def)
    finally show ?thesis .
  qed
  then have "time_Unix t = t + unixToInternal - 2 ^ 64"
    by (simp add: time_Unix_def wrap64_def)
  moreover have "t + unixToInternal - 2 ^ 64 < 0"
    using t by (simp add: in64_def unixToInternal_def)
  moreover have "0 \<le> time_Unix (now_sec now)"
    using assms(1) time_Unix_clock [OF assms(1)] by (simp add: sane_clock_def unixToInternal_def)
  ultimately show ?thesis
    using assms(2,3) by (simp add: ShouldRejectEvent_def nip40_IsExpired_def GetExpiration_def)
qed

lemma far_future_expires_now_witness:
  "ShouldRejectEvent \<lparr>now_sec = 100, now_nsec = 0\<rparr>
    (sample_event\<lparr>Tags := Some [Some [''expiration'', show_int (2 ^ 63 - 1)]]\<rparr>)"
proof -
  have "ParseInt (show_int (2 ^ 63 - 1)) = Some (2 ^ 63 - 1)"
    by (rule ParseInt_show_int) (simp add: in64_def)
  then show ?thesis
    by (intro far_future_expires_now [where v = "show_int (2 ^ 63 - 1)" and t = "2 ^ 63 - 1"])
      (simp_all add: sane_clock_def first_tag_def tags_def unixToInternal_def)
qed

end
