(* ===== verification/Nip42.thy ===== *)
theory Nip42
  imports Storage
begin

text \<open>
  Authentication events, \<^verbatim>\<open>pkg/nips/nip42/nip42.go\<close>, and the two accessors of
  \<^verbatim>\<open>pkg/nips/nip44/nip44.go\<close>. Proved: an accepted authentication event is of kind 22242 and its
  signature verifies, but neither its ID is recomputed nor any challenge or relay tag checked, so
  the same event authenticates again on any connection.
\<close>

definition nip42_Process :: "('pk, 'sg) crypto \<Rightarrow> event \<Rightarrow> error option" where
  "nip42_Process C e =
    (if Kind e \<noteq> 22242 then Errorf (''not an AUTH event: kind '' @ show_int (Kind e))
     else map_option (wrap_err ''invalid signature: '') (VerifySignature C e))"

definition IsAuthEvent :: "event \<Rightarrow> bool" where
  "IsAuthEvent e = (Kind e = 22242)"

definition ValidateAuthEvent :: "('pk, 'sg) crypto \<Rightarrow> event \<Rightarrow> error option" where
  "ValidateAuthEvent C e =
    (if \<not> IsAuthEvent e then Errorf (''event kind '' @ show_int (Kind e) @ '' is not AUTH (22242)'')
     else if TrimSpace (Content e) = [] then Errorf ''AUTH event content cannot be empty''
     else map_option (wrap_err ''invalid signature: '') (VerifySignature C e))"

definition nip44_IsEncryptedDirectMessage :: "event \<Rightarrow> bool" where
  "nip44_IsEncryptedDirectMessage e = (Kind e = 4)"

definition nip44_GetRecipientPubKey :: "event \<Rightarrow> string option" where
  "nip44_GetRecipientPubKey e = first_tag ''p'' e"

lemma ValidateAuthEvent_ok:
  "ValidateAuthEvent C e = None \<longleftrightarrow> Kind e = 22242 \<and> TrimSpace (Content e) \<noteq> [] \<and> VerifySignature C e = None"
  by (simp add: ValidateAuthEvent_def IsAuthEvent_def)

lemma VerifySignature_cong:
  "PubKey a = PubKey b \<Longrightarrow> Sig a = Sig b \<Longrightarrow> ID a = ID b \<Longrightarrow> VerifySignature C a = VerifySignature C b"
  by (simp only: VerifySignature_def)

text \<open>The check of an authentication event looks at nothing but its kind, its ID's signature and a
  non-blank content: its tags (relay and challenge) and its time play no part, and the ID is not
  recomputed, so a signature of the author over any ID passes.\<close>

theorem auth_ignores_tags_and_time:
  assumes "TrimSpace c \<noteq> []"
  shows "ValidateAuthEvent C (e\<lparr>Tags := ts, CreatedAt := t, Content := c\<rparr>) = None \<longleftrightarrow>
    Kind e = 22242 \<and> VerifySignature C e = None"
proof -
  have "VerifySignature C (e\<lparr>Tags := ts, CreatedAt := t, Content := c\<rparr>) = VerifySignature C e"
    by (rule VerifySignature_cong) simp_all
  with assms show ?thesis by (simp add: ValidateAuthEvent_ok)
qed

lemma auth_ignores_tags_and_time_witness:
  "ValidateAuthEvent sample_crypto (valid_sample\<lparr>Kind := 22242, Tags := None, CreatedAt := 7, Content := ''x''\<rparr>) = None"
proof -
  have "VerifySignature sample_crypto valid_sample = None"
    using valid_sample_validates by (auto simp: Validate_def split: if_splits option.splits sum.splits)
  moreover have "VerifySignature sample_crypto (valid_sample\<lparr>Kind := 22242\<rparr>) = VerifySignature sample_crypto valid_sample"
    by (rule VerifySignature_cong) simp_all
  moreover have "TrimSpace ''x'' \<noteq> []" by code_simp
  ultimately show ?thesis
    using auth_ignores_tags_and_time [where c = "''x''" and C = sample_crypto
      and e = "valid_sample\<lparr>Kind := 22242\<rparr>" and ts = None and t = 7] by simp
qed

end
