(* ===== verification/Nip50.thy ===== *)
theory Nip50
  imports Storage
begin

text \<open>
  Search, \<^verbatim>\<open>pkg/nips/nip50/nip50.go\<close>: parsing of a search string into terms, exclusions and
  \<open>key:value\<close> extensions, the match of an event against them, and the search over a store. The
  \<^verbatim>\<open>range\<close> over the extensions only asks whether all hold, so its order does not show.

  Proved: what a search returns of what the store returned.
\<close>

record SearchQuery =
  Terms :: "string list"
  Exclusions :: "string list"
  Extensions :: "(string, string) gomap"

fun parse_words :: "string list \<Rightarrow> SearchQuery \<Rightarrow> SearchQuery" where
  "parse_words [] sq = sq"
| "parse_words (word # ws) sq =
     (let parts = SplitN2 word '':'' in
      if Contains word '':'' \<and> \<not> HasPrefix word ''-'' \<and>
         length parts = 2 \<and> parts ! 0 \<noteq> [] \<and> parts ! 1 \<noteq> []
      then parse_words ws (sq\<lparr>Extensions := mput (parts ! 0) (parts ! 1) (Extensions sq)\<rparr>)
      else if HasPrefix word ''-'' \<and> 1 < length word
        then parse_words ws
          (if drop 1 word \<noteq> [] then sq\<lparr>Exclusions := Exclusions sq @ [drop 1 word]\<rparr> else sq)
      else if word \<noteq> [] then parse_words ws (sq\<lparr>Terms := Terms sq @ [word]\<rparr>)
      else parse_words ws sq)"

definition empty_query :: SearchQuery where
  "empty_query = \<lparr>Terms = [], Exclusions = [], Extensions = []\<rparr>"

definition ParseSearchQuery :: "string \<Rightarrow> SearchQuery" where
  "ParseSearchQuery query =
    (if query = [] then empty_query else parse_words (Fields (TrimSpace query)) empty_query)"

record SearchFilter =
  sf_Filter :: filt
  sf_Query :: "SearchQuery option"

definition getSearchField :: "filt \<Rightarrow> string option" where
  "getSearchField f = (if Search f \<noteq> [] then Some (Search f) else None)"

definition NewSearchFilter :: "filt \<Rightarrow> SearchFilter" where
  "NewSearchFilter f = \<lparr>sf_Filter = f, sf_Query = map_option ParseSearchQuery (getSearchField f)\<rparr>"

definition eventContainsTerm :: "unicode \<Rightarrow> event \<Rightarrow> string \<Rightarrow> bool" where
  "eventContainsTerm U e tm =
    (let t = ToLower U tm in
     Contains (ToLower U (Content e)) t \<or>
     list_ex (\<lambda>tag. 2 \<le> length tag \<and> Contains (ToLower U (tag ! 1)) t) (tags e))"

definition eventMatchesExtension :: "unicode \<Rightarrow> event \<Rightarrow> string \<Rightarrow> string \<Rightarrow> bool" where
  "eventMatchesExtension U e k v =
    (let key = ToLower U k; val = ToLower U v in
     if key = ''domain'' then
       list_ex (\<lambda>t. 2 \<le> length t \<and> t ! 0 = ''nip05'' \<and> HasSuffix (ToLower U (t ! 1)) (''@'' @ val)) (tags e)
     else if key = ''language'' then
       list_ex (\<lambda>t. 2 \<le> length t \<and> t ! 0 = ''language'' \<and> EqualFold U (t ! 1) val) (tags e)
     else if key = ''nsfw'' then
       (let isNSFW = list_ex (\<lambda>t. 2 \<le> length t \<and> t ! 0 = ''content-warning'') (tags e) in
        if val = ''true'' then isNSFW else if val = ''false'' then \<not> isNSFW else True)
     else if key = ''sentiment'' then True
     else True)"

definition search_Matches :: "unicode \<Rightarrow> SearchFilter \<Rightarrow> event \<Rightarrow> bool" where
  "search_Matches U sf e =
    (if \<not> Matches e (sf_Filter sf) then False
     else (case sf_Query sf of
       None \<Rightarrow> True
     | Some q \<Rightarrow>
         if \<not> list_all (eventContainsTerm U e) (Terms q) then False
         else if list_ex (eventContainsTerm U e) (Exclusions q) then False
         else list_all (\<lambda>(k, v). eventMatchesExtension U e k v) (Extensions q)))"

fun search_loop :: "unicode \<Rightarrow> SearchFilter list \<Rightarrow> event list \<Rightarrow> event list" where
  "search_loop U sfs [] = []"
| "search_loop U sfs (e # es) =
     (if list_ex (\<lambda>sf. search_Matches U sf e) sfs then e # search_loop U sfs es else search_loop U sfs es)"

definition SearchEvents :: "unicode \<Rightarrow> 's store_if \<Rightarrow> 's \<Rightarrow> filt list \<Rightarrow> event list outcome" where
  "SearchEvents U S s filters =
    (let searchFilters = map NewSearchFilter filters in
     case QueryEvents S s filters of
       Err err \<Rightarrow> Err (wrap_err ''failed to query events: '' err)
     | Panic \<Rightarrow> Panic
     | Ok es \<Rightarrow> Ok (search_loop U searchFilters es))"

lemma search_loop_filter:
  "search_loop U sfs es = filter (\<lambda>e. \<exists>sf \<in> set sfs. search_Matches U sf e) es"
  by (induction es) (auto simp: list_ex_iff)

text \<open>A search returns, in the store's order, those events of the store's answer that match some
  filter's own fields together with that filter's search text: every term occurs, no exclusion does,
  every extension holds. A limit has been applied before, so it bounds what is searched.\<close>

theorem SearchEvents_spec:
  "SearchEvents U S s fs = (case QueryEvents S s fs of
     Err err \<Rightarrow> Err (wrap_err ''failed to query events: '' err)
   | Panic \<Rightarrow> Panic
   | Ok es \<Rightarrow> Ok (filter (\<lambda>e. \<exists>f \<in> set fs. Matches e f \<and>
       (Search f = [] \<or> (let q = ParseSearchQuery (Search f) in
          set (Terms q) \<subseteq> {t. eventContainsTerm U e t} \<and>
          (\<nexists>x. x \<in> set (Exclusions q) \<and> eventContainsTerm U e x) \<and>
          set (Extensions q) \<subseteq> {(k, v). eventMatchesExtension U e k v}))) es))"
proof -
  have "search_Matches U (NewSearchFilter f) e \<longleftrightarrow> Matches e f \<and>
    (Search f = [] \<or> (let q = ParseSearchQuery (Search f) in
       set (Terms q) \<subseteq> {t. eventContainsTerm U e t} \<and>
       (\<nexists>x. x \<in> set (Exclusions q) \<and> eventContainsTerm U e x) \<and>
       set (Extensions q) \<subseteq> {(k, v). eventMatchesExtension U e k v}))" for f e
    by (auto simp: search_Matches_def NewSearchFilter_def getSearchField_def list_all_iff list_ex_iff Let_def)
  then show ?thesis
    by (simp add: SearchEvents_def search_loop_filter split: outcome.split)
qed

end
