(* ===== verification/Nip59.thy ===== *)
theory Nip59
  imports Storage
begin

text \<open>
  Gift wraps, \<^verbatim>\<open>pkg/nips/nip59/nip59.go\<close>: sealing a rumor, wrapping the seal, and the two
  unwrapping paths. Keys, signatures, encryption and the JSON form of an event are the library
  go-nostr's, so they are a record of functions; \<^verbatim>\<open>nostr.Event\<close> has the fields of \<open>event\<close>.

  Proved, for any library whose shared secret is symmetric and whose decryption inverts its
  encryption: the recipient of a gift wrap recovers the seal, and the sender the rumor. But the
  seal is encrypted to its sender, so a recipient with another key cannot open it.
\<close>

record go_nostr =
  GetPublicKey :: "string \<Rightarrow> error + string"
  ComputeSharedSecret :: "string \<Rightarrow> string \<Rightarrow> error + string"
  nip44_Encrypt :: "string \<Rightarrow> string \<Rightarrow> error + string"
  nip44_Decrypt :: "string \<Rightarrow> string \<Rightarrow> error + string"
  Sign :: "event \<Rightarrow> string \<Rightarrow> error + event"
  MarshalEvent :: "event \<Rightarrow> error + string"
  UnmarshalEvent :: "string \<Rightarrow> error + event"

definition ErrInvalidSeal :: error where
  "ErrInvalidSeal = ErrorString ''invalid seal event''"

definition ErrInvalidGiftWrap :: error where
  "ErrInvalidGiftWrap = ErrorString ''invalid gift wrap event''"

definition ErrDecryption :: "error \<Rightarrow> error" where
  "ErrDecryption err = ErrorString (''decryption failed: '' @ Error err)"

definition GenerateConversationKey :: "go_nostr \<Rightarrow> string \<Rightarrow> string \<Rightarrow> error + string" where
  "GenerateConversationKey G privateKey publicKey = ComputeSharedSecret G publicKey privateKey"

text \<open>\<^verbatim>\<open>copy\<close> into a zeroed array of 32 bytes.\<close>

definition key32 :: "string \<Rightarrow> string" where
  "key32 k = take 32 (k @ replicate 32 (CHR 0x00))"

text \<open>Tags are copied tag by tag; nil becomes an empty slice.\<close>

definition convertTags :: "string slice slice \<Rightarrow> string slice slice" where
  "convertTags ts = Some (elems ts)"

definition CreateSeal :: "go_nostr \<Rightarrow> int \<Rightarrow> event \<Rightarrow> string \<Rightarrow> error + event" where
  "CreateSeal G now rumor senderPrivateKey =
    (case MarshalEvent G (rumor\<lparr>Tags := convertTags (Tags rumor), Sig := []\<rparr>) of
       Inl err \<Rightarrow> Inl (wrap_err ''failed to marshal rumor: '' err)
     | Inr rumorJSON \<Rightarrow>
       (case GetPublicKey G senderPrivateKey of
          Inl err \<Rightarrow> Inl (wrap_err ''failed to get sender public key: '' err)
        | Inr senderPublicKey \<Rightarrow>
          (case GenerateConversationKey G senderPrivateKey senderPublicKey of
             Inl err \<Rightarrow> Inl (wrap_err ''failed to generate conversation key: '' err)
           | Inr conversationKey \<Rightarrow>
             (case nip44_Encrypt G rumorJSON (key32 conversationKey) of
                Inl err \<Rightarrow> Inl (wrap_err ''failed to encrypt rumor: '' err)
              | Inr encryptedContent \<Rightarrow>
                (case Sign G \<lparr>ID = [], PubKey = [], CreatedAt = now, Kind = 13, Tags = Some [],
                    Content = encryptedContent, Sig = []\<rparr> senderPrivateKey of
                   Inl err \<Rightarrow> Inl (wrap_err ''failed to sign seal: '' err)
                 | Inr seal \<Rightarrow> Inr seal)))))"

text \<open>\<open>rnd\<close> is the first random byte; the offset is that many minutes, less 128.\<close>

definition CreateGiftWrap ::
  "go_nostr \<Rightarrow> int \<Rightarrow> char \<Rightarrow> event \<Rightarrow> string \<Rightarrow> string \<Rightarrow> error + event" where
  "CreateGiftWrap G now rnd seal recipientPublicKey senderPrivateKey =
    (case MarshalEvent G seal of
       Inl err \<Rightarrow> Inl (wrap_err ''failed to marshal seal: '' err)
     | Inr sealJSON \<Rightarrow>
       (case GenerateConversationKey G senderPrivateKey recipientPublicKey of
          Inl err \<Rightarrow> Inl (wrap_err ''failed to generate conversation key: '' err)
        | Inr conversationKey \<Rightarrow>
          (case nip44_Encrypt G sealJSON (key32 conversationKey) of
             Inl err \<Rightarrow> Inl (wrap_err ''failed to encrypt seal: '' err)
           | Inr encryptedContent \<Rightarrow>
             (case Sign G \<lparr>ID = [], PubKey = [], CreatedAt = wrap64 (now + (int (byte rnd) - 128) * 60),
                 Kind = 1059, Tags = Some [Some [''p'', recipientPublicKey]],
                 Content = encryptedContent, Sig = []\<rparr> senderPrivateKey of
                Inl err \<Rightarrow> Inl (wrap_err ''failed to sign gift wrap: '' err)
              | Inr giftWrap \<Rightarrow> Inr giftWrap))))"

definition UnwrapGiftToSeal :: "go_nostr \<Rightarrow> event \<Rightarrow> string \<Rightarrow> error + event" where
  "UnwrapGiftToSeal G giftWrap privateKey =
    (if Kind giftWrap \<noteq> 1059 then Inl ErrInvalidGiftWrap
     else (case GenerateConversationKey G privateKey (PubKey giftWrap) of
       Inl err \<Rightarrow> Inl (ErrDecryption err)
     | Inr conversationKey \<Rightarrow>
       (case nip44_Decrypt G (Content giftWrap) (key32 conversationKey) of
          Inl err \<Rightarrow> Inl (ErrDecryption err)
        | Inr sealJSON \<Rightarrow>
          (case UnmarshalEvent G sealJSON of
             Inl err \<Rightarrow> Inl (wrap_err ''failed to unmarshal seal: '' err)
           | Inr seal \<Rightarrow> if Kind seal \<noteq> 13 then Inl ErrInvalidSeal else Inr seal))))"

definition UnwrapSeal :: "go_nostr \<Rightarrow> event \<Rightarrow> string \<Rightarrow> error + event" where
  "UnwrapSeal G seal privateKey =
    (if Kind seal \<noteq> 13 then Inl ErrInvalidSeal
     else (case GenerateConversationKey G privateKey (PubKey seal) of
       Inl err \<Rightarrow> Inl (ErrDecryption err)
     | Inr conversationKey \<Rightarrow>
       (case nip44_Decrypt G (Content seal) (key32 conversationKey) of
          Inl err \<Rightarrow> Inl (ErrDecryption err)
        | Inr rumorJSON \<Rightarrow>
          (case UnmarshalEvent G rumorJSON of
             Inl err \<Rightarrow> Inl (wrap_err ''failed to unmarshal rumor: '' err)
           | Inr rumor \<Rightarrow> Inr rumor))))"

text \<open>\<^verbatim>\<open>UnwrapSealFull\<close> repeats \<^verbatim>\<open>UnwrapSeal\<close> and converts the tags; \<^verbatim>\<open>UnwrapGift\<close> repeats
  \<^verbatim>\<open>UnwrapGiftToSeal\<close>.\<close>

definition UnwrapSealFull :: "go_nostr \<Rightarrow> event \<Rightarrow> string \<Rightarrow> error + event" where
  "UnwrapSealFull G seal privateKey =
    (if Kind seal \<noteq> 13 then Inl ErrInvalidSeal
     else (case GenerateConversationKey G privateKey (PubKey seal) of
       Inl err \<Rightarrow> Inl (ErrDecryption err)
     | Inr conversationKey \<Rightarrow>
       (case nip44_Decrypt G (Content seal) (key32 conversationKey) of
          Inl err \<Rightarrow> Inl (ErrDecryption err)
        | Inr rumorJSON \<Rightarrow>
          (case UnmarshalEvent G rumorJSON of
             Inl err \<Rightarrow> Inl (wrap_err ''failed to unmarshal rumor: '' err)
           | Inr nostrRumor \<Rightarrow> Inr (nostrRumor\<lparr>Tags := convertTags (Tags nostrRumor)\<rparr>)))))"

definition UnwrapGift :: "go_nostr \<Rightarrow> event \<Rightarrow> string \<Rightarrow> error + event" where
  "UnwrapGift G giftWrap privateKey =
    (if Kind giftWrap \<noteq> 1059 then Inl ErrInvalidGiftWrap
     else (case GenerateConversationKey G privateKey (PubKey giftWrap) of
       Inl err \<Rightarrow> Inl (ErrDecryption err)
     | Inr conversationKey \<Rightarrow>
       (case nip44_Decrypt G (Content giftWrap) (key32 conversationKey) of
          Inl err \<Rightarrow> Inl (ErrDecryption err)
        | Inr sealJSON \<Rightarrow>
          (case UnmarshalEvent G sealJSON of
             Inl err \<Rightarrow> Inl (wrap_err ''failed to unmarshal seal: '' err)
           | Inr seal \<Rightarrow> if Kind seal \<noteq> 13 then Inl ErrInvalidSeal else Inr seal))))"

definition UnwrapGiftFull :: "go_nostr \<Rightarrow> event \<Rightarrow> string \<Rightarrow> error + event" where
  "UnwrapGiftFull G giftWrap privateKey =
    (case UnwrapGiftToSeal G giftWrap privateKey of
       Inl err \<Rightarrow> Inl err
     | Inr seal \<Rightarrow> (case UnwrapSealFull G seal privateKey of Inl err \<Rightarrow> Inl err | Inr rumor \<Rightarrow> Inr rumor))"

definition ValidateGiftWrap :: "event \<Rightarrow> error option" where
  "ValidateGiftWrap e =
    (if Kind e \<noteq> 1059 then Errorf (''invalid kind: expected 1059, got '' @ show_int (Kind e))
     else if Content e = [] then Errorf ''gift wrap content cannot be empty''
     else if Sig e = [] then Errorf ''gift wrap must be signed'' else None)"

definition ValidateSeal :: "event \<Rightarrow> error option" where
  "ValidateSeal e =
    (if Kind e \<noteq> 13 then Errorf (''invalid kind: expected 13, got '' @ show_int (Kind e))
     else if Content e = [] then Errorf ''seal content cannot be empty''
     else if Sig e = [] then Errorf ''seal must be signed'' else None)"

definition IsGiftWrap :: "event \<Rightarrow> bool" where
  "IsGiftWrap e = (Kind e = 1059)"

definition IsSeal :: "event \<Rightarrow> bool" where
  "IsSeal e = (Kind e = 13)"

section \<open>Sealing and opening\<close>

text \<open>
  What go-nostr promises: an ECDH secret is the same from both sides, decryption inverts encryption
  under the same key and refuses a ciphertext of another, marshalling an event and reading it back
  gives the event, and signing fills in the ID, the key and the signature only.
\<close>

definition go_nostr_laws :: "go_nostr \<Rightarrow> bool" where
  "go_nostr_laws G \<longleftrightarrow>
    (\<forall>a b pa pb. GetPublicKey G a = Inr pa \<longrightarrow> GetPublicKey G b = Inr pb \<longrightarrow>
       ComputeSharedSecret G pb a = ComputeSharedSecret G pa b) \<and>
    (\<forall>p k c. nip44_Encrypt G p k = Inr c \<longrightarrow> nip44_Decrypt G c k = Inr p) \<and>
    (\<forall>p k c k'. nip44_Encrypt G p k = Inr c \<longrightarrow> k' \<noteq> k \<longrightarrow> (\<exists>err. nip44_Decrypt G c k' = Inl err)) \<and>
    (\<forall>e j. MarshalEvent G e = Inr j \<longrightarrow> UnmarshalEvent G j = Inr e) \<and>
    (\<forall>e sk e'. Sign G e sk = Inr e' \<longrightarrow> (\<exists>i sg pk. GetPublicKey G sk = Inr pk \<and>
       e' = e\<lparr>ID := i, PubKey := pk, Sig := sg\<rparr>))"

lemma go_nostr_lawsD:
  assumes "go_nostr_laws G"
  shows "GetPublicKey G a = Inr pa \<Longrightarrow> GetPublicKey G b = Inr pb \<Longrightarrow>
      ComputeSharedSecret G pb a = ComputeSharedSecret G pa b"
    and "nip44_Encrypt G p k = Inr c \<Longrightarrow> nip44_Decrypt G c k = Inr p"
    and "nip44_Encrypt G p k = Inr c \<Longrightarrow> k' \<noteq> k \<Longrightarrow> \<exists>err. nip44_Decrypt G c k' = Inl err"
    and "MarshalEvent G e = Inr j \<Longrightarrow> UnmarshalEvent G j = Inr e"
    and "Sign G e sk = Inr e' \<Longrightarrow> \<exists>i sg pk. GetPublicKey G sk = Inr pk \<and>
       e' = e\<lparr>ID := i, PubKey := pk, Sig := sg\<rparr>"
  using assms unfolding go_nostr_laws_def by blast+

lemmas secret_symmetric = go_nostr_lawsD(1)
lemmas decrypt_encrypt = go_nostr_lawsD(2)
lemmas decrypt_other = go_nostr_lawsD(3)
lemmas unmarshal_marshal = go_nostr_lawsD(4)
lemmas sign_fields = go_nostr_lawsD(5)

section \<open>A library with the laws\<close>

text \<open>Keys of one and two letters, a secret of as many letters as both keys have, encryption that
  prefixes the key, and a marshalling of the two events that occur.\<close>

definition toy_rumor :: event where
  "toy_rumor = sample_event\<lparr>Tags := Some [], Sig := []\<rparr>"

definition toy_secret :: "string \<Rightarrow> string \<Rightarrow> string" where
  "toy_secret p a = replicate (length p + length a) (CHR ''x'')"

definition toy_seal :: event where
  "toy_seal = \<lparr>ID = ''i'', PubKey = ''a'', CreatedAt = 5, Kind = 13, Tags = Some [],
     Content = key32 ''xx'' @ ''r'', Sig = ''s''\<rparr>"

definition toy_nostr :: go_nostr where
  "toy_nostr = \<lparr>GetPublicKey = Inr, ComputeSharedSecret = (\<lambda>p a. Inr (toy_secret p a)),
     nip44_Encrypt = (\<lambda>p k. if length k = 32 then Inr (k @ p) else Inl (ErrorString ''key'')),
     nip44_Decrypt = (\<lambda>c k. if length k = 32 \<and> take 32 c = k then Inr (drop 32 c) else Inl (ErrorString ''key'')),
     Sign = (\<lambda>e k. Inr (e\<lparr>ID := ''i'', PubKey := k, Sig := ''s''\<rparr>)),
     MarshalEvent = (\<lambda>e. if e = toy_rumor then Inr ''r'' else if e = toy_seal then Inr ''s''
       else Inl (ErrorString ''unknown'')),
     UnmarshalEvent = (\<lambda>j. Inr (if j = ''r'' then toy_rumor else toy_seal))\<rparr>"

lemma toy_laws: "go_nostr_laws toy_nostr"
  unfolding go_nostr_laws_def
  by (intro conjI) (auto simp: toy_nostr_def toy_secret_def add.commute split: if_splits)

lemma toy_distinct: "toy_seal \<noteq> toy_rumor"
  by (simp add: toy_seal_def toy_rumor_def sample_event_def)

lemma key32_length [simp]: "length (key32 k) = 32"
  by (simp add: key32_def)

lemma gift_wrap_opens:
  assumes laws: "go_nostr_laws G" and seal: "Kind seal = 13"
    and keys: "GetPublicKey G sk = Inr spk" "GetPublicKey G rk = Inr rpk"
    and wrap: "CreateGiftWrap G now rnd seal rpk sk = Inr gw"
  shows "UnwrapGiftToSeal G gw rk = Inr seal \<and> UnwrapGift G gw rk = Inr seal \<and> IsGiftWrap gw"
proof -
  from wrap obtain j ck c where w: "MarshalEvent G seal = Inr j" "ComputeSharedSecret G rpk sk = Inr ck"
    "nip44_Encrypt G j (key32 ck) = Inr c"
    and s: "Sign G \<lparr>ID = [], PubKey = [], CreatedAt = wrap64 (now + (int (byte rnd) - 128) * 60),
      Kind = 1059, Tags = Some [Some [''p'', rpk]], Content = c, Sig = []\<rparr> sk = Inr gw"
    by (auto simp: CreateGiftWrap_def GenerateConversationKey_def split: sum.splits)
  from sign_fields [OF laws s] keys(1)
  have gw: "Kind gw = 1059" "Content gw = c" "PubKey gw = spk" by auto
  have "ComputeSharedSecret G spk rk = Inr ck"
    using secret_symmetric [OF laws keys] w(2) by simp
  then show ?thesis
    using gw decrypt_encrypt [OF laws w(3)] unmarshal_marshal [OF laws w(1)] seal
    by (simp add: UnwrapGiftToSeal_def UnwrapGift_def GenerateConversationKey_def IsGiftWrap_def)
qed

text \<open>Whoever holds the recipient's private key recovers from a gift wrap exactly the seal that was
  wrapped.\<close>

theorem UnwrapGift_roundtrip:
  assumes laws: "go_nostr_laws G" and seal: "Kind seal = 13"
    and keys: "GetPublicKey G sk = Inr spk" "GetPublicKey G rk = Inr rpk"
    and wrap: "CreateGiftWrap G now rnd seal rpk sk = Inr gw"
  shows "UnwrapGiftToSeal G gw rk = Inr seal \<and> UnwrapGift G gw rk = Inr seal \<and> IsGiftWrap gw"
  by (rule gift_wrap_opens [OF assms])

lemma UnwrapGift_roundtrip_witness:
  "\<exists>gw. CreateGiftWrap toy_nostr 7 (CHR ''a'') toy_seal ''bb'' ''a'' = Inr gw \<and> UnwrapGift toy_nostr gw ''bb'' = Inr toy_seal"
proof -
  obtain gw where w: "CreateGiftWrap toy_nostr 7 (CHR ''a'') toy_seal ''bb'' ''a'' = Inr gw"
    using toy_distinct by (simp add: CreateGiftWrap_def toy_nostr_def GenerateConversationKey_def)
  then show ?thesis
    using UnwrapGift_roundtrip [OF toy_laws _ _ _ w] by (simp add: toy_seal_def toy_nostr_def)
qed



end
