(* ===== verification/Nip65.thy ===== *)
theory Nip65
  imports Storage
begin

text \<open>
  Relay lists, \<^verbatim>\<open>pkg/nips/nip65/nip65.go\<close>: validation of kind 10002 events and the read, write and
  full lists extracted from them. Proved: which lists validate, and that the read and write lists
  are those entries of the detailed list with the flag set.
\<close>

record RelayInfo =
  ri_URL :: string
  ri_Read :: bool
  ri_Write :: bool
  ri_Marker :: string

definition check_r_tag :: "string list \<Rightarrow> error option" where
  "check_r_tag t =
    (if 1 \<le> length t \<and> t ! 0 = ''r'' then
       (if length t < 2 then Errorf ''r tag must have at least 2 elements (tag name and relay URL)''
        else let relayURL = TrimSpace (t ! 1) in
          if relayURL = [] then Errorf ''r tag relay URL cannot be empty''
          else if \<not> HasPrefix relayURL ''ws://'' \<and> \<not> HasPrefix relayURL ''wss://'' then
            Errorf (''r tag relay URL should start with ws:// or wss://, got: '' @ relayURL)
          else None)
     else None)"

definition ValidateRelayList :: "event \<Rightarrow> error option" where
  "ValidateRelayList e =
    (if Kind e \<noteq> 10002 then None
     else if Content e \<noteq> [] then Errorf ''relay list (kind 10002) must have empty content''
     else (case first_err check_r_tag (tags e) of
       Some err \<Rightarrow> Some err
     | None \<Rightarrow>
         if filter (\<lambda>t. 1 \<le> length t \<and> t ! 0 = ''r'') (tags e) = []
         then Errorf ''relay list (kind 10002) should have at least one r tag'' else None))"

definition HandleRelayList :: "event \<Rightarrow> error option" where
  "HandleRelayList e =
    (if Kind e \<noteq> 10002 then None
     else map_option (wrap_err ''invalid relay list event: '') (ValidateRelayList e))"

definition r_tags :: "event \<Rightarrow> string list list" where
  "r_tags e = filter (\<lambda>t. 2 \<le> length t \<and> t ! 0 = ''r'') (tags e)"

definition relay_info :: "unicode \<Rightarrow> string list \<Rightarrow> RelayInfo" where
  "relay_info U t =
    (let info = \<lparr>ri_URL = TrimSpace (t ! 1), ri_Read = True, ri_Write = True, ri_Marker = []\<rparr> in
     if 3 \<le> length t then
       (let marker = ToLower U (t ! 2); info = info\<lparr>ri_Marker := marker\<rparr> in
        if marker = ''read'' then info\<lparr>ri_Write := False\<rparr>
        else if marker = ''write'' then info\<lparr>ri_Read := False\<rparr>
        else info)
     else info)"

definition ExtractRelayInfo :: "unicode \<Rightarrow> event \<Rightarrow> RelayInfo list" where
  "ExtractRelayInfo U e = (if Kind e \<noteq> 10002 then [] else map (relay_info U) (r_tags e))"

definition ExtractReadRelays :: "unicode \<Rightarrow> event \<Rightarrow> string list" where
  "ExtractReadRelays U e =
    (if Kind e \<noteq> 10002 then []
     else map (\<lambda>t. TrimSpace (t ! 1))
       (filter (\<lambda>t. length t = 2 \<or> ToLower U (t ! 2) \<noteq> ''write'') (r_tags e)))"

definition ExtractWriteRelays :: "unicode \<Rightarrow> event \<Rightarrow> string list" where
  "ExtractWriteRelays U e =
    (if Kind e \<noteq> 10002 then []
     else map (\<lambda>t. TrimSpace (t ! 1))
       (filter (\<lambda>t. length t = 2 \<or> ToLower U (t ! 2) \<noteq> ''read'') (r_tags e)))"

definition ExtractAllRelays :: "event \<Rightarrow> string list" where
  "ExtractAllRelays e =
    (if Kind e \<noteq> 10002 then [] else map (\<lambda>t. TrimSpace (t ! 1)) (r_tags e))"

definition IsRelayListEvent :: "event \<Rightarrow> bool" where
  "IsRelayListEvent e = (Kind e = 10002)"

lemma check_r_tag_None:
  "check_r_tag t = None \<longleftrightarrow> \<not> (1 \<le> length t \<and> t ! 0 = ''r'') \<or>
    (2 \<le> length t \<and> (HasPrefix (TrimSpace (t ! 1)) ''ws://'' \<or> HasPrefix (TrimSpace (t ! 1)) ''wss://''))"
  by (auto simp: check_r_tag_def Let_def)

lemma ValidateRelayList_ok:
  "ValidateRelayList e = None \<longleftrightarrow> Kind e \<noteq> 10002 \<or>
    (Content e = [] \<and> (\<exists>t \<in> set (tags e). 1 \<le> length t \<and> t ! 0 = ''r'') \<and>
     (\<forall>t \<in> set (tags e). 1 \<le> length t \<longrightarrow> t ! 0 = ''r'' \<longrightarrow> 2 \<le> length t \<and>
        (HasPrefix (TrimSpace (t ! 1)) ''ws://'' \<or> HasPrefix (TrimSpace (t ! 1)) ''wss://'')))"
proof -
  have a: "first_err check_r_tag (tags e) = None \<longleftrightarrow> (\<forall>t \<in> set (tags e). 1 \<le> length t \<longrightarrow> t ! 0 = ''r'' \<longrightarrow>
      2 \<le> length t \<and> (HasPrefix (TrimSpace (t ! 1)) ''ws://'' \<or> HasPrefix (TrimSpace (t ! 1)) ''wss://''))"
    unfolding first_err_None_iff check_r_tag_None by blast
  have b: "filter (\<lambda>t. 1 \<le> length t \<and> t ! 0 = ''r'') (tags e) = [] \<longleftrightarrow>
      \<not> (\<exists>t \<in> set (tags e). 1 \<le> length t \<and> t ! 0 = ''r'')"
    unfolding filter_empty_conv by blast
  show ?thesis
    unfolding ValidateRelayList_def a [symmetric] b
    by (cases "first_err check_r_tag (tags e)") auto
qed

lemma relay_info_flags:
  assumes "2 \<le> length t"
  shows "ri_URL (relay_info U t) = TrimSpace (t ! 1)"
    "ri_Read (relay_info U t) \<longleftrightarrow> length t = 2 \<or> ToLower U (t ! 2) \<noteq> ''write''"
    "ri_Write (relay_info U t) \<longleftrightarrow> length t = 2 \<or> ToLower U (t ! 2) \<noteq> ''read''"
  using assms by (auto simp: relay_info_def Let_def)

lemma r_tags_length: "t \<in> set (r_tags e) \<Longrightarrow> 2 \<le> length t"
  by (simp add: r_tags_def)

text \<open>The read, write and full relay lists are the detailed list's entries with the flag set, in
  order; every entry is readable or writable, so the full list is the union of the other two.\<close>

theorem relay_lists_agree:
  "ExtractReadRelays U e = map ri_URL (filter ri_Read (ExtractRelayInfo U e))
    \<and> ExtractWriteRelays U e = map ri_URL (filter ri_Write (ExtractRelayInfo U e))
    \<and> ExtractAllRelays e = map ri_URL (ExtractRelayInfo U e)
    \<and> set (ExtractAllRelays e) = set (ExtractReadRelays U e) \<union> set (ExtractWriteRelays U e)"
proof -
  have f: "map g (filter P (map h ts)) = map g' (filter P' ts)"
    if "\<And>t. t \<in> set ts \<Longrightarrow> g (h t) = g' t \<and> P (h t) = P' t"
    for g :: "RelayInfo \<Rightarrow> string" and P h g' P' and ts :: "string list list"
    using that by (induction ts) auto
  have r: "ExtractReadRelays U e = map ri_URL (filter ri_Read (ExtractRelayInfo U e))"
    unfolding ExtractReadRelays_def ExtractRelayInfo_def
    by (auto intro!: f [symmetric] simp: relay_info_flags r_tags_length)
  have w: "ExtractWriteRelays U e = map ri_URL (filter ri_Write (ExtractRelayInfo U e))"
    unfolding ExtractWriteRelays_def ExtractRelayInfo_def
    by (auto intro!: f [symmetric] simp: relay_info_flags r_tags_length)
  have a: "ExtractAllRelays e = map ri_URL (ExtractRelayInfo U e)"
    by (simp add: ExtractAllRelays_def ExtractRelayInfo_def relay_info_flags r_tags_length)
  have "ri_Read i \<or> ri_Write i" if "i \<in> set (ExtractRelayInfo U e)" for i
    using that by (auto simp: ExtractRelayInfo_def relay_info_flags r_tags_length split: if_splits)
  then have "set (map ri_URL (ExtractRelayInfo U e)) =
      set (map ri_URL (filter ri_Read (ExtractRelayInfo U e))) \<union> set (map ri_URL (filter ri_Write (ExtractRelayInfo U e)))"
    by auto
  with r w a show ?thesis by simp
qed

end
