(* ===== verification/Relay.thy ===== *)
theory Relay
  imports Protocol RateLimit MemoryStore Nip02 Nip22 Nip25 Nip28 Nip36 Nip40 Nip42 Nip50 Nip59 Nip65
begin

text \<open>
  The relay, \<^verbatim>\<open>pkg/relay/relay.go\<close>, over any store: the handlers of the four client messages, the
  broadcast of an event to the connected clients, connection set-up and the retention job.

  Client objects are found by a number (the pointer): \<open>conns\<close> holds them all, \<open>clients\<close> is the map of
  those registered. A broadcast starts one goroutine per registered client; \<open>pending\<close> is the list
  of goroutines that have not run, and \<open>deliver\<close> is what one does when it runs. Each handler runs to
  its end in one step; interleavings of handlers, deliveries, connections and retention are the
  subject of the theory \<open>System\<close>.
\<close>

section \<open>State\<close>

record 's relay =
  store :: 's
  conns :: "nat \<Rightarrow> client"
  clients :: "(nat, bool) gomap"
  limits :: limits
  pending :: "(nat \<times> event) list"
  totalConnections :: int
  totalEvents :: int
  totalRequests :: int
  packetsPerSecond :: "rat option"
  packetCount :: int
  lastPacketReset :: int
  dbStatus :: string
  stopped :: bool
  maxEventsPerREQ :: int
  rateLimitEnabled :: bool
  relay_requireAuth :: bool
  closeAfterEOSE :: bool
  retentionDays :: int
  nip36Policy :: "Policy option"

text \<open>The surroundings of one call: libraries, rounding, clock readings, and how a Go map is visited.\<close>

record ('pk, 'sg) env =
  en_codec :: "('pk, 'sg) codec"
  en_rnd :: "rat \<Rightarrow> rat"
  en_clock :: clock
  en_instants :: instants
  en_rank :: "string \<Rightarrow> nat"

abbreviation en_unicode :: "('pk, 'sg) env \<Rightarrow> unicode" where
  "en_unicode E \<equiv> cd_unicode (en_codec E)"

abbreviation en_crypto :: "('pk, 'sg) env \<Rightarrow> ('pk, 'sg) crypto" where
  "en_crypto E \<equiv> cd_crypto (en_codec E)"

text \<open>\<^verbatim>\<open>ChannelStore\<close>: present for the two stores that have channels.\<close>

record 's channel_if =
  SaveChannelEvent :: "'s \<Rightarrow> event \<Rightarrow> 's \<times> error option"
  QueryChannelEvents :: "'s \<Rightarrow> string \<Rightarrow> int option \<Rightarrow> int option \<Rightarrow> int option \<Rightarrow> error + event list"

text \<open>\<open>rl_env\<close> is the environment variable \<^verbatim>\<open>GLIENICKE_RATE_LIMIT_ENABLED\<close>, \<open>now\<close> the instant of the
  call. A rate of packets is \<open>None\<close> when it is the infinity of a division by zero.\<close>

definition New_relay :: "string \<Rightarrow> int \<Rightarrow> 's \<Rightarrow> 's relay" where
  "New_relay rl_env now s = \<lparr>store = s, conns = (\<lambda>_. NewClient []), clients = [],
     limits = \<lparr>ipLimiters = [], rateLimitedCount = 0\<rparr>, pending = [],
     totalConnections = 0, totalEvents = 0, totalRequests = 0, packetsPerSecond = Some 0, packetCount = 0,
     lastPacketReset = now, dbStatus = ''unknown'', stopped = False, maxEventsPerREQ = 100, rateLimitEnabled = \<not> (rl_env = ''false'' \<or> rl_env = ''0''),
     relay_requireAuth = False, closeAfterEOSE = False, retentionDays = 30, nip36Policy = None\<rparr>"

definition on_conn :: "nat \<Rightarrow> (client \<Rightarrow> client) \<Rightarrow> 's relay \<Rightarrow> 's relay" where
  "on_conn cid f r = r\<lparr>conns := (conns r)(cid := f (conns r cid))\<rparr>"

abbreviation ok :: "nat \<Rightarrow> string \<Rightarrow> bool \<Rightarrow> string \<Rightarrow> 's relay \<Rightarrow> 's relay" where
  "ok cid i accepted m r \<equiv> on_conn cid (\<lambda>c. fst (SendOK i accepted m c)) r"

section \<open>Broadcast\<close>

definition broadcastEvent :: "event \<Rightarrow> 's relay \<Rightarrow> 's relay" where
  "broadcastEvent evt r = r\<lparr>pending := pending r @ map (\<lambda>(cid, _). (cid, evt)) (clients r)\<rparr>"

text \<open>The loop over a client's subscriptions returns after the first one sent to.\<close>

fun deliver_subs :: "event \<Rightarrow> (string \<times> filt list) list \<Rightarrow> client \<Rightarrow> client" where
  "deliver_subs evt [] c = c"
| "deliver_subs evt ((subID, filters) # subs) c =
     (if list_ex (Matches evt) filters then fst (SendEvent subID evt c) else deliver_subs evt subs c)"

definition deliver :: "clock \<Rightarrow> (string \<Rightarrow> nat) \<Rightarrow> event \<Rightarrow> client \<Rightarrow> client" where
  "deliver now rank evt c =
    (if ShouldFilterEvent now evt then c
     else if nip44_IsEncryptedDirectMessage evt \<and>
       (case nip44_GetRecipientPubKey evt of None \<Rightarrow> True | Some pk \<Rightarrow> \<not> HasSubscriptionToPubKey c pk) then c
     else deliver_subs evt (range_order rank (GetSubscriptions c)) c)"

section \<open>EVENT\<close>

text \<open>The per-kind validation: the text of the OK message and the error, if any.\<close>

definition validate_kind :: "('pk, 'sg) env \<Rightarrow> event \<Rightarrow> (string \<times> error) option" where
  "validate_kind E evt =
    (case (if IsFollowListEvent evt then ValidateFollowList evt else None) of
       Some err \<Rightarrow> Some (''invalid follow list: '' @ Error err, wrap_err ''invalid follow list event: '' err)
     | None \<Rightarrow>
    (case (if IsCommentEvent evt then ValidateComment (en_unicode E) evt else None) of
       Some err \<Rightarrow> Some (''invalid comment: '' @ Error err, wrap_err ''invalid comment event: '' err)
     | None \<Rightarrow>
    (case (if IsReactionEvent evt then ValidateReaction evt else None) of
       Some err \<Rightarrow> Some (''invalid reaction: '' @ Error err, wrap_err ''invalid reaction event: '' err)
     | None \<Rightarrow>
    (case (if IsRelayListEvent evt then ValidateRelayList evt else None) of
       Some err \<Rightarrow> Some (''invalid relay list: '' @ Error err, wrap_err ''invalid relay list event: '' err)
     | None \<Rightarrow>
    (case (if IsNIP28Event evt then nip28_Process (en_crypto E) evt else None) of
       Some err \<Rightarrow> Some (''invalid channel event: '' @ Error err, wrap_err ''invalid channel event: '' err)
     | None \<Rightarrow>
    (case (if IsRequestToVanishEvent evt then ValidateRequestToVanish evt else None) of
       Some err \<Rightarrow> Some (''invalid Request to Vanish: '' @ Error err, wrap_err ''invalid Request to Vanish event: '' err)
     | None \<Rightarrow> None))))))"

definition convertLocalEventToNostrEvent :: "event \<Rightarrow> event" where
  "convertLocalEventToNostrEvent le = le\<lparr>Tags := Some (elems (Tags le))\<rparr>"

definition save_event :: "'s store_if \<Rightarrow> event \<Rightarrow> 's relay \<Rightarrow> 's relay \<times> error option" where
  "save_event S evt r = (case SaveEvent S (store r) evt of (s, err) \<Rightarrow> (r\<lparr>store := s\<rparr>, err))"

definition save_channel_event :: "'s channel_if option \<Rightarrow> event \<Rightarrow> 's relay \<Rightarrow> 's relay" where
  "save_channel_event CS evt r =
    (if IsNIP28Event evt then
       (case CS of Some cs \<Rightarrow> r\<lparr>store := fst (SaveChannelEvent cs (store r) evt)\<rparr> | None \<Rightarrow> r)
     else r)"

text \<open>The last part: duplicates, saving, acknowledging, broadcasting.\<close>

definition accept_event ::
  "'s store_if \<Rightarrow> 's channel_if option \<Rightarrow> nat \<Rightarrow> event \<Rightarrow> 's relay \<Rightarrow> 's relay \<times> unit outcome" where
  "accept_event S CS cid evt r =
    (case GetEvent S (store r) (ID evt) of
       Inr existing \<Rightarrow> (ok cid (ID evt) True ''duplicate: event already exists'' r, Ok ())
     | Inl err \<Rightarrow>
         if err \<noteq> ErrNotFound then (r, Err (wrap_err ''failed to check for existing event: '' err))
         else (case save_event S evt r of
           (r, Some err) \<Rightarrow>
             (ok cid (ID evt) False (''error: failed to save event: '' @ Error err) r,
              Err (wrap_err ''failed to save event: '' err))
         | (r, None) \<Rightarrow>
             (broadcastEvent evt (ok cid (ID evt) True [] (save_channel_event CS evt r)), Ok ())))"

definition relayURL :: string where
  "relayURL = ''ws://localhost:8080''"

text \<open>From the ephemeral kinds on.\<close>

definition process_event ::
  "('pk, 'sg) env \<Rightarrow> 's store_if \<Rightarrow> 's channel_if option \<Rightarrow> nat \<Rightarrow> event \<Rightarrow> 's relay \<Rightarrow> 's relay \<times> unit outcome" where
  "process_event E S CS cid evt r =
    (if 20000 \<le> Kind evt \<and> Kind evt < 30000 then (ok cid (ID evt) True [] (broadcastEvent evt r), Ok ())
     else if ShouldRejectEvent (en_clock E) evt then
       (ok cid (ID evt) False ''event has expired'' r, failure ''event has expired'')
     else if Kind evt = 5 then (r\<lparr>store := fst (HandleDeletion S (store r) evt)\<rparr>, Ok ())
     else if IsRequestToVanishEvent evt then
       (case HandleRequestToVanish (en_unicode E) S (store r) evt relayURL of
          (s, Some err) \<Rightarrow>
            (ok cid (ID evt) False (''error: failed to process Request to Vanish: '' @ Error err) (r\<lparr>store := s\<rparr>),
             Err (wrap_err ''failed to process Request to Vanish: '' err))
        | (s, None) \<Rightarrow> (ok cid (ID evt) True ''Request to Vanish processed'' (r\<lparr>store := s\<rparr>), Ok ()))
     else if IsGiftWrap (convertLocalEventToNostrEvent evt) then
       (case save_event S evt r of
          (r, Some err) \<Rightarrow>
            (ok cid (ID evt) False (''error: failed to save event: '' @ Error err) r,
             Err (wrap_err ''failed to save gift wrap event: '' err))
        | (r, None) \<Rightarrow> (broadcastEvent evt (ok cid (ID evt) True [] r), Ok ()))
     else accept_event S CS cid evt r)"

text \<open>An \<open>AUTH\<close> event.\<close>

definition authenticate_event ::
  "('pk, 'sg) crypto \<Rightarrow> nat \<Rightarrow> event \<Rightarrow> 's relay \<Rightarrow> 's relay \<times> unit outcome" where
  "authenticate_event C cid evt r =
    (case ValidateAuthEvent C evt of
       Some err \<Rightarrow> (ok cid (ID evt) False (''invalid AUTH: '' @ Error err) r, Err (wrap_err ''invalid AUTH event: '' err))
     | None \<Rightarrow>
         let challenge = authChallenge (conns r cid) in
         if challenge \<noteq> [] \<and> Content evt \<noteq> challenge
         then (ok cid (ID evt) False ''invalid: challenge mismatch'' r, failure ''AUTH challenge mismatch'')
         else (ok cid (ID evt) True ''authenticated'' (on_conn cid (Authenticate (PubKey evt)) r), Ok ()))"

definition nip36_reason :: "unicode \<Rightarrow> event \<Rightarrow> 's relay \<Rightarrow> string" where
  "nip36_reason U evt r = (case nip36Policy r of Some p \<Rightarrow> ShouldReject U p evt | None \<Rightarrow> [])"

definition HandleEvent ::
  "('pk, 'sg) env \<Rightarrow> 's store_if \<Rightarrow> 's channel_if option \<Rightarrow> nat \<Rightarrow> event \<Rightarrow> 's relay \<Rightarrow> 's relay \<times> unit outcome" where
  "HandleEvent E S CS cid evt r0 =
    (let r = r0\<lparr>totalEvents := totalEvents r0 + 1, packetCount := packetCount r0 + 1\<rparr> in
     if IsAuthEvent evt then authenticate_event (en_crypto E) cid evt r
     else if relay_requireAuth r \<and> \<not> authenticated (conns r cid) then
       (ok cid (ID evt) False ''auth-required: this relay requires NIP-42 authentication'' r, Ok ())
     else if nip36_reason (en_unicode E) evt r \<noteq> [] then
       (ok cid (ID evt) False (nip36_reason (en_unicode E) evt r) r, Ok ())
     else (case validate_kind E evt of
       Some (m, err) \<Rightarrow> (ok cid (ID evt) False m r, Err err)
     | None \<Rightarrow> process_event E S CS cid evt r))"

section \<open>REQ, CLOSE, COUNT\<close>

fun getChannelIDFromFilters :: "filt list \<Rightarrow> string option" where
  "getChannelIDFromFilters [] = None"
| "getChannelIDFromFilters (f # fs) =
     (case mget (FTags f) ''channel_id'' of
        Some vs \<Rightarrow> if elems vs \<noteq> [] \<and> elems vs ! 0 \<noteq> [] then Some (elems vs ! 0) else getChannelIDFromFilters fs
      | None \<Rightarrow> getChannelIDFromFilters fs)"

definition hasSearchField :: "filt list \<Rightarrow> bool" where
  "hasSearchField fs = list_ex (\<lambda>f. Search f \<noteq> []) fs"

text \<open>The last filter that sets a field decides it.\<close>

fun last_set :: "('f \<Rightarrow> 'a option) \<Rightarrow> 'f list \<Rightarrow> 'a option \<Rightarrow> 'a option" where
  "last_set g [] v = v"
| "last_set g (f # fs) v = last_set g fs (case g f of Some x \<Rightarrow> Some x | None \<Rightarrow> v)"

fun kinds_loop :: "error + event list \<Rightarrow> int list \<Rightarrow> event list \<Rightarrow> error + event list" where
  "kinds_loop q [] acc = Inr acc"
| "kinds_loop q (k # ks) acc = (case q of
      Inl err \<Rightarrow> Inl err
    | Inr es \<Rightarrow> kinds_loop q ks (acc @ filter (\<lambda>e. Kind e = k) es))"

definition queryChannelEvents :: "'s channel_if \<Rightarrow> 's \<Rightarrow> string \<Rightarrow> filt list \<Rightarrow> error + event list" where
  "queryChannelEvents cs s channelID filters =
    (let since = last_set Since filters None; until = last_set Until filters None;
         limit = last_set Limit filters None;
         q = QueryChannelEvents cs s channelID since until limit
     in if filters \<noteq> [] \<and> elems (Kinds (hd filters)) \<noteq> []
        then kinds_loop q (elems (Kinds (hd filters))) [] else q)"

definition req_events ::
  "('pk, 'sg) env \<Rightarrow> 's store_if \<Rightarrow> 's channel_if option \<Rightarrow> 's \<Rightarrow> filt list \<Rightarrow> event list outcome" where
  "req_events E S CS s filters =
    (case getChannelIDFromFilters filters of
       Some channelID \<Rightarrow>
         (case CS of
            None \<Rightarrow> Err (ErrorString ''channel events require storage with channel support'')
          | Some cs \<Rightarrow> (case queryChannelEvents cs s channelID filters of
              Inl err \<Rightarrow> Err (wrap_err ''failed to query channel events: '' err) | Inr es \<Rightarrow> Ok es))
     | None \<Rightarrow>
         if hasSearchField filters then
           (case SearchEvents (en_unicode E) S s filters of
              Err err \<Rightarrow> Err (wrap_err ''failed to search events: '' err) | res \<Rightarrow> res)
         else (case QueryEvents S s filters of
              Err err \<Rightarrow> Err (wrap_err ''failed to query events: '' err) | res \<Rightarrow> res))"

text \<open>Expired events are skipped; the count of those sent is capped.\<close>

fun send_loop :: "clock \<Rightarrow> int \<Rightarrow> string \<Rightarrow> event list \<Rightarrow> int \<Rightarrow> client \<Rightarrow> client" where
  "send_loop now mx subID [] n c = c"
| "send_loop now mx subID (evt # es) n c =
     (if ShouldFilterEvent now evt then send_loop now mx subID es n c
      else if n \<ge> mx then c
      else send_loop now mx subID es (n + 1) (fst (SendEvent subID evt c)))"

definition HandleReq ::
  "('pk, 'sg) env \<Rightarrow> 's store_if \<Rightarrow> 's channel_if option \<Rightarrow> nat \<Rightarrow> string \<Rightarrow> filt list \<Rightarrow> 's relay \<Rightarrow> 's relay \<times> unit outcome" where
  "HandleReq E S CS cid subID filters r0 =
    (let r = r0\<lparr>totalRequests := totalRequests r0 + 1, packetCount := packetCount r0 + 1\<rparr> in
     case req_events E S CS (store r) filters of
       Err err \<Rightarrow> (r, Err err)
     | Panic \<Rightarrow> (r, Panic)
     | Ok es \<Rightarrow>
         let r = on_conn cid (send_loop (en_clock E) (maxEventsPerREQ r) subID es 0) r;
             r = on_conn cid (\<lambda>c. fst (SendEOSE subID c)) r;
             r = (if closeAfterEOSE r then on_conn cid (RemoveSubscription subID) r else r)
         in (r, Ok ()))"

definition HandleClose :: "nat \<Rightarrow> string \<Rightarrow> 's relay \<Rightarrow> 's relay \<times> unit outcome" where
  "HandleClose cid subID r = (on_conn cid (RemoveSubscription subID) r, Ok ())"

definition HandleCount ::
  "'s store_if \<Rightarrow> nat \<Rightarrow> string \<Rightarrow> filt list \<Rightarrow> 's relay \<Rightarrow> 's relay \<times> unit outcome" where
  "HandleCount S cid countID filters r =
    (if filters = [] then
       (on_conn cid (\<lambda>c. fst (SendClosed countID ''error: no filters provided'' c)) r,
        failure ''COUNT request requires at least one filter'')
     else (case CountEvents S (store r) filters of
       Inl err \<Rightarrow>
         (on_conn cid (\<lambda>c. fst (SendClosed countID (''error: failed to count events: '' @ Error err) c)) r,
          Err (wrap_err ''failed to count events: '' err))
     | Inr n \<Rightarrow>
         (on_conn cid (\<lambda>c. fst (SendCount countID n False c)) r,
          (case snd (SendCount countID n False (conns r cid)) of
             Some err \<Rightarrow> Err (wrap_err ''failed to send COUNT response: '' err)
           | None \<Rightarrow> Ok ()))))"

text \<open>The relay as the handler of one client.\<close>

definition relay_handler ::
  "('pk, 'sg) env \<Rightarrow> 's store_if \<Rightarrow> 's channel_if option \<Rightarrow> nat \<Rightarrow> 's relay handler" where
  "relay_handler E S CS cid = \<lparr>
     the_client = (\<lambda>r. conns r cid), on_client = on_conn cid,
     rateLimit = (\<lambda>ip pk r. case checkRate (en_rnd E) (en_instants E) ip pk (limits r) of (l, m) \<Rightarrow> (r\<lparr>limits := l\<rparr>, m)),
     do_event = HandleEvent E S CS cid, do_req = HandleReq E S CS cid,
     do_close = HandleClose cid, do_count = HandleCount S cid\<rparr>"

definition client_message ::
  "('pk, 'sg) env \<Rightarrow> 's store_if \<Rightarrow> 's channel_if option \<Rightarrow> nat \<Rightarrow> error + json \<Rightarrow> 's relay \<Rightarrow> 's relay \<times> unit outcome" where
  "client_message E S CS cid message r = read_one (en_codec E) (relay_handler E S CS cid) message r"

section \<open>Settings\<close>

definition SetMaxEventsPerREQ :: "int \<Rightarrow> 's relay \<Rightarrow> 's relay" where
  "SetMaxEventsPerREQ mx r = r\<lparr>maxEventsPerREQ := mx\<rparr>"

definition relay_SetRequireAuth :: "bool \<Rightarrow> 's relay \<Rightarrow> 's relay" where
  "relay_SetRequireAuth enabled r = r\<lparr>relay_requireAuth := enabled\<rparr>"

definition SetRetentionDays :: "int \<Rightarrow> 's relay \<Rightarrow> 's relay" where
  "SetRetentionDays days r = r\<lparr>retentionDays := days\<rparr>"

definition SetCloseAfterEOSE :: "bool \<Rightarrow> 's relay \<Rightarrow> 's relay" where
  "SetCloseAfterEOSE enabled r = r\<lparr>closeAfterEOSE := enabled\<rparr>"

text \<open>\<open>file\<close> is the vocabulary file as it is found on disk.\<close>

definition SetNIP36Policy :: "unicode \<Rightarrow> disk_file option \<Rightarrow> string \<Rightarrow> 's relay \<Rightarrow> 's relay" where
  "SetNIP36Policy U file vocabFile r =
     r\<lparr>nip36Policy := (if vocabFile = [] then None else Some (New_policy U file vocabFile))\<rparr>"

section \<open>Retention\<close>

definition retentionExemptKinds :: "int list" where
  "retentionExemptKinds = [0, 3, 10002, 10050]"

definition runRetention :: "'s store_if \<Rightarrow> int \<Rightarrow> 's relay \<Rightarrow> 's relay" where
  "runRetention S now r =
    (if retentionDays r \<le> 0 then r
     else let cutoff = wrap64 (now - wrap64 (retentionDays r * 86400))
       in r\<lparr>store := fst (DeleteEventsOlderThan S (store r) cutoff retentionExemptKinds)\<rparr>)"

section \<open>Connections\<close>

record RelayInformationDocument =
  doc_Name :: string
  doc_Description :: string
  doc_Pubkey :: string
  doc_Contact :: string
  doc_SupportedNIPs :: "int list"
  doc_Software :: string
  doc_Version :: string
  doc_Icon :: string

definition Version :: string where
  "Version = ''0.19.8''"

definition relay_info_document :: RelayInformationDocument where
  "relay_info_document = \<lparr>doc_Name = ''Glienicke Nostr Relay'',
     doc_Description = ''Glienicke - a Nostr relay written in Go'', doc_Pubkey = [], doc_Contact = [],
     doc_SupportedNIPs = [1, 2, 4, 9, 11, 17, 22, 25, 40, 42, 44, 45, 50, 59, 62, 65],
     doc_Software = ''https://github.com/paul/glienicke'', doc_Version = Version,
     doc_Icon = ''https://www.paulstephenborile.com/wp-content/uploads/2026/02/cropped-logo-only.png''\<rparr>"

text \<open>\<^verbatim>\<open>json.Marshal\<close> of the document: empty members are left out.\<close>

definition doc_ToJSON :: "RelayInformationDocument \<Rightarrow> string" where
  "doc_ToJSON d =
    (let member = (\<lambda>n v. if v = [] then [] else [json_quote n @ '':'' @ json_quote v]) in
     ''{'' @ Join (member ''name'' (doc_Name d) @ member ''description'' (doc_Description d) @
       member ''pubkey'' (doc_Pubkey d) @ member ''contact'' (doc_Contact d) @
       (if doc_SupportedNIPs d = [] then []
        else [json_quote ''supported_nips'' @ '':['' @ Join (map show_int (doc_SupportedNIPs d)) '','' @ '']'']) @
       member ''software'' (doc_Software d) @ member ''version'' (doc_Version d) @
       member ''icon'' (doc_Icon d)) '','' @ ''}'')"

text \<open>\<^verbatim>\<open>net.SplitHostPort\<close>: the host, or \<open>None\<close> for an error.\<close>

definition split_host :: "string \<Rightarrow> string option" where
  "split_host s =
    (if CHR '':'' \<notin> set s then None
     else let i = length (dropWhile (\<lambda>c. c \<noteq> CHR '':'') (rev s)) - 1 in
       if hd s = CHR ''['' then
         let j = length (takeWhile (\<lambda>c. c \<noteq> CHR '']'') s) in
         if j = length s \<or> j + 1 \<noteq> i then None
         else if CHR ''['' \<in> set (drop 1 s) \<or> CHR '']'' \<in> set (drop (j + 1) s) then None
         else Some (take (j - 1) (drop 1 s))
       else if CHR '':'' \<in> set (take i s) \<or> CHR ''['' \<in> set s \<or> CHR '']'' \<in> set s then None
       else Some (take i s))"

text \<open>The parts of a request that are looked at; a missing header is empty.\<close>

record request =
  Accept :: string
  X_Forwarded_For :: string
  X_Real_IP :: string
  RemoteAddr :: string

definition real_ip :: "request \<Rightarrow> string" where
  "real_ip q =
    (if X_Forwarded_For q \<noteq> [] then
       (if CHR '','' \<in> set (X_Forwarded_For q) then TrimSpace (takeWhile (\<lambda>c. c \<noteq> CHR '','') (X_Forwarded_For q))
        else X_Forwarded_For q)
     else if X_Real_IP q \<noteq> [] then X_Real_IP q
     else (case split_host (RemoteAddr q) of Some host \<Rightarrow> host | None \<Rightarrow> RemoteAddr q))"

datatype answer = InfoDocument RelayInformationDocument | Forbidden string | NotUpgraded | Connected

definition connected :: "string \<Rightarrow> string \<Rightarrow> 's relay \<Rightarrow> client" where
  "connected rnd ip r =
    (let c = NewClient ip;
         c = (if rateLimitEnabled r then SetRateLimit c else c)
     in if relay_requireAuth r then fst (SendAuth (SetRequireAuth rnd c)) else c)"

text \<open>Up to \<^verbatim>\<open>client.Start\<close>. \<open>cid\<close> is the new client's number, \<open>upgraded\<close> whether the WebSocket upgrade
  succeeds, \<open>rnd\<close> the random bytes of the challenge.\<close>

definition ServeHTTP :: "int \<Rightarrow> bool \<Rightarrow> string \<Rightarrow> nat \<Rightarrow> request \<Rightarrow> 's relay \<Rightarrow> 's relay \<times> answer" where
  "ServeHTTP now upgraded rnd cid q r0 =
    (if Accept q = ''application/nostr+json'' then (r0, InfoDocument relay_info_document)
     else let ip = real_ip q;
         (l, banned) = (if rateLimitEnabled r0 then isIPBanned now ip (limits r0) else (limits r0, False));
         r = r0\<lparr>limits := l\<rparr>
       in if banned then (r, Forbidden ''banned'')
          else if \<not> upgraded then (r, NotUpgraded)
          else (r\<lparr>conns := (conns r)(cid := connected rnd ip r), totalConnections := totalConnections r + 1,
                  packetCount := packetCount r + 1, clients := mput cid True (clients r)\<rparr>, Connected))"

text \<open>When the connection ends.\<close>

definition disconnect :: "nat \<Rightarrow> 's relay \<Rightarrow> 's relay" where
  "disconnect cid r = on_conn cid Close_client (r\<lparr>clients := mdel cid (clients r)\<rparr>)"

text \<open>\<^verbatim>\<open>Close\<close>; the store's own \<^verbatim>\<open>Close\<close> is left out. Closing the stop channel again panics.\<close>

definition Close_relay :: "'s relay \<Rightarrow> 's relay \<times> unit outcome" where
  "Close_relay r =
    (if stopped r then (r, Panic)
     else (r\<lparr>stopped := True, conns := foldl (\<lambda>cs (cid, _). cs(cid := Close_client (cs cid))) (conns r) (clients r)\<rparr>, Ok ()))"

section \<open>Health\<close>

definition float_div :: "(rat \<Rightarrow> rat) \<Rightarrow> rat \<Rightarrow> rat \<Rightarrow> rat option" where
  "float_div rnd a b = (if b = 0 then None else Some (rnd (a / b)))"

definition updateMetrics :: "(rat \<Rightarrow> rat) \<Rightarrow> 's store_if \<Rightarrow> int \<Rightarrow> 's relay \<Rightarrow> 's relay" where
  "updateMetrics rnd S now r0 =
    (let rate = float_div rnd (rnd (of_int (packetCount r0))) (Seconds rnd (now - lastPacketReset r0));
         r = (if now - lastPacketReset r0 \<ge> 60 * second
              then r0\<lparr>packetsPerSecond := rate, packetCount := 0, lastPacketReset := now\<rparr>
              else if packetCount r0 > 0 then r0\<lparr>packetsPerSecond := rate\<rparr> else r0)
     in r\<lparr>dbStatus := (case CountEvents S (store r) [] of Inl err \<Rightarrow> ''error: '' @ Error err | Inr _ \<Rightarrow> ''ok'')\<rparr>)"

text \<open>The response without the clock and memory readings.\<close>

record HealthResponse =
  h_code :: int
  h_Status :: string
  h_Version :: string
  h_ActiveConnections :: nat
  h_TotalConnections :: int
  h_TotalEvents :: int
  h_TotalRequests :: int
  h_PacketsPerSecond :: "rat option"
  h_RateLimitedCount :: int
  h_DatabaseStatus :: string

definition HealthHandler :: "(rat \<Rightarrow> rat) \<Rightarrow> 's store_if \<Rightarrow> int \<Rightarrow> 's relay \<Rightarrow> 's relay \<times> HealthResponse" where
  "HealthHandler rnd S now r0 =
    (let r = updateMetrics rnd S now r0;
         status = (if dbStatus r \<noteq> ''ok'' then ''unhealthy'' else ''healthy'')
     in (r, \<lparr>h_code = (if status = ''healthy'' then 200 else 503), h_Status = status, h_Version = Version,
        h_ActiveConnections = mlen (clients r), h_TotalConnections = totalConnections r,
        h_TotalEvents = totalEvents r, h_TotalRequests = totalRequests r,
        h_PacketsPerSecond = packetsPerSecond r, h_RateLimitedCount = rateLimitedCount (limits r),
        h_DatabaseStatus = dbStatus r\<rparr>))"

section \<open>What a handler changes\<close>

lemma on_conn_frame [simp]:
  "store (on_conn cid f r) = store r" "clients (on_conn cid f r) = clients r" "limits (on_conn cid f r) = limits r"
  "pending (on_conn cid f r) = pending r" "relay_requireAuth (on_conn cid f r) = relay_requireAuth r"
  "maxEventsPerREQ (on_conn cid f r) = maxEventsPerREQ r" "closeAfterEOSE (on_conn cid f r) = closeAfterEOSE r"
  "nip36Policy (on_conn cid f r) = nip36Policy r" "retentionDays (on_conn cid f r) = retentionDays r"
  by (simp_all add: on_conn_def)

lemma conns_on_conn: "conns (on_conn cid f r) j = (if j = cid then f (conns r cid) else conns r j)"
  by (simp add: on_conn_def)

lemma conns_on_conn_same [simp]: "conns (on_conn cid f r) cid = f (conns r cid)"
  by (simp add: on_conn_def)

lemma on_conn_on_conn [simp]: "on_conn cid f (on_conn cid g r) = on_conn cid (\<lambda>c. f (g c)) r"
  by (simp add: on_conn_def)

lemma broadcast_frame [simp]:
  "store (broadcastEvent e r) = store r" "conns (broadcastEvent e r) = conns r"
  "clients (broadcastEvent e r) = clients r" "limits (broadcastEvent e r) = limits r"
  "pending (broadcastEvent e r) = pending r @ map (\<lambda>(cid, _). (cid, e)) (clients r)"
  by (simp_all add: broadcastEvent_def)

lemma save_event_frame [simp]:
  "conns (fst (save_event S e r)) = conns r" "clients (fst (save_event S e r)) = clients r"
  "pending (fst (save_event S e r)) = pending r" "store (fst (save_event S e r)) = fst (SaveEvent S (store r) e)"
  "snd (save_event S e r) = snd (SaveEvent S (store r) e)"
  by (simp_all add: save_event_def case_prod_beta)

lemma save_channel_frame [simp]:
  "conns (save_channel_event CS e r) = conns r" "clients (save_channel_event CS e r) = clients r"
  "pending (save_channel_event CS e r) = pending r"
  by (simp_all add: save_channel_event_def split: option.splits)

lemma SendOK_frame [simp]: "subscriptions (fst (SendOK i b m c)) = subscriptions c"
  by (simp add: SendOK_def)

lemma Authenticate_subs [simp]: "subscriptions (Authenticate pk c) = subscriptions c"
  by (simp add: Authenticate_def)

text \<open>What an event may do to the store: nothing, the deletions of a deletion request or of a request to
  vanish, or one save, followed for a channel event by its copy.\<close>

definition saved_channel :: "'s channel_if option \<Rightarrow> event \<Rightarrow> 's \<Rightarrow> 's" where
  "saved_channel CS e s =
    (if IsNIP28Event e then (case CS of Some cs \<Rightarrow> fst (SaveChannelEvent cs s e) | None \<Rightarrow> s) else s)"

lemma save_channel_event_store: "save_channel_event CS e r = r\<lparr>store := saved_channel CS e (store r)\<rparr>"
  by (simp add: save_channel_event_def saved_channel_def split: option.split)

definition store_moves :: "unicode \<Rightarrow> 's store_if \<Rightarrow> 's channel_if option \<Rightarrow> event \<Rightarrow> 's \<Rightarrow> 's set" where
  "store_moves U S CS e s =
    {s, fst (HandleDeletion S s e), fst (HandleRequestToVanish U S s e relayURL),
     fst (SaveEvent S s e), saved_channel CS e (fst (SaveEvent S s e))}"

definition spread :: "bool \<Rightarrow> event \<Rightarrow> 's relay \<Rightarrow> 's relay" where
  "spread b e r = (if b then broadcastEvent e r else r)"

definition replies :: "string \<Rightarrow> (client \<Rightarrow> client) \<Rightarrow> bool" where
  "replies i f \<longleftrightarrow> f = (\<lambda>c. c) \<or> (\<exists>b m. f = (\<lambda>c. fst (SendOK i b m c)))"

lemma spread_on_conn: "on_conn cid f (broadcastEvent e r) = broadcastEvent e (on_conn cid f r)"
  by (simp add: on_conn_def broadcastEvent_def)

lemma replies_intros [intro]: "replies i (\<lambda>c. c)" "replies i (\<lambda>c. fst (SendOK i b m c))"
  by (auto simp: replies_def)

lemma on_conn_id [simp]: "on_conn cid (\<lambda>c. c) r = r"
  by (simp add: on_conn_def)

lemma save_event_form: "save_event S e r = (r\<lparr>store := fst (SaveEvent S (store r) e)\<rparr>, snd (SaveEvent S (store r) e))"
  by (simp add: save_event_def case_prod_beta)

text \<open>One step: the store, then one reply, then perhaps the broadcast.\<close>

definition step_form :: "unicode \<Rightarrow> 's store_if \<Rightarrow> 's channel_if option \<Rightarrow> nat \<Rightarrow> event \<Rightarrow> 's relay \<Rightarrow> 's relay \<Rightarrow> bool" where
  "step_form U S CS cid e r r' \<longleftrightarrow> (\<exists>s' f b. r' = spread b e (on_conn cid f (r\<lparr>store := s'\<rparr>)) \<and>
     replies (ID e) f \<and> s' \<in> store_moves U S CS e (store r))"

lemma step_formI:
  "r' = spread b e (on_conn cid f (r\<lparr>store := s'\<rparr>)) \<Longrightarrow> replies (ID e) f \<Longrightarrow>
    s' \<in> store_moves U S CS e (store r) \<Longrightarrow> step_form U S CS cid e r r'"
  unfolding step_form_def by blast

lemma step_form_store:
  assumes "s' \<in> store_moves U S CS e (store r)"
  shows "step_form U S CS cid e r (r\<lparr>store := s'\<rparr>)"
    "step_form U S CS cid e r (ok cid (ID e) b m (r\<lparr>store := s'\<rparr>))"
    "step_form U S CS cid e r (broadcastEvent e (ok cid (ID e) b m (r\<lparr>store := s'\<rparr>)))"
  by (rule step_formI [OF _ replies_intros(1) assms, where b = False], simp add: spread_def)
    (rule step_formI [OF _ replies_intros(2) assms, where b = False], simp add: spread_def,
     rule step_formI [OF _ replies_intros(2) assms, where b = True], simp add: spread_def)

lemma step_form_ok:
  "step_form U S CS cid e r (ok cid (ID e) b m r)"
  "step_form U S CS cid e r (broadcastEvent e (ok cid (ID e) b m r))"
  using step_form_store(2,3) [of "store r" U S CS e r cid b m] by (simp_all add: store_moves_def)

lemma accept_event_form: "step_form U S CS cid e r (fst (accept_event S CS cid e r))"
proof (cases "GetEvent S (store r) (ID e)")
  case (Inr x)
  then show ?thesis by (simp add: accept_event_def step_form_ok)
next
  case (Inl err)
  have n: "step_form U S CS cid e r r"
    using step_form_store(1) [of "store r" U S CS e r cid] by (simp add: store_moves_def)
  have s: "fst (SaveEvent S (store r) e) \<in> store_moves U S CS e (store r)"
    "saved_channel CS e (fst (SaveEvent S (store r) e)) \<in> store_moves U S CS e (store r)"
    by (simp_all add: store_moves_def)
  show ?thesis
    using Inl n step_form_store(2) [OF s(1)] step_form_store(3) [OF s(2)]
    by (simp add: accept_event_def save_event_form save_channel_event_store del: append.simps split: option.split)
qed

lemma process_event_form: "step_form (en_unicode E) S CS cid e r (fst (process_event E S CS cid e r))"
proof -
  let ?M = "store_moves (en_unicode E) S CS e (store r)"
  have m: "fst (HandleDeletion S (store r) e) \<in> ?M" "fst (HandleRequestToVanish (en_unicode E) S (store r) e relayURL) \<in> ?M"
    "fst (SaveEvent S (store r) e) \<in> ?M"
    by (simp_all add: store_moves_def)
  have v: "step_form (en_unicode E) S CS cid e r (fst (case HandleRequestToVanish (en_unicode E) S (store r) e relayURL of
      (s, Some err) \<Rightarrow> (ok cid (ID e) False (f err) (r\<lparr>store := s\<rparr>), g err)
    | (s, None) \<Rightarrow> (ok cid (ID e) True m' (r\<lparr>store := s\<rparr>), z)))" for f g m' z
    using step_form_store(2) [OF m(2)] by (simp add: case_prod_beta split: option.split)
  have w: "step_form (en_unicode E) S CS cid e r (fst (case save_event S e r of
      (r, Some err) \<Rightarrow> (ok cid (ID e) False (f err) r, g err)
    | (r, None) \<Rightarrow> (broadcastEvent e (ok cid (ID e) True m' r), z)))" for f g m' z
    using step_form_store(2,3) [OF m(3)] by (simp add: save_event_form split: option.split)
  note forms = step_form_ok step_form_store(1) [OF m(1)] v w accept_event_form
  show ?thesis
    unfolding process_event_def spread_on_conn
    by (simp only: fst_conv forms if_distrib [of fst] if_distrib [of "step_form _ _ _ _ _ _"] if_cancel)
qed

lemma step_form_subs:
  "step_form U S CS cid e r r' \<Longrightarrow> subscriptions (conns r' j) = subscriptions (conns r j)"
  by (auto simp: step_form_def spread_def replies_def conns_on_conn)

lemma authenticate_event_subs:
  "subscriptions (conns (fst (authenticate_event C cid e r)) j) = subscriptions (conns r j)"
  by (simp add: authenticate_event_def Let_def conns_on_conn split: option.split)

lemma HandleEvent_subs:
  "subscriptions (conns (fst (HandleEvent E S CS cid e r)) j) = subscriptions (conns r j)"
  by (simp add: HandleEvent_def Let_def conns_on_conn step_form_subs [OF process_event_form] authenticate_event_subs case_prod_beta
    split: option.split)

lemma send_loop_subs: "subscriptions (send_loop now mx i es n c) = subscriptions c"
  by (induction es arbitrary: n c) (simp_all add: SendEvent_def)

lemma HandleReq_subs:
  "subscriptions (conns (fst (HandleReq E S CS cid i fs r)) cid) \<in>
     {subscriptions (conns r cid), mdel i (subscriptions (conns r cid))}"
  by (simp add: HandleReq_def Let_def send_loop_subs SendEOSE_def RemoveSubscription_def split: outcome.split)

lemma HandleCount_subs:
  "subscriptions (conns (fst (HandleCount S cid i fs r)) cid) = subscriptions (conns r cid)"
  by (simp add: HandleCount_def send_defs split: sum.split)

interpretation rh: handler "relay_handler E S CS cid" for E S CS cid
  by unfold_locales
    (use HandleReq_subs in \<open>simp_all add: relay_handler_def case_prod_beta HandleEvent_subs HandleCount_subs
      HandleClose_def RemoveSubscription_def\<close>)

end
