(* ===== verification/System.thy ===== *)
theory System
  imports MemoryProps Relay
begin

text \<open>
  The running relay: every interleaving of connections, messages, deliveries of broadcast events,
  disconnections, retention runs, health checks and settings, over any store backend. A state is a
  relay, or \<open>None\<close> after a panic, which ends the process (no handler recovers).

  The locale \<open>backend\<close> states what the proofs need of the stores: an invariant that saving validated
  events and deleting keep, and that what is read back is \<open>shown\<close>. From it, for every reachable
  state: every event ever sent to a client is shown (for the in-memory store: it passed validation),
  no client has more than 20 subscriptions, and a client that was asked to authenticate and has not
  has received no event or count and holds no subscription.
\<close>

section \<open>Steps\<close>

type_synonym 's backends = "('s store_if \<times> 's channel_if option) set"

inductive sys_step ::
  "('pk, 'sg) codec \<Rightarrow> (rat \<Rightarrow> rat) \<Rightarrow> 's backends \<Rightarrow> 's relay \<Rightarrow> 's relay option \<Rightarrow> bool"
  for D rnd BS where
  connect: "sys_step D rnd BS r (Some r')"
    if "cid \<notin> fst ` set (clients r)" "cid \<notin> fst ` set (pending r)" "ServeHTTP now up bytes cid q r = (r', a)"
| message: "sys_step D rnd BS r (Some r')"
    if "(S, CS) \<in> BS" "en_codec E = D" "en_rnd E = rnd" "cid \<in> fst ` set (clients r)" "\<not> client.closed (conns r cid)"
      "client_message E S CS cid m r = (r', Ok u)"
| crash: "sys_step D rnd BS r None"
    if "(S, CS) \<in> BS" "en_codec E = D" "en_rnd E = rnd" "cid \<in> fst ` set (clients r)" "\<not> client.closed (conns r cid)"
      "client_message E S CS cid m r = (r', Panic)"
| delivery: "sys_step D rnd BS r (Some (on_conn cid (deliver now rank e) (r\<lparr>pending := p @ q\<rparr>)))"
    if "pending r = p @ (cid, e) # q"
| disconnection: "sys_step D rnd BS r (Some (disconnect cid r))"
| retention: "sys_step D rnd BS r (Some (runRetention S now r))"
    if "(S, CS) \<in> BS"
| health: "sys_step D rnd BS r (Some (fst (HealthHandler rnd S now r)))"
    if "(S, CS) \<in> BS"
| max_events: "sys_step D rnd BS r (Some (SetMaxEventsPerREQ mx r))"
| require_auth: "sys_step D rnd BS r (Some (relay_SetRequireAuth b r))"
| retention_days: "sys_step D rnd BS r (Some (SetRetentionDays days r))"
| close_after_eose: "sys_step D rnd BS r (Some (SetCloseAfterEOSE b r))"
| nip36: "sys_step D rnd BS r (Some (SetNIP36Policy U f v r))"

text \<open>The states that a relay started on the store \<open>s\<close> can reach.\<close>

inductive reachable ::
  "('pk, 'sg) codec \<Rightarrow> (rat \<Rightarrow> rat) \<Rightarrow> 's backends \<Rightarrow> 's \<Rightarrow> 's relay option \<Rightarrow> bool"
  for D rnd BS s where
  start: "reachable D rnd BS s (Some (New_relay rl now s))"
| step: "reachable D rnd BS s x"
    if "reachable D rnd BS s (Some r)" "sys_step D rnd BS r x"

inductive_cases crash_stepE: "sys_step D rnd BS r None"

lemma reachable_invariant:
  assumes "reachable D rnd BS s (Some r)"
    and "\<And>rl now. I (New_relay rl now s)"
    and "\<And>r r'. I r \<Longrightarrow> sys_step D rnd BS r (Some r') \<Longrightarrow> I r'"
  shows "I r"
  using assms(1) by (induction "Some r" arbitrary: r rule: reachable.induct) (blast intro: assms(2,3))+

section \<open>An invariant of the clients and the store\<close>

text \<open>\<open>P\<close> holds of every client, \<open>Q\<close> of every event waiting for delivery, \<open>R\<close> of the store.\<close>

definition holds :: "(client \<Rightarrow> bool) \<Rightarrow> (event \<Rightarrow> bool) \<Rightarrow> ('s \<Rightarrow> bool) \<Rightarrow> 's relay \<Rightarrow> bool" where
  "holds P Q R r \<longleftrightarrow> (\<forall>cid. P (conns r cid)) \<and> (\<forall>(cid, e) \<in> set (pending r). Q e) \<and> R (store r)"

lemma holds_on_conn: "holds P Q R r \<Longrightarrow> (\<And>c. P c \<Longrightarrow> P (f c)) \<Longrightarrow> holds P Q R (on_conn cid f r)"
  by (auto simp: holds_def on_conn_def)

lemma holds_store: "holds P Q R r \<Longrightarrow> R s \<Longrightarrow> holds P Q R (r\<lparr>store := s\<rparr>)"
  by (simp add: holds_def)

lemma holds_spread: "holds P Q R r \<Longrightarrow> Q e \<Longrightarrow> holds P Q R (spread b e r)"
  by (auto simp: holds_def spread_def)

lemma holds_cong:
  "conns r' = conns r \<Longrightarrow> pending r' = pending r \<Longrightarrow> store r' = store r \<Longrightarrow> holds P Q R r' = holds P Q R r"
  by (simp add: holds_def)

lemma step_form_holds:
  assumes "step_form U S CS cid e r r'" "holds P Q R r" "Q e" "\<And>s. s \<in> store_moves U S CS e (store r) \<Longrightarrow> R s"
    and "\<And>b m c. P c \<Longrightarrow> P (fst (SendOK (ID e) b m c))"
  shows "holds P Q R r'"
proof -
  obtain s' f b where r': "r' = spread b e (on_conn cid f (r\<lparr>store := s'\<rparr>))" and f: "replies (ID e) f"
    and s': "s' \<in> store_moves U S CS e (store r)"
    using assms(1) unfolding step_form_def by blast
  have "holds P Q R (on_conn cid f (r\<lparr>store := s'\<rparr>))"
    using assms(2,4,5) s' f by (intro holds_on_conn holds_store) (auto simp: replies_def)
  then show ?thesis unfolding r' using assms(3) by (rule holds_spread)
qed

section \<open>The stores\<close>

text \<open>\<open>good\<close> events are the validated ones, \<open>shown\<close> events those that may be read back.\<close>

locale backend =
  fixes BS :: "'s backends" and good :: "event \<Rightarrow> bool" and shown :: "event \<Rightarrow> bool" and sinv :: "'s \<Rightarrow> bool"
  assumes good_shown: "good e \<Longrightarrow> shown e"
    and save: "(S, CS) \<in> BS \<Longrightarrow> sinv s \<Longrightarrow> good e \<Longrightarrow> sinv (fst (SaveEvent S s e))"
    and delete: "(S, CS) \<in> BS \<Longrightarrow> sinv s \<Longrightarrow> sinv (fst (DeleteEvent S s i pk))"
    and delete_all: "(S, CS) \<in> BS \<Longrightarrow> sinv s \<Longrightarrow> sinv (fst (DeleteAllEventsByPubKey S s pk))"
    and older: "(S, CS) \<in> BS \<Longrightarrow> sinv s \<Longrightarrow> sinv (fst (DeleteEventsOlderThan S s t ks))"
    and delete_channel: "(S, CS) \<in> BS \<Longrightarrow> sinv s \<Longrightarrow> sinv (fst (DeleteChannelEvents S s c))"
    and save_channel: "(S, Some cs) \<in> BS \<Longrightarrow> sinv s \<Longrightarrow> good e \<Longrightarrow> sinv (fst (SaveChannelEvent cs s e))"
    and query: "(S, CS) \<in> BS \<Longrightarrow> sinv s \<Longrightarrow> QueryEvents S s fs = Ok es \<Longrightarrow> e \<in> set es \<Longrightarrow> shown e"
    and channel_query: "(S, Some cs) \<in> BS \<Longrightarrow> sinv s \<Longrightarrow> QueryChannelEvents cs s c since until mx = Inr es \<Longrightarrow>
      e \<in> set es \<Longrightarrow> shown e"
begin

lemma wipe_channel_sinv: "(S, CS) \<in> BS \<Longrightarrow> sinv s \<Longrightarrow> sinv (wipe_channel S s i)"
  by (simp add: wipe_channel_def Let_def delete_channel split: sum.split)

lemma HandleDeletion_sinv: "(S, CS) \<in> BS \<Longrightarrow> sinv s \<Longrightarrow> sinv (fst (HandleDeletion S s e))"
proof -
  assume b: "(S, CS) \<in> BS" and s: "sinv s"
  have "sinv s \<Longrightarrow> sinv (HandleDeletion_loop S pk ts s)" for pk ts
    by (induction ts arbitrary: s) (simp_all add: delete [OF b] wipe_channel_sinv [OF b])
  then show ?thesis using s by (simp add: HandleDeletion_def)
qed

lemma HandleRequestToVanish_sinv: "(S, CS) \<in> BS \<Longrightarrow> sinv s \<Longrightarrow> sinv (fst (HandleRequestToVanish U S s e url))"
  using delete_all [of S CS s "PubKey e"]
  by (simp add: HandleRequestToVanish_def case_prod_beta split: option.split)

lemma store_moves_sinv:
  assumes "(S, CS) \<in> BS" "sinv s" "good e" "s' \<in> store_moves U S CS e s"
  shows "sinv s'"
proof -
  have "sinv (saved_channel CS e (fst (SaveEvent S s e)))"
    using assms(1) save [OF assms(1-3)] save_channel assms(3) by (auto simp: saved_channel_def split: option.split)
  then show ?thesis
    using assms(4) assms(2) save [OF assms(1-3)] HandleDeletion_sinv [OF assms(1,2)] HandleRequestToVanish_sinv [OF assms(1,2)]
    by (auto simp: store_moves_def)
qed

lemma kinds_loop_shown:
  "kinds_loop q ks acc = Inr es \<Longrightarrow> (\<And>e. e \<in> set acc \<Longrightarrow> shown e) \<Longrightarrow>
    (\<And>es e. q = Inr es \<Longrightarrow> e \<in> set es \<Longrightarrow> shown e) \<Longrightarrow> e \<in> set es \<Longrightarrow> shown e"
proof (induction ks arbitrary: acc)
  case (Cons k ks)
  then obtain b where b: "q = Inr b" "kinds_loop (Inr b) ks (acc @ filter (\<lambda>e. Kind e = k) b) = Inr es"
    by (cases q) auto
  show ?case
    by (rule Cons.IH [OF b(2) [folded b(1)] _ Cons.prems(3,4)]) (use Cons.prems(2,3) b(1) in auto)
qed auto

lemma req_events_shown:
  assumes "(S, CS) \<in> BS" "sinv s" "req_events E S CS s fs = Ok es" "e \<in> set es"
  shows "shown e"
proof (cases "getChannelIDFromFilters fs")
  case (Some c)
  then obtain cs where cs: "CS = Some cs" "queryChannelEvents cs s c fs = Inr es"
    using assms(3) by (auto simp: req_events_def split: option.splits sum.splits)
  note q = channel_query [OF assms(1) [unfolded cs(1)] assms(2)]
  show ?thesis
    using cs(2) assms(4) q kinds_loop_shown [of _ _ "[]" es e]
    by (auto simp: queryChannelEvents_def Let_def split: if_splits)
next
  case None
  have "shown e" if "SearchEvents U S s fs = Ok es" for U
    using that assms(4) query [OF assms(1,2)]
    by (auto simp: SearchEvents_def Let_def search_loop_filter split: outcome.splits)
  then show ?thesis
    using None assms(3,4) query [OF assms(1,2)] by (auto simp: req_events_def split: if_splits outcome.splits)
qed

end

section \<open>The clients\<close>

locale system = backend BS good shown sinv
  for BS :: "'s backends" and good shown sinv +
  fixes D :: "('pk, 'sg) codec" and P :: "client \<Rightarrow> bool"
  assumes good_valid: "Validate (cd_crypto D) e = None \<Longrightarrow> good e"
    and new_client: "P (NewClient ip)" "P (connected bytes ip (r :: 's relay))"
    and reply: "quiet m \<Longrightarrow> P c \<Longrightarrow> P (fst (send m c))"
    and event: "let_in c \<or> subscriptions c \<noteq> [] \<Longrightarrow> shown e \<Longrightarrow> P c \<Longrightarrow> P (fst (send (MEvent i e) c))"
    and count: "let_in c \<Longrightarrow> P c \<Longrightarrow> P (fst (send (MCount i n b) c))"
    and subscribe: "let_in c \<Longrightarrow> \<not> (mget (subscriptions c) i = None \<and> mlen (subscriptions c) \<ge> MaxSubscriptionsPerClient) \<Longrightarrow>
      P c \<Longrightarrow> P (c\<lparr>subscriptions := mput i fs (subscriptions c)\<rparr>)"
    and unsubscribe: "P c \<Longrightarrow> P (RemoveSubscription i c)"
    and authenticate: "P c \<Longrightarrow> P (Authenticate pk c)"
    and close: "P c \<Longrightarrow> P (Close_client c)"
begin

abbreviation inv :: "'s relay \<Rightarrow> bool" where
  "inv \<equiv> holds P good sinv"

lemma ok_client: "P c \<Longrightarrow> P (fst (SendOK i b m c))"
  by (simp add: SendOK_def reply)

lemma event_inv:
  assumes "(S, CS) \<in> BS" "inv r" "Validate (cd_crypto D) e = None"
  shows "inv (fst (HandleEvent E S CS cid e r))"
proof -
  let ?r = "r\<lparr>totalEvents := totalEvents r + 1, packetCount := packetCount r + 1\<rparr>"
  have r: "inv ?r" using assms(2) by (simp add: holds_def)
  have o: "inv (ok cid i b m ?r)" for i b m
    by (intro holds_on_conn r ok_client)
  have a: "inv (ok cid i b m (on_conn cid (Authenticate pk) ?r))" for i b m pk
    by (intro holds_on_conn r ok_client authenticate)
  have p: "inv (fst (process_event E S CS cid e ?r))"
    by (rule step_form_holds [OF process_event_form r good_valid [OF assms(3)]])
      (use store_moves_sinv [OF assms(1) _ good_valid [OF assms(3)]] r in \<open>auto simp: holds_def ok_client\<close>)
  show ?thesis
    unfolding HandleEvent_def Let_def authenticate_event_def
    using o a p by (auto simp del: append.simps on_conn_on_conn simp: case_prod_beta split: option.split)
qed

lemma send_loop_P:
  "(\<And>e. e \<in> set es \<Longrightarrow> shown e) \<Longrightarrow> let_in c \<Longrightarrow> P c \<Longrightarrow> P (send_loop now mx i es n c)"
proof (induction es arbitrary: n c)
  case (Cons e es)
  have "let_in (fst (SendEvent i e c))" "P (fst (SendEvent i e c))"
    using Cons.prems event [of c e i] by (simp_all add: SendEvent_def let_in_def)
  then show ?case using Cons by simp
qed simp

lemma req_inv:
  assumes "(S, CS) \<in> BS" "inv r" "let_in (conns r cid)"
  shows "inv (fst (HandleReq E S CS cid i fs r))"
proof (cases "req_events E S CS (store r) fs")
  case (Ok es)
  have e: "\<And>e. e \<in> set es \<Longrightarrow> shown e"
    using req_events_shown [OF assms(1) _ Ok] assms(2) by (simp add: holds_def)
  let ?r = "r\<lparr>totalRequests := totalRequests r + 1, packetCount := packetCount r + 1\<rparr>"
  let ?f = "\<lambda>c. fst (SendEOSE i (send_loop (en_clock E) (maxEventsPerREQ r) i es 0 c))"
  have r: "inv ?r" using assms(2) by (simp add: holds_def)
  have f: "P (?f (conns r cid))"
    using send_loop_P [OF e assms(3)] assms(2) by (simp add: holds_def SendEOSE_def reply)
  have "inv (on_conn cid ?f ?r)" "inv (on_conn cid (\<lambda>c. RemoveSubscription i (?f c)) ?r)"
    using r f unsubscribe [OF f] by (simp_all add: holds_def conns_on_conn)
  then show ?thesis using Ok by (simp add: HandleReq_def Let_def)
qed (use assms(2) in \<open>simp_all add: HandleReq_def Let_def holds_def\<close>)

lemma count_inv:
  assumes "inv r" "let_in (conns r cid)"
  shows "inv (fst (HandleCount S cid i fs r))"
proof -
  have a: "inv (on_conn cid (\<lambda>c. fst (SendClosed i m c)) r)" for m
    by (intro holds_on_conn assms(1)) (simp add: SendClosed_def reply)
  have b: "inv (on_conn cid (\<lambda>c. fst (SendCount i n b c)) r)" for n b
    using assms count [of "conns r cid" i n b] by (simp add: holds_def conns_on_conn SendCount_def)
  show ?thesis
    unfolding HandleCount_def using a b by (simp del: append.simps split: sum.split)
qed

lemma kept_inv:
  assumes "(S, CS) \<in> BS" "en_codec E = D"
  shows "kept D (relay_handler E S CS cid) inv"
proof -
  let ?H = "relay_handler E S CS cid"
  have "inv r \<Longrightarrow> let_in (conns r cid) \<Longrightarrow> \<not> (mget (subscriptions (conns r cid)) i = None \<and>
      MaxSubscriptionsPerClient \<le> mlen (subscriptions (conns r cid))) \<Longrightarrow>
      inv (fst (HandleReq E S CS cid i fs (on_conn cid (\<lambda>c. c\<lparr>subscriptions := mput i fs (subscriptions c)\<rparr>) r)))" for r i fs
    using subscribe by (intro req_inv [OF assms(1)]) (auto simp: holds_def conns_on_conn let_in_def)
  moreover have "inv r \<Longrightarrow> inv (fst (case checkRate rnd t ip pk (limits r) of (l, m) \<Rightarrow> (r\<lparr>limits := l\<rparr>, m)))" for r rnd t ip pk
    by (simp add: case_prod_beta holds_def)
  moreover have "inv r \<Longrightarrow> inv (on_conn cid (\<lambda>c. fst (send m c)) r)" if "quiet m" for r m
    by (intro holds_on_conn reply that)
  moreover have "inv r \<Longrightarrow> inv (fst (HandleClose cid i r))" for r i
    by (simp add: HandleClose_def holds_on_conn unsubscribe)
  ultimately show ?thesis
    unfolding kept_def relay_handler_def handler.simps case_prod_beta
    by (intro conjI allI impI) (simp_all add: event_inv [OF assms(1)] count_inv)
qed

lemma client_message_inv:
  assumes "(S, CS) \<in> BS" "en_codec E = D" "inv r"
  shows "inv (fst (client_message E S CS cid m r))"
  unfolding client_message_def assms(2) by (rule read_one_kept [OF kept_inv [OF assms(1,2)] assms(3)])

end

section \<open>Deliveries\<close>

lemma deliver_subs_cases:
  "(deliver_subs e subs c = c \<and> (\<nexists>i fs. (i, fs) \<in> set subs \<and> list_ex (Matches e) fs)) \<or>
   (\<exists>i fs. (i, fs) \<in> set subs \<and> list_ex (Matches e) fs \<and> deliver_subs e subs c = fst (SendEvent i e c))"
proof (induction subs)
  case (Cons x subs)
  then show ?case by (cases x) auto
qed simp

lemma deliver_cases:
  "deliver now rank e c = c \<or>
   (\<exists>i fs. (i, fs) \<in> set (subscriptions c) \<and> list_ex (Matches e) fs \<and> deliver now rank e c = fst (SendEvent i e c))"
  using deliver_subs_cases [of e "range_order rank (subscriptions c)" c]
  by (auto simp: deliver_def GetSubscriptions_def)

context system begin

lemma deliver_P: "P c \<Longrightarrow> good e \<Longrightarrow> P (deliver now rank e c)"
  using deliver_cases [of now rank e c] event [OF _ good_shown, of c e] unfolding SendEvent_def
  by (metis empty_iff empty_set)

lemma sys_step_inv:
  assumes "sys_step D rnd BS r (Some r')" "inv r"
  shows "inv r'"
  using assms(1)
proof cases
  case (connect cid now up bytes q a)
  then show ?thesis
    using assms(2) new_client(2)
    by (auto simp: ServeHTTP_def Let_def holds_def case_prod_beta split: if_splits)
next
  case (message S CS E cid m u)
  then show ?thesis using client_message_inv [OF message(1,2) assms(2)] by (metis fst_conv)
next
  case (delivery p cid e q now rank)
  then have "good e" "inv (r\<lparr>pending := p @ q\<rparr>)" using assms(2) by (auto simp: holds_def)
  then show ?thesis unfolding delivery(1) by (intro holds_on_conn deliver_P)
next
  case (disconnection cid)
  have "inv (r\<lparr>clients := mdel cid (clients r)\<rparr>)" using assms(2) by (simp add: holds_def)
  then show ?thesis unfolding disconnection disconnect_def by (intro holds_on_conn close)
next
  case (retention S CS now)
  have "sinv (store r)" using assms(2) by (simp add: holds_def)
  note o = older [OF retention(2) this]
  show ?thesis unfolding retention(1) runRetention_def Let_def using assms(2) o by (simp add: holds_def)
next
  case (health S CS now)
  have "conns r' = conns r" "pending r' = pending r" "store r' = store r"
    unfolding health(1) HealthHandler_def updateMetrics_def Let_def by simp_all
  then show ?thesis using assms(2) holds_cong by blast
qed (use assms(2) in \<open>simp_all add: holds_def SetMaxEventsPerREQ_def relay_SetRequireAuth_def SetRetentionDays_def
    SetCloseAfterEOSE_def SetNIP36Policy_def\<close>)

theorem reachable_inv:
  assumes "reachable D rnd BS s (Some r)" "sinv s"
  shows "inv r"
  by (rule reachable_invariant [OF assms(1)])
    (use assms(2) sys_step_inv new_client(1) in \<open>auto simp: holds_def New_relay_def\<close>)

lemma reachable_P: "reachable D rnd BS s (Some r) \<Longrightarrow> sinv s \<Longrightarrow> P (conns r cid)"
  using reachable_inv [unfolded holds_def] by blast

end

section \<open>Three invariants\<close>

lemma send_let_in [simp]: "let_in (fst (send m c)) = let_in c"
  by (simp add: let_in_def)

lemma connected_frame:
  "subscriptions (connected bytes ip r) = []" "set (sent (connected bytes ip r)) \<subseteq> Collect quiet"
  by (auto simp: connected_def NewClient_def SetRateLimit_def SetRequireAuth_def SendAuth_def send_def Let_def)

lemma sent_send: "set (sent (fst (send m c))) \<subseteq> insert m (set (sent c))"
  by (auto simp: send_def)

lemma sent_frame [simp]:
  "sent (RemoveSubscription i c) = sent c" "sent (Authenticate pk c) = sent c" "sent (Close_client c) = sent c"
  "let_in (RemoveSubscription i c) = let_in c" "let_in (Authenticate pk c)" "let_in (Close_client c) = let_in c"
  "subscriptions (RemoveSubscription i c) = mdel i (subscriptions c)" "subscriptions (Close_client c) = subscriptions c"
  "let_in (NewClient ip)" "let_in (c\<lparr>subscriptions := m\<rparr>) = let_in c" "subscriptions (NewClient ip) = []"
  by (simp_all add: RemoveSubscription_def Authenticate_def Close_client_def let_in_def NewClient_def)

lemma mdel_Nil [simp]: "mdel i [] = []"
  by (simp add: mdel_def)

text \<open>Subscriptions are bounded whatever the store does.\<close>

interpretation bounded: system BS "\<lambda>_. True" "\<lambda>_. True" "\<lambda>_. True" D subs_ok for BS D
proof (unfold_locales, goal_cases)
  case (11 bytes ip r) then show ?case by (simp add: subs_ok_def connected_frame mlen_def)
next
  case (15 c i fs) then show ?case by (intro subs_ok_put)
qed (simp_all add: subs_ok_New subs_ok_Remove, simp_all add: subs_ok_def)

text \<open>A client that has not authenticated though it was asked to.\<close>

definition gated :: "client \<Rightarrow> bool" where
  "gated c \<longleftrightarrow> let_in c \<or> subscriptions c = [] \<and> set (sent c) \<subseteq> Collect quiet"

lemma gated_reply: "quiet m \<Longrightarrow> gated c \<Longrightarrow> gated (fst (send m c))"
  using sent_send [of m c] by (auto simp: gated_def)

interpretation gate: system BS "\<lambda>_. True" "\<lambda>_. True" "\<lambda>_. True" D gated for BS D
proof (unfold_locales, goal_cases)
  case (3 bytes ip r) then show ?case by (simp add: gated_def connected_frame)
next
  case (4 m c) then show ?case by (rule gated_reply)
qed (auto simp: gated_def)

text \<open>What a client has been sent.\<close>

definition only_shown :: "(event \<Rightarrow> bool) \<Rightarrow> client \<Rightarrow> bool" where
  "only_shown shown c \<longleftrightarrow> (\<forall>i e. MEvent i e \<in> set (sent c) \<longrightarrow> shown e)"

lemma only_shown_send: "only_shown shown c \<Longrightarrow> (\<And>i e. m = MEvent i e \<Longrightarrow> shown e) \<Longrightarrow> only_shown shown (fst (send m c))"
  using sent_send [of m c] unfolding only_shown_def by blast

lemma only_shown_new: "only_shown shown (NewClient ip)" "only_shown shown (connected bytes ip r)"
proof -
  show "only_shown shown (connected bytes ip r)"
    using connected_frame(2) [of bytes ip r] unfolding only_shown_def by fastforce
qed (simp add: only_shown_def NewClient_def)

context backend begin

lemma only_shown_system:
  assumes "\<And>e. Validate (cd_crypto D) e = None \<Longrightarrow> good e"
  shows "system BS good shown sinv D (only_shown shown)"
proof (unfold_locales, goal_cases)
  case (4 m c) then show ?case by (intro only_shown_send) auto
next
  case (5 c e i) then show ?case by (intro only_shown_send) auto
next
  case (6 c i n b) then show ?case by (intro only_shown_send) auto
qed (simp_all add: assms only_shown_new, simp_all add: only_shown_def)

end

section \<open>The in-memory store as a backend\<close>

definition mem_channels :: "choice \<Rightarrow> mem_store channel_if" where
  "mem_channels ch = \<lparr>SaveChannelEvent = mem_SaveChannelEvent, QueryChannelEvents = mem_QueryChannelEvents ch\<rparr>"

definition mem_backends :: "mem_store backends" where
  "mem_backends = {(mem_if ch, Some (mem_channels ch)) | ch. True}"

definition all_good :: "(event \<Rightarrow> bool) \<Rightarrow> (string, event) gomap \<Rightarrow> bool" where
  "all_good good m \<longleftrightarrow> (\<forall>e \<in> snd ` set m. good e)"

definition mem_all :: "(event \<Rightarrow> bool) \<Rightarrow> mem_store \<Rightarrow> bool" where
  "mem_all good s \<longleftrightarrow> all_good good (events s) \<and> (\<forall>m \<in> snd ` set (channelEvents s). all_good good m)"

lemma set_mput: "set (mput k v m) \<subseteq> insert (k, v) (set m)"
  by (induction m) (auto simp: mput_def)

lemma set_mdel: "set (mdel k m) \<subseteq> set m"
  by (induction m) (auto simp: mdel_def)

lemma mget_snd: "mget m k = Some v \<Longrightarrow> v \<in> snd ` set m"
  using mget_in by force

lemma snd_set_mput: "snd ` set (mput k v m) \<subseteq> insert v (snd ` set m)"
  using set_mput [of k v m] by auto

lemma snd_set_mdel: "snd ` set (mdel k m) \<subseteq> snd ` set m"
  using set_mdel [of k m] by auto

lemma all_good_mput: "all_good good m \<Longrightarrow> good e \<Longrightarrow> all_good good (mput k e m)"
  using snd_set_mput [of k e m] unfolding all_good_def by blast

lemma mem_all_New: "mem_all good mem_New"
  by (simp add: mem_all_def mem_New_def all_good_def)

lemma mem_all_deleted [simp]: "mem_all good (s\<lparr>deleted := d\<rparr>) = mem_all good s"
  by (simp add: mem_all_def)

lemma mem_all_channels: "mem_all good (s\<lparr>channelEvents := c\<rparr>) \<longleftrightarrow>
    all_good good (events s) \<and> (\<forall>m \<in> snd ` set c. all_good good m)"
  by (simp add: mem_all_def)

lemma mem_all_save: "mem_all good s \<Longrightarrow> good e \<Longrightarrow> mem_all good (fst (mem_SaveEvent ch s e))"
proof -
  assume a: "mem_all good s" "good e"
  then have "mem_all good (s\<lparr>deleted := d, events := mput (ID e) e (events s)\<rparr>)" for d
    by (simp add: mem_all_def all_good_mput)
  then show ?thesis using a(1) by (simp add: mem_SaveEvent_def Let_def case_prod_beta)
qed

lemma mem_all_save_channel: "mem_all good s \<Longrightarrow> good e \<Longrightarrow> mem_all good (fst (mem_SaveChannelEvent s e))"
proof -
  assume a: "mem_all good s" "good e"
  let ?m = "case mget (channelEvents s) (mem_getChannelID e) of None \<Rightarrow> [] | Some m \<Rightarrow> m"
  have "all_good good ?m"
  proof (cases "mget (channelEvents s) (mem_getChannelID e)")
    case (Some m)
    have "all_good good m" using a(1) mget_snd [OF Some] unfolding mem_all_def by blast
    with Some show ?thesis by simp
  qed (simp add: all_good_def)
  then have m: "all_good good (mput (ID e) e ?m)"
    using a(2) by (rule all_good_mput)
  have "mem_all good (s\<lparr>channelEvents := mput k (mput (ID e) e ?m) (channelEvents s)\<rparr>)" for k
  proof -
    have "all_good good x" if "x \<in> snd ` set (mput k (mput (ID e) e ?m) (channelEvents s))" for x
      using subsetD [OF snd_set_mput that] m bspec [OF conjunct2 [OF a(1) [unfolded mem_all_def]]] by (metis insertE)
    then show ?thesis using a(1) unfolding mem_all_channels mem_all_def by simp
  qed
  then show ?thesis using a(1) by (simp add: mem_SaveChannelEvent_def Let_def)
qed

lemma mem_all_delete_channel: "mem_all good s \<Longrightarrow> mem_all good (fst (mem_DeleteChannelEvents s c))"
proof -
  assume a: "mem_all good s"
  have "all_good good x" if "x \<in> snd ` set (mdel c (channelEvents s))" for x
    using bspec [OF conjunct2 [OF a [unfolded mem_all_def]] subsetD [OF snd_set_mdel that]] .
  then have "mem_all good (s\<lparr>channelEvents := mdel c (channelEvents s)\<rparr>)"
    using a unfolding mem_all_channels mem_all_def by simp
  then show ?thesis using a by (simp add: mem_DeleteChannelEvents_def split: option.split)
qed

lemma query_pass_set:
  "set (fst (query_pass f del es results seen)) \<subseteq> set results \<union> snd ` set es"
  by (induction f del es results seen rule: query_pass.induct) auto

lemma query_filters_set:
  "set (fst (query_filters ch n s fs results seen)) \<subseteq> set results \<union> snd ` set (events s)"
proof (induction fs arbitrary: n results seen)
  case (Cons f fs)
  let ?p = "query_pass f (deleted s) (range_order (mc_range ch n) (events s)) results seen"
  have "set (fst ?p) \<subseteq> set results \<union> snd ` set (events s)"
    using query_pass_set [of f "deleted s" "range_order (mc_range ch n) (events s)" results seen] by simp
  then show ?case
    using Cons.IH [of "Suc n" "fst ?p" "snd ?p"] by (auto simp: case_prod_beta Let_def)
qed simp

lemma mem_QueryEvents_set: "mem_QueryEvents ch s fs = Ok es \<Longrightarrow> set es \<subseteq> snd ` set (events s)"
proof -
  assume q: "mem_QueryEvents ch s fs = Ok es"
  have "apply_limit fs xs = Ok ys \<Longrightarrow> set ys \<subseteq> set xs" for xs ys :: "event list"
    using set_take_subset by (force simp: apply_limit_def split: list.splits option.splits if_splits dest: in_set_takeD)
  from this [OF q [unfolded mem_QueryEvents_def]] show ?thesis
    using query_filters_set [of ch 0 s fs "[]" "[]"] by (simp add: sort_newest_facts)
qed

lemma mem_QueryChannelEvents_set:
  assumes "mem_QueryChannelEvents ch s c since until mx = Inr es" "e \<in> set es"
  shows "\<exists>m \<in> snd ` set (channelEvents s). e \<in> snd ` set m"
proof (cases "mget (channelEvents s) c")
  case None
  then show ?thesis using assms by (simp add: mem_QueryChannelEvents_def)
next
  case (Some m)
  have "set (positive_limit mx xs) \<subseteq> set xs" for xs :: "event list"
    by (auto simp: positive_limit_def dest: in_set_takeD split: option.split)
  then have "e \<in> set (sort_newest (mc_ties ch) (filter (in_window since until) (map snd (range_order (mc_range ch 0) m))))"
    using assms Some by (auto simp: mem_QueryChannelEvents_def)
  then have "e \<in> snd ` set m" by (auto simp: sort_newest_facts)
  then show ?thesis using mget_snd [OF Some] by blast
qed

lemma mem_backendsE:
  assumes "(S, CS) \<in> mem_backends"
  obtains ch where "S = mem_if ch" "CS = Some (mem_channels ch)"
  using assms by (auto simp: mem_backends_def)

interpretation mem_valid: backend mem_backends good good "mem_all good" for good
proof (unfold_locales, goal_cases)
  case (8 S CS s fs es e)
  obtain ch where "S = mem_if ch" using 8(1) by (rule mem_backendsE)
  then have "mem_QueryEvents ch s fs = Ok es" using 8(3) by (simp add: mem_if_def)
  from mem_QueryEvents_set [OF this] show ?case using 8(2,4) unfolding mem_all_def all_good_def by blast
next
  case (9 S cs s c since until mx es e)
  obtain ch where "cs = mem_channels ch" using 9(1) by (rule mem_backendsE) simp
  then have "mem_QueryChannelEvents ch s c since until mx = Inr es" using 9(3) by (simp add: mem_channels_def)
  from mem_QueryChannelEvents_set [OF this 9(4)] show ?case using 9(2) unfolding mem_all_def all_good_def by blast
qed (auto elim!: mem_backendsE simp: mem_if_def mem_channels_def mem_all_save mem_all_save_channel mem_all_delete_channel
    mem_DeleteEvent_def mem_DeleteAllEventsByPubKey_def mem_DeleteEventsOlderThan_def case_prod_beta Let_def split: option.split)

interpretation mem_sent: system mem_backends "\<lambda>e. Validate (cd_crypto D) e = None" "\<lambda>e. Validate (cd_crypto D) e = None"
    "mem_all (\<lambda>e. Validate (cd_crypto D) e = None)" D "only_shown (\<lambda>e. Validate (cd_crypto D) e = None)" for D
  by (rule mem_valid.only_shown_system)

section \<open>What the relay promises\<close>

text \<open>C9: No client ever has more than 20 subscriptions, whatever messages it sends, whatever the store
  answers and however messages, deliveries and connections interleave.\<close>

theorem subscriptions_bounded:
  assumes "reachable D rnd BS s (Some r)"
  shows "mlen (subscriptions (conns r cid)) \<le> 20"
  using bounded.reachable_P [OF assms] by (simp add: subs_ok_def MaxSubscriptionsPerClient_def)

text \<open>C7: A client of a relay that asks for authentication is sent no event and no count and has no
  subscription until it has authenticated: in every reachable state, a client that was asked to
  authenticate and has not has received only AUTH, OK, EOSE, CLOSED and NOTICE messages.\<close>

theorem unauthenticated_get_nothing:
  assumes "reachable D rnd BS s (Some r)"
    and "requireAuth (conns r cid)" "\<not> authenticated (conns r cid)"
  shows "subscriptions (conns r cid) = [] \<and> (\<nexists>m. m \<in> set (sent (conns r cid)) \<and> \<not> quiet m)"
  using gate.reachable_P [OF assms(1)] assms(2,3) by (auto simp: gated_def let_in_def)

text \<open>C1: Over an in-memory store that starts with validated events (none, in the program), every event the
  relay ever sends to a client, stored or live, has passed validation: its ID is the hash of its
  content and its signature verifies.\<close>

theorem sent_events_validated:
  assumes "mem_all (\<lambda>e. Validate (cd_crypto D) e = None) s" "reachable D rnd mem_backends s (Some r)"
    and "MEvent sub e \<in> set (sent (conns r cid))"
  shows "Validate (cd_crypto D) e = None"
  using mem_sent.reachable_P [OF assms(2,1)] assms(3) unfolding only_shown_def by blast

section \<open>Authentication\<close>

definition auth_view :: "client \<Rightarrow> bool \<times> string \<times> string" where
  "auth_view c = (authenticated c, authChallenge c, authPubKey c)"

lemma auth_view_frame [simp]:
  "auth_view (fst (send m c)) = auth_view c" "auth_view (RemoveSubscription i c) = auth_view c"
  "auth_view (c\<lparr>subscriptions := x\<rparr>) = auth_view c"
  by (simp_all add: auth_view_def RemoveSubscription_def)

lemma auth_view_send_loop [simp]: "auth_view (send_loop now mx i es n c) = auth_view c"
  by (induction es arbitrary: n c) (simp_all add: SendEvent_def)

text \<open>\<open>only cid r w\<close>: from \<open>r\<close> to \<open>w\<close> no client but \<open>cid\<close> has changed.\<close>

definition only :: "nat \<Rightarrow> 's relay \<Rightarrow> 's relay \<Rightarrow> bool" where
  "only cid r w \<longleftrightarrow> (\<forall>j. j \<noteq> cid \<longrightarrow> conns w j = conns r j)"

lemma only_on_conn [simp]: "only cid r (on_conn cid f w) = only cid r w"
  by (simp add: only_def conns_on_conn)

lemma only_frame [simp]:
  "only cid r (w\<lparr>limits := l\<rparr>) = only cid r w" "only cid r (w\<lparr>store := s\<rparr>) = only cid r w"
  "only cid r (w\<lparr>totalEvents := a, packetCount := b\<rparr>) = only cid r w"
  "only cid r (w\<lparr>totalRequests := a, packetCount := b\<rparr>) = only cid r w"
  "only cid r (spread x e w) = only cid r w"
  by (simp_all add: only_def spread_def)

lemma conns_spread [simp]: "conns (spread b e r) = conns r"
  by (simp add: spread_def)

definition authorised :: "('pk, 'sg) crypto \<Rightarrow> string \<Rightarrow> client \<Rightarrow> bool" where
  "authorised C ch c \<longleftrightarrow> authChallenge c = ch \<and> (authenticated c \<longrightarrow>
     (\<exists>e. Validate C e = None \<and> Kind e = 22242 \<and> PubKey e = authPubKey c \<and> (ch = [] \<or> Content e = ch)))"

lemma authorised_view: "auth_view c = auth_view d \<Longrightarrow> authorised C ch c = authorised C ch d"
  by (simp add: authorised_def auth_view_def)

lemma step_form_auth:
  assumes "step_form U S CS cid e r r'"
  shows "auth_view (conns r' cid) = auth_view (conns r cid)" "only cid v r' = only cid v r"
  using assms by (auto simp: step_form_def replies_def SendOK_def)

lemma HandleEvent_auth:
  assumes "only cid v r" "authorised (en_crypto E) ch (conns r cid)" "Validate (en_crypto E) e = None"
  shows "only cid v (fst (HandleEvent E S CS cid e r)) \<and> authorised (en_crypto E) ch (conns (fst (HandleEvent E S CS cid e r)) cid)"
proof -
  let ?r = "r\<lparr>totalEvents := totalEvents r + 1, packetCount := packetCount r + 1\<rparr>"
  have o: "only cid v (ok cid i b m ?r) \<and> authorised (en_crypto E) ch (conns (ok cid i b m ?r) cid)" for i b m
    using assms(1,2) authorised_view [of "fst (SendOK i b m (conns r cid))" "conns r cid" "en_crypto E" ch]
    by (simp add: SendOK_def)
  have p: "only cid v (fst (process_event E S CS cid e ?r)) \<and>
      authorised (en_crypto E) ch (conns (fst (process_event E S CS cid e ?r)) cid)"
    using step_form_auth(1) [OF process_event_form [of E S CS cid e ?r]]
      step_form_auth(2) [OF process_event_form [of E S CS cid e ?r], of v] assms(1,2)
      authorised_view [of "conns (fst (process_event E S CS cid e ?r)) cid" "conns r cid" "en_crypto E" ch]
    by simp
  have a: "only cid v (ok cid i b m (on_conn cid (Authenticate (PubKey e)) ?r)) \<and>
      authorised (en_crypto E) ch (conns (ok cid i b m (on_conn cid (Authenticate (PubKey e)) ?r)) cid)"
    if "Kind e = 22242" "authChallenge (conns r cid) = [] \<or> Content e = authChallenge (conns r cid)" for i b m
    using assms that authorised_view [of "fst (SendOK i b m (Authenticate (PubKey e) (conns r cid)))" "Authenticate (PubKey e) (conns r cid)" "en_crypto E" ch]
    by (auto simp: SendOK_def authorised_def Authenticate_def)
  have k: "Kind e = 22242" if "IsAuthEvent e" using that by (simp add: IsAuthEvent_def)
  show ?thesis
    unfolding HandleEvent_def Let_def authenticate_event_def
    using o p a k by (auto simp del: append.simps on_conn_on_conn simp: case_prod_beta split: option.split)
qed

lemma HandleReq_auth:
  "auth_view (conns (fst (HandleReq E S CS cid i fs r)) cid) = auth_view (conns r cid)"
  "only cid v (fst (HandleReq E S CS cid i fs r)) = only cid v r"
  by (simp_all add: HandleReq_def Let_def SendEOSE_def split: outcome.split)

lemma HandleCount_auth:
  "auth_view (conns (fst (HandleCount S cid i fs r)) cid) = auth_view (conns r cid)"
  "only cid v (fst (HandleCount S cid i fs r)) = only cid v r"
  by (simp_all add: HandleCount_def send_defs del: append.simps split: sum.split)

lemma kept_authorised:
  "kept (en_codec E) (relay_handler E S CS cid) (\<lambda>w. only cid v w \<and> authorised (en_crypto E) ch (conns w cid))"
  (is "kept _ ?H ?I")
proof -
  have view: "?I w' = ?I w" if "only cid v w' = only cid v w" "auth_view (conns w' cid) = auth_view (conns w cid)" for w w'
    using that authorised_view by metis
  have i: "?I (on_conn cid (\<lambda>c. fst (send m c)) w) = ?I w" "?I (w\<lparr>limits := x\<rparr>) = ?I w"
    "?I (fst (HandleClose cid i w)) = ?I w" "?I (fst (HandleCount S cid i fs w)) = ?I w"
    "?I (fst (HandleReq E S CS cid i fs (on_conn cid (\<lambda>c. c\<lparr>subscriptions := mput i fs (subscriptions c)\<rparr>) w))) = ?I w"
    for m w x i fs
    by (rule view; simp add: HandleClose_def HandleCount_auth HandleReq_auth)+
  show ?thesis
    unfolding kept_def relay_handler_def handler.simps case_prod_beta fst_conv i
    using HandleEvent_auth by (simp, blast)
qed

text \<open>C8: A message authenticates nobody but its sender, changes no other client, and authenticates the
  sender only for an \<open>AUTH\<close> event that passed validation, signed by the key the client is then known
  by, whose content is the challenge the client was sent, if it was sent one.\<close>

theorem authentication_sound:
  assumes "\<not> authenticated (conns r cid)" "client_message E S CS cid m r = (r', res)"
  shows "(\<forall>j. j \<noteq> cid \<longrightarrow> conns r' j = conns r j) \<and> (authenticated (conns r' cid) \<longrightarrow>
    (\<exists>e. Validate (en_crypto E) e = None \<and> Kind e = 22242 \<and> PubKey e = authPubKey (conns r' cid) \<and>
      (authChallenge (conns r cid) = [] \<or> Content e = authChallenge (conns r cid))))"
proof -
  have "only cid r r \<and> authorised (en_crypto E) (authChallenge (conns r cid)) (conns r cid)"
    using assms(1) by (simp add: only_def authorised_def)
  from read_one_kept [OF kept_authorised this, of S CS m] show ?thesis
    using assms(2) by (simp add: client_message_def only_def authorised_def)
qed

section \<open>The gate\<close>

lemma relay_handler_sel [simp]:
  "the_client (relay_handler E S CS cid) r = conns r cid"
  "on_client (relay_handler E S CS cid) f r = on_conn cid f r"
  "do_event (relay_handler E S CS cid) e r = HandleEvent E S CS cid e r"
  "do_req (relay_handler E S CS cid) i fs r = HandleReq E S CS cid i fs r"
  "do_close (relay_handler E S CS cid) i r = HandleClose cid i r"
  "do_count (relay_handler E S CS cid) i fs r = HandleCount S cid i fs r"
  "rateLimit (relay_handler E S CS cid) ip pk r =
    (case checkRate (en_rnd E) (en_instants E) ip pk (limits r) of (l, m) \<Rightarrow> (r\<lparr>limits := l\<rparr>, m))"
  by (simp_all add: relay_handler_def)

definition untouched :: "'s relay \<Rightarrow> 's relay \<Rightarrow> bool" where
  "untouched r w \<longleftrightarrow> store w = store r \<and> pending w = pending r"

lemma untouched_frame [simp]:
  "untouched r r" "untouched r (on_conn cid f w) = untouched r w" "untouched r (w\<lparr>limits := l\<rparr>) = untouched r w"
  "untouched r (w\<lparr>totalEvents := a, packetCount := b\<rparr>) = untouched r w"
  by (simp_all add: untouched_def)

lemma HandleEvent_gate:
  assumes "relay_requireAuth r" "\<not> authenticated (conns r cid)" "untouched r0 r"
  shows "untouched r0 (fst (HandleEvent E S CS cid e r)) \<and> snd (HandleEvent E S CS cid e r) \<noteq> Panic"
proof (cases "IsAuthEvent e")
  case True
  then show ?thesis
    using assms(3) by (simp add: HandleEvent_def authenticate_event_def Let_def del: append.simps split: option.split)
next
  case False
  then show ?thesis using assms by (simp add: HandleEvent_def Let_def)
qed

text \<open>While the relay requires authentication, no message of a client that has not authenticated
  changes the store, puts an event in the way to another client, or stops the relay.\<close>

theorem auth_gate_protects:
  assumes "relay_requireAuth r" "requireAuth (conns r cid)" "\<not> authenticated (conns r cid)"
    and "client_message E S CS cid m r = (r', res)"
  shows "store r' = store r \<and> pending r' = pending r \<and> res = Ok ()"
proof -
  let ?H = "relay_handler E S CS cid" and ?D = "en_codec E"
  have event: "untouched r (fst (handleEventMessage ?D ?H raw w)) \<and> snd (handleEventMessage ?D ?H raw w) \<noteq> Panic"
    if "untouched r w" "relay_requireAuth w" "\<not> authenticated (conns w cid)" for raw w
    using that HandleEvent_gate [OF that(2,3,1), of E S CS]
    by (auto simp: handleEventMessage_def simp del: append.simps split: option.split prod.split outcome.split) (metis fst_conv snd_conv)+
  have close: "untouched r (fst (handleCloseMessage ?D ?H raw w)) \<and> snd (handleCloseMessage ?D ?H raw w) \<noteq> Panic"
    if "untouched r w" for raw w
    using that by (simp add: handleCloseMessage_def HandleClose_def split: option.split)
  have typed: "untouched r (fst (typed_message ?D ?H t raw r)) \<and> snd (typed_message ?D ?H t raw r) \<noteq> Panic" for t raw
  proof (cases "t \<noteq> ''CLOSE'' \<and> \<not> auth_event ?D t raw")
    case True
    then show ?thesis using assms(2,3) by (simp add: typed_message_def Let_def)
  next
    case False
    then have t: "t = ''CLOSE'' \<or> t = ''EVENT''" by (auto simp: auth_event_def)
    then show ?thesis
      using False assms(1-3) event close
      by (auto simp: typed_message_def Let_def dispatch_def case_prod_beta)
  qed
  have "untouched r (fst (handleMessage ?D ?H m r)) \<and> snd (handleMessage ?D ?H m r) \<noteq> Panic"
    using handleMessage_cases [of ?D ?H m r] typed by fastforce
  then have "untouched r r' \<and> res = Ok ()"
    using assms(4) unfolding client_message_def read_one_def
    by (auto simp: SendNotice_def split: prod.splits outcome.splits)
  then show ?thesis by (simp add: untouched_def)
qed

section \<open>REQ\<close>

lemma sent_open: "\<not> client.closed c \<Longrightarrow> sent (fst (send m c)) = sent c @ [m]"
  by (simp add: send_def)

lemma send_loop_sent:
  "\<not> client.closed c \<Longrightarrow> sent (send_loop now mx i es n c) =
    sent c @ map (MEvent i) (take (nat (mx - n)) (filter (\<lambda>e. \<not> ShouldFilterEvent now e) es))"
proof (induction es arbitrary: n c)
  case (Cons e es)
  have "nat (mx - n) = Suc (nat (mx - (n + 1)))" if "\<not> mx \<le> n" using that by simp
  moreover have "\<not> client.closed (fst (SendEvent i e c))" using Cons.prems by (simp add: SendEvent_def)
  ultimately show ?case
    using Cons by (simp add: SendEvent_def sent_open)
qed simp

lemma send_loop_closed: "client.closed (send_loop now mx i es n c) = client.closed c"
  by (induction es arbitrary: n c) (simp_all add: SendEvent_def)

text \<open>A REQ is answered by the events the store returned, in its order, without the expired ones and
  at most \<open>maxEventsPerREQ\<close> of them, and then exactly one EOSE; nothing of the store changes.\<close>

theorem HandleReq_answer:
  assumes "\<not> client.closed (conns r cid)" "req_events E S CS (store r) fs = Ok es"
    and "HandleReq E S CS cid i fs r = (r', res)"
  shows "sent (conns r' cid) = sent (conns r cid) @
      map (MEvent i) (take (nat (maxEventsPerREQ r)) (filter (\<lambda>e. \<not> ShouldFilterEvent (en_clock E) e) es)) @ [MEOSE i]
    \<and> store r' = store r \<and> res = Ok ()"
  using assms by (auto simp: HandleReq_def Let_def SendEOSE_def sent_open send_loop_sent send_loop_closed split: if_splits)

section \<open>Deliveries\<close>

lemma delivery_exact:
  assumes "\<not> client.closed c"
  shows "if \<not> ShouldFilterEvent now e \<and>
       (Kind e = 4 \<longrightarrow> (\<exists>pk. nip44_GetRecipientPubKey e = Some pk \<and> HasSubscriptionToPubKey c pk)) \<and>
       (\<exists>i fs f. (i, fs) \<in> set (subscriptions c) \<and> f \<in> set fs \<and> Matches e f)
    then \<exists>i fs f. (i, fs) \<in> set (subscriptions c) \<and> f \<in> set fs \<and> Matches e f \<and>
      deliver now rank e c = c\<lparr>sent := sent c @ [MEvent i e]\<rparr>
    else deliver now rank e c = c"
proof -
  let ?subs = "range_order rank (subscriptions c)"
  have d: "deliver now rank e c = (if \<not> ShouldFilterEvent now e \<and>
       (Kind e = 4 \<longrightarrow> (\<exists>pk. nip44_GetRecipientPubKey e = Some pk \<and> HasSubscriptionToPubKey c pk))
      then deliver_subs e ?subs c else c)"
    by (auto simp: deliver_def GetSubscriptions_def nip44_IsEncryptedDirectMessage_def split: option.split)
  have s: "fst (SendEvent i e c) = c\<lparr>sent := sent c @ [MEvent i e]\<rparr>" for i
    using assms by (simp add: SendEvent_def send_def)
  show ?thesis
    unfolding d using deliver_subs_cases [of e ?subs c] by (auto simp: s list_ex_iff)
qed


section \<open>A message that is let through\<close>

text \<open>The limiter's state after a message is admitted, \<open>None\<close> when it is stopped at the gate or the limit.\<close>

definition let_through :: "('pk, 'sg) env \<Rightarrow> nat \<Rightarrow> 's relay \<Rightarrow> limits option" where
  "let_through E cid r =
    (let c = conns r cid in
     if \<not> let_in c then None
     else if \<not> rateLimited c then Some (limits r)
     else case checkRate (en_rnd E) (en_instants E) (realIP c) (authPubKey c) (limits r) of
       (l, reason) \<Rightarrow> if reason = [] then Some l else None)"

lemma typed_message_through:
  assumes "let_through E cid r = Some l" "t \<noteq> ''CLOSE''"
  shows "typed_message D (relay_handler E S CS cid) t raw r =
    dispatch D (relay_handler E S CS cid) t raw (r\<lparr>limits := l\<rparr>)"
proof -
  have "let_in (conns r cid)" using assms(1) by (simp add: let_through_def Let_def split: if_splits)
  then show ?thesis
    using assms by (auto simp: typed_message_def let_through_def let_in_def Let_def split: if_splits prod.splits)
qed

lemma client_message_event:
  assumes "let_through E cid r = Some l" "as_event (en_unicode E) j = Some e" "Validate (en_crypto E) e = None"
  shows "client_message E S CS cid (Inr (JArray [JString ''EVENT'', j])) r =
    (case HandleEvent E S CS cid e (r\<lparr>limits := l\<rparr>) of
       (r', Err err) \<Rightarrow> (ok cid (ID e) False (''error: '' @ Error err) r', Ok ())
     | (r', Panic) \<Rightarrow> (r', Panic)
     | (r', Ok _) \<Rightarrow> (ok cid (ID e) True [] r', Ok ()))"
proof -
  have "client_message E S CS cid (Inr (JArray [JString ''EVENT'', j])) r =
      read_one (en_codec E) (relay_handler E S CS cid) (Inr (JArray [JString ''EVENT'', j])) r"
    by (simp add: client_message_def)
  also have "handleMessage (en_codec E) (relay_handler E S CS cid) (Inr (JArray [JString ''EVENT'', j])) r =
      handleEventMessage (en_codec E) (relay_handler E S CS cid) [JString ''EVENT'', j] (r\<lparr>limits := l\<rparr>)"
    using typed_message_through [OF assms(1), of "''EVENT''"] by (simp add: handleMessage_def dispatch_def)
  then show ?thesis
    using assms(2,3) unfolding client_message_def read_one_def
    by (auto simp: handleEventMessage_def simp del: append.simps split: outcome.split prod.split)
qed

lemma client_message_req:
  assumes "let_through E cid r = Some l" "UnmarshalJSON (en_unicode E) j = Some f"
    and "\<not> (mget (subscriptions (conns r cid)) i = None \<and> mlen (subscriptions (conns r cid)) \<ge> MaxSubscriptionsPerClient)"
  shows "client_message E S CS cid (Inr (JArray [JString ''REQ'', JString i, j])) r =
    (case HandleReq E S CS cid i [f] (on_conn cid (\<lambda>c. c\<lparr>subscriptions := mput i [f] (subscriptions c)\<rparr>) (r\<lparr>limits := l\<rparr>)) of
       (r', Err err) \<Rightarrow> (on_conn cid (\<lambda>c. fst (SendNotice (''error: '' @ Error err) c)) r', Ok ())
     | r' \<Rightarrow> r')"
proof -
  have p: "parse_filters (en_codec E) [j] = Inr [f]" using assms(2) by (simp add: parse_filters_def)
  have "handleMessage (en_codec E) (relay_handler E S CS cid) (Inr (JArray [JString ''REQ'', JString i, j])) r =
      handleReqMessage (en_codec E) (relay_handler E S CS cid) [JString ''REQ'', JString i, j] (r\<lparr>limits := l\<rparr>)"
    using typed_message_through [OF assms(1), of "''REQ''"] by (simp add: handleMessage_def dispatch_def)
  also have "\<dots> = HandleReq E S CS cid i [f]
      (on_conn cid (\<lambda>c. c\<lparr>subscriptions := mput i [f] (subscriptions c)\<rparr>) (r\<lparr>limits := l\<rparr>))"
    using assms(3) p by (auto simp: handleReqMessage_def Let_def)
  finally show ?thesis
    by (simp add: client_message_def read_one_def del: append.simps split: prod.split outcome.split)
qed

section \<open>Accepting an event\<close>

text \<open>The checks an event passes before it is saved.\<close>

definition acceptable :: "('pk, 'sg) env \<Rightarrow> nat \<Rightarrow> event \<Rightarrow> 's relay \<Rightarrow> bool" where
  "acceptable E cid e r \<longleftrightarrow> \<not> (relay_requireAuth r \<and> \<not> authenticated (conns r cid)) \<and>
     nip36_reason (en_unicode E) e r = [] \<and> validate_kind E e = None \<and> \<not> ShouldRejectEvent (en_clock E) e \<and>
     \<not> replaceable_kind (Kind e) \<and> Kind e \<notin> {5, 62, 22242} \<and> \<not> (20000 \<le> Kind e \<and> Kind e < 30000)"

lemma acceptable_not_auth: "acceptable E cid e r \<Longrightarrow> \<not> IsAuthEvent e"
  by (simp add: acceptable_def IsAuthEvent_def)

lemma nip36_reason_frame [simp]:
  "nip36_reason U e (r\<lparr>limits := l\<rparr>) = nip36_reason U e r"
  "nip36_reason U e (r\<lparr>totalEvents := a, packetCount := b\<rparr>) = nip36_reason U e r"
  by (simp_all add: nip36_reason_def)

lemma mem_channels_sel [simp]:
  "SaveChannelEvent (mem_channels ch) = mem_SaveChannelEvent"
  "QueryChannelEvents (mem_channels ch) = mem_QueryChannelEvents ch"
  by (simp_all add: mem_channels_def)

lemma mem_GetEvent_saved_channel:
  "mem_GetEvent (saved_channel (Some (mem_channels ch)) e s) i = mem_GetEvent s i"
  by (simp add: saved_channel_def mem_SaveChannelEvent_def mem_GetEvent_def Let_def)

lemma acceptable_process:
  assumes "mem_inv (store r)" "acceptable E cid e r" "mem_GetEvent (store r) (ID e) = Inl ErrNotFound"
  obtains s where "process_event E (mem_if ch) (Some (mem_channels ch)) cid e r =
      (broadcastEvent e (ok cid (ID e) True [] (r\<lparr>store := s\<rparr>)), Ok ())"
    and "mem_GetEvent s (ID e) = Inr e"
proof -
  let ?s = "fst (mem_SaveEvent ch (store r) e)"
  have t: "\<not> mem_tomb (store r) (ID e)"
    using assms(3) by (auto simp: mem_GetEvent_def mem_tomb_def)
  have k: "\<not> replaceable_kind (Kind e)" using assms(2) by (simp add: acceptable_def)
  have s: "snd (mem_SaveEvent ch (store r) e) = None" "mem_GetEvent ?s (ID e) = Inr e"
    using mem.save_plain [OF assms(1) t k, of ch] mem.save_get [OF assms(1) t k, of ch] by simp_all
  have "process_event E (mem_if ch) (Some (mem_channels ch)) cid e r =
      (if IsGiftWrap (convertLocalEventToNostrEvent e)
       then (broadcastEvent e (ok cid (ID e) True [] (r\<lparr>store := ?s\<rparr>)), Ok ())
       else (broadcastEvent e (ok cid (ID e) True [] (r\<lparr>store := saved_channel (Some (mem_channels ch)) e ?s\<rparr>)), Ok ()))"
    using assms(2,3) s(1)
    by (auto simp: process_event_def acceptable_def IsRequestToVanishEvent_def save_event_form accept_event_def
      save_channel_event_store)
  then show ?thesis
    using that [of ?s] that [of "saved_channel (Some (mem_channels ch)) e ?s"] s(2)
    by (simp add: mem_GetEvent_saved_channel split: if_splits)
qed

text \<open>The relay after an accepted event.\<close>

lemma acceptance:
  assumes "let_through E cid r = Some l" "as_event (en_unicode E) j = Some e" "Validate (en_crypto E) e = None"
    and "acceptable E cid e r" "mem_inv (store r)" "mem_GetEvent (store r) (ID e) = Inl ErrNotFound"
  obtains s where "client_message E (mem_if ch) (Some (mem_channels ch)) cid (Inr (JArray [JString ''EVENT'', j])) r =
      (ok cid (ID e) True [] (broadcastEvent e (ok cid (ID e) True []
        (r\<lparr>limits := l, totalEvents := totalEvents r + 1, packetCount := packetCount r + 1, store := s\<rparr>))), Ok ())"
    "mem_GetEvent s (ID e) = Inr e"
proof -
  let ?r = "r\<lparr>limits := l, totalEvents := totalEvents r + 1, packetCount := packetCount r + 1\<rparr>"
  have a: "acceptable E cid e ?r" using assms(4) by (simp add: acceptable_def nip36_reason_def)
  obtain s where s: "process_event E (mem_if ch) (Some (mem_channels ch)) cid e ?r =
      (broadcastEvent e (ok cid (ID e) True [] (?r\<lparr>store := s\<rparr>)), Ok ())" "mem_GetEvent s (ID e) = Inr e"
    using acceptable_process [OF _ a, of ch] assms(5,6) by auto
  have "HandleEvent E (mem_if ch) (Some (mem_channels ch)) cid e (r\<lparr>limits := l\<rparr>) =
      process_event E (mem_if ch) (Some (mem_channels ch)) cid e ?r"
    using acceptable_not_auth [OF a] a by (auto simp: HandleEvent_def Let_def acceptable_def nip36_reason_def)
  then show thesis
    using s by (intro that [OF _ s(2)]) (simp add: client_message_event [OF assms(1-3)])
qed

text \<open>C3: An EVENT message that is let through, with a validated new event of a kind that is stored as it is
  and that none of the relay's checks refuses, ends with the event readable from the in-memory store
  and on its way to every registered client. It is acknowledged twice: the handler sends OK and so does
  the message loop.\<close>

theorem accepted_event:
  assumes "let_through E cid r = Some l" "as_event (en_unicode E) j = Some e" "Validate (en_crypto E) e = None"
    and "acceptable E cid e r" "mem_inv (store r)" "mem_GetEvent (store r) (ID e) = Inl ErrNotFound"
    and "\<not> client.closed (conns r cid)"
    and "client_message E (mem_if ch) (Some (mem_channels ch)) cid (Inr (JArray [JString ''EVENT'', j])) r = (r', res)"
  shows "mem_GetEvent (store r') (ID e) = Inr e
    \<and> pending r' = pending r @ map (\<lambda>(c, _). (c, e)) (clients r)
    \<and> sent (conns r' cid) = sent (conns r cid) @ [MOK (ID e) True [], MOK (ID e) True []] \<and> res = Ok ()"
proof -
  obtain s where "client_message E (mem_if ch) (Some (mem_channels ch)) cid (Inr (JArray [JString ''EVENT'', j])) r =
      (ok cid (ID e) True [] (broadcastEvent e (ok cid (ID e) True []
        (r\<lparr>limits := l, totalEvents := totalEvents r + 1, packetCount := packetCount r + 1, store := s\<rparr>))), Ok ())"
    "mem_GetEvent s (ID e) = Inr e"
    by (rule acceptance [OF assms(1-6)])
  then show ?thesis using assms(7,8) by (auto simp: SendOK_def sent_open)
qed

text \<open>An event refused by the content-warning policy is answered by OK false and then, because the
  handler reports no error, by OK true; it is neither stored nor broadcast.\<close>

theorem nip36_refusal_acknowledged:
  assumes "let_through E cid r = Some l" "as_event (en_unicode E) j = Some e" "Validate (en_crypto E) e = None"
    and "Kind e \<noteq> 22242" "\<not> relay_requireAuth r" "nip36_reason (en_unicode E) e r \<noteq> []"
    and "\<not> client.closed (conns r cid)"
    and "client_message E S CS cid (Inr (JArray [JString ''EVENT'', j])) r = (r', res)"
  shows "sent (conns r' cid) = sent (conns r cid) @
      [MOK (ID e) False (nip36_reason (en_unicode E) e r), MOK (ID e) True []]
    \<and> store r' = store r \<and> pending r' = pending r"
proof -
  have "HandleEvent E S CS cid e (r\<lparr>limits := l\<rparr>) =
      (ok cid (ID e) False (nip36_reason (en_unicode E) e r)
        (r\<lparr>limits := l, totalEvents := totalEvents r + 1, packetCount := packetCount r + 1\<rparr>), Ok ())"
    using assms(4-6) by (simp add: HandleEvent_def Let_def IsAuthEvent_def nip36_reason_def)
  then show ?thesis
    using assms(7,8) by (auto simp: client_message_event [OF assms(1-3)] SendOK_def sent_open)
qed

section \<open>A negative limit\<close>

text \<open>A REQ whose filter has a negative limit, from any client that may subscribe, stops the whole
  relay on the in-memory store: the slice expression \<open>results[:limit]\<close> panics and nothing recovers.\<close>

theorem negative_limit_crashes:
  assumes "let_through E cid r = Some l" "cid \<in> fst ` set (clients r)" "\<not> client.closed (conns r cid)"
    and "UnmarshalJSON (en_unicode E) j = Some f" "Limit f = Some n" "n < 0"
    and "mget (FTags f) ''channel_id'' = None"
    and "mlen (subscriptions (conns r cid)) < 20"
  shows "sys_step (en_codec E) (en_rnd E) mem_backends r None"
proof -
  have room: "\<not> (mget (subscriptions (conns r cid)) ''s'' = None \<and>
      mlen (subscriptions (conns r cid)) \<ge> MaxSubscriptionsPerClient)"
    using assms(8) by (simp add: MaxSubscriptionsPerClient_def)
  have q: "mem_QueryEvents any_choice s [f] = Panic" for s
    using assms(5,6) by (simp add: mem_QueryEvents_def apply_limit_def)
  then have "req_events E (mem_if any_choice) (Some (mem_channels any_choice)) s [f] = Panic" for s
    using assms(7) by (simp add: req_events_def SearchEvents_def hasSearchField_def)
  then have p: "snd (HandleReq E (mem_if any_choice) (Some (mem_channels any_choice)) cid i [f] w) = Panic" for i w
    by (simp add: HandleReq_def Let_def)
  let ?h = "HandleReq E (mem_if any_choice) (Some (mem_channels any_choice)) cid ''s'' [f]
      (on_conn cid (\<lambda>c. c\<lparr>subscriptions := mput ''s'' [f] (subscriptions c)\<rparr>) (r\<lparr>limits := l\<rparr>))"
  have w: "?h = (fst ?h, Panic)"
    unfolding prod_eq_iff by (simp only: fst_conv snd_conv p simp_thms)
  have "client_message E (mem_if any_choice) (Some (mem_channels any_choice)) cid
      (Inr (JArray [JString ''REQ'', JString ''s'', j])) r = (fst ?h, Panic)"
    by (subst client_message_req [OF assms(1,4) room], subst w) (simp only: prod.case outcome.case)
  moreover have "(mem_if any_choice, Some (mem_channels any_choice)) \<in> mem_backends"
    by (auto simp: mem_backends_def)
  ultimately show ?thesis
    by (intro crash [OF _ refl refl assms(2,3)])
qed

section \<open>Retention\<close>

text \<open>A retention run hides exactly the events older than the retention period whose kind is not
  profile, contact list, relay list or direct-message relay list; it changes nothing else that can be
  read.\<close>

theorem mem_retention_exact:
  assumes "mem_inv (store r)" "0 < retentionDays r" "retentionDays r < 2 ^ 40" "0 \<le> now" "now < 2 ^ 40"
  shows "mem_live (store (runRetention (mem_if ch) now r)) i =
    (case mem_live (store r) i of
       None \<Rightarrow> None
     | Some e \<Rightarrow> if CreatedAt e < now - 86400 * retentionDays r \<and> Kind e \<notin> {0, 3, 10002, 10050} then None else Some e)"
proof -
  have "wrap64 (retentionDays r * 86400) = retentionDays r * 86400"
    using assms(2,3) by (intro wrap64_id) (simp add: in64_def)
  moreover have "wrap64 (now - retentionDays r * 86400) = now - 86400 * retentionDays r"
    using assms(2-5) by (subst wrap64_id) (simp_all add: in64_def)
  ultimately have "store (runRetention (mem_if ch) now r) =
      fst (mem_DeleteEventsOlderThan ch (store r) (now - 86400 * retentionDays r) retentionExemptKinds)"
    using assms(2) by (simp add: runRetention_def Let_def)
  then show ?thesis
    using mem_Older_facts [OF assms(1), of ch "now - 86400 * retentionDays r" retentionExemptKinds]
    by (auto simp: mem_live_def retentionExemptKinds_def split: option.split)
qed

lemma mem_retention_exact_witness:
  "mem_live (store (runRetention (mem_if any_choice) 86500 ((New_relay [] 0 sample_store)\<lparr>retentionDays := 1\<rparr>))) ''ab12'' =
     mem_live sample_store ''ab12'' \<and>
   mem_live (store (runRetention (mem_if any_choice) 86501 ((New_relay [] 0 sample_store)\<lparr>retentionDays := 1\<rparr>))) ''ab12'' = None"
  using mem_retention_exact [where r = "(New_relay [] 0 sample_store)\<lparr>retentionDays := 1\<rparr>" and ch = any_choice and i = "''ab12''" and now = 86500]
    mem_retention_exact [where r = "(New_relay [] 0 sample_store)\<lparr>retentionDays := 1\<rparr>" and ch = any_choice and i = "''ab12''" and now = 86501]
    mem_inv_sample
  by (simp add: New_relay_def mem_live_def mem_stored_def mem_tomb_def sample_store_def sample_event_def mget_def mtrue_def)

section \<open>Bans\<close>


section \<open>Concrete runs\<close>

text \<open>A relay over the in-memory store, with the sample libraries and an exact clock; the client with
  number 0 is connected. \<open>gated_relay\<close> asks for authentication.\<close>

definition sample_env :: "(unit, unit) env" where
  "sample_env = \<lparr>en_codec = \<lparr>cd_unicode = plain_case, cd_crypto = sample_crypto, cd_error = (\<lambda>_. ErrorString ''json'')\<rparr>,
     en_rnd = (\<lambda>x. x), en_clock = \<lparr>now_sec = 1000, now_nsec = 0\<rparr>, en_instants = at_instant 0, en_rank = length\<rparr>"

definition sample_request :: request where
  "sample_request = \<lparr>Accept = [], X_Forwarded_For = ''a'', X_Real_IP = [], RemoteAddr = []\<rparr>"

definition valid_store :: mem_store where
  "valid_store = fst (mem_SaveEvent any_choice mem_New valid_sample)"

definition open_relay :: "'s \<Rightarrow> 's relay" where
  "open_relay s = fst (ServeHTTP 0 True [] 0 sample_request (New_relay ''false'' 0 s))"

definition gated_relay :: "mem_store relay" where
  "gated_relay = fst (ServeHTTP 0 True ''k'' 0 sample_request (relay_SetRequireAuth True (New_relay ''false'' 0 mem_New)))"

lemma open_relay_reachable: "reachable (en_codec sample_env) (\<lambda>x. x) BS s (Some (open_relay s))"
proof -
  have "clients (New_relay rl now s) = []" "pending (New_relay rl now s) = []" for rl now
    by (simp_all add: New_relay_def)
  then show ?thesis
    by (intro reachable.step [OF reachable.start [of _ _ _ _ "''false''" 0]] connect [where cid = 0])
      (simp_all add: open_relay_def prod_eq_iff)
qed

lemma gated_relay_reachable: "reachable (en_codec sample_env) (\<lambda>x. x) BS mem_New (Some gated_relay)"
proof -
  have n: "clients (New_relay rl now s) = []" "pending (New_relay rl now s) = []" for rl now and s :: mem_store
    by (simp_all add: New_relay_def)
  have "reachable (en_codec sample_env) (\<lambda>x. x) BS mem_New (Some (relay_SetRequireAuth True (New_relay ''false'' 0 mem_New)))"
    by (rule reachable.step [OF reachable.start [of _ _ _ _ "''false''" 0]], rule require_auth)
  then show ?thesis
    by (rule reachable.step, intro connect [where cid = 0])
      (simp_all add: n relay_SetRequireAuth_def gated_relay_def prod_eq_iff)
qed

lemma hex_k: "EncodeToString ''k'' = ''6b''"
  by code_simp

lemma gated_relay_client:
  "requireAuth (conns gated_relay 0)" "\<not> authenticated (conns gated_relay 0)" "relay_requireAuth gated_relay"
  "sent (conns gated_relay 0) = [MAuth ''6b'']" "\<not> client.closed (conns gated_relay 0)"
  by (simp_all add: gated_relay_def ServeHTTP_def sample_request_def relay_SetRequireAuth_def New_relay_def Let_def
    connected_def NewClient_def SetRateLimit_def SetRequireAuth_def SendAuth_def send_def hex_k del: EncodeToString.simps)

lemma open_relay_sel:
  "conns (open_relay s) 0 = NewClient ''a''" "clients (open_relay s) = [(0, True)]"
  "store (open_relay s) = s" "pending (open_relay s) = []" "limits (open_relay s) = \<lparr>ipLimiters = [], rateLimitedCount = 0\<rparr>"
  "relay_requireAuth (open_relay s) = False" "nip36Policy (open_relay s) = None" "maxEventsPerREQ (open_relay s) = 100"
  "closeAfterEOSE (open_relay s) = False"
  by (simp_all add: open_relay_def ServeHTTP_def sample_request_def real_ip_def New_relay_def Let_def mput_def
    connected_def NewClient_def)

lemma open_relay_through: "let_through E 0 (open_relay s) = Some (limits (open_relay s))"
  by (simp add: let_through_def open_relay_sel let_in_def NewClient_def)

lemma subscriptions_bounded_witness: "mlen (subscriptions (conns (open_relay mem_New) 0)) \<le> 20"
  by (rule subscriptions_bounded [OF open_relay_reachable [where BS = mem_backends]])

lemma unauthenticated_get_nothing_witness: "sent (conns gated_relay 0) = [MAuth ''6b''] \<and> subscriptions (conns gated_relay 0) = []"
  using unauthenticated_get_nothing [OF gated_relay_reachable [where BS = mem_backends], of 0] gated_relay_client by simp

lemma auth_gate_protects_witness:
  "store (fst (client_message sample_env (mem_if any_choice) None 0 (Inr (JArray [JString ''REQ'', JString ''s''])) gated_relay)) = store gated_relay"
  using auth_gate_protects [OF gated_relay_client(3,1,2) prod.collapse [symmetric]] by blast

text \<open>An event message of the sample author.\<close>

definition sample_object :: "string \<Rightarrow> string \<Rightarrow> json" where
  "sample_object kind content = JObject [(''id'', JString ''41''), (''pubkey'', JString (replicate 64 (CHR ''a''))),
     (''created_at'', JNumber ''100''), (''kind'', JNumber kind), (''content'', JString content),
     (''sig'', JString (replicate 128 (CHR ''0'')))]"

definition sent_event :: "int \<Rightarrow> string \<Rightarrow> event" where
  "sent_event k content = \<lparr>ID = ''41'', PubKey = replicate 64 (CHR ''a''), CreatedAt = 100, Kind = k, Tags = None,
     Content = content, Sig = replicate 128 (CHR ''0'')\<rparr>"

lemma sample_names:
  "\<not> name_is plain_case ''pubkey'' ''id''" "\<not> name_is plain_case ''created_at'' ''id''"
  "\<not> name_is plain_case ''created_at'' ''pubkey''" "\<not> name_is plain_case ''kind'' ''id''"
  "\<not> name_is plain_case ''id'' ''kind''" "\<not> name_is plain_case ''pubkey'' ''kind''" "\<not> name_is plain_case ''created_at'' ''kind''"
  "\<not> name_is plain_case ''kind'' ''pubkey''" "\<not> name_is plain_case ''kind'' ''created_at''"
  "\<not> name_is plain_case ''content'' ''id''" "\<not> name_is plain_case ''content'' ''pubkey''"
  "\<not> name_is plain_case ''content'' ''created_at''" "\<not> name_is plain_case ''content'' ''kind''"
  "\<not> name_is plain_case ''content'' ''tags''" "\<not> name_is plain_case ''sig'' ''id''"
  "\<not> name_is plain_case ''sig'' ''pubkey''" "\<not> name_is plain_case ''sig'' ''created_at''"
  "\<not> name_is plain_case ''sig'' ''kind''" "\<not> name_is plain_case ''sig'' ''tags''" "\<not> name_is plain_case ''sig'' ''content''"
  "name_is U n n"
  by (auto dest!: name_is_length simp: ascii_def) (simp add: name_is_def)

lemma sample_object_event:
  assumes "ParseInt kind = Some k"
  shows "as_event plain_case (sample_object kind content) = Some (sent_event k content)"
proof -
  have "ParseInt ''100'' = Some 100" by code_simp
  with assms show ?thesis
    by (simp add: as_event_def sample_object_def event_member_def sample_names zero_event_def sent_event_def)
qed

lemma sent_event_validates: "0 \<le> k \<Longrightarrow> Validate sample_crypto (sent_event k content) = None"
  by (rule sample_crypto_validates) (simp_all add: sent_event_def)

lemma sample_env_sel:
  "en_unicode sample_env = plain_case" "en_crypto sample_env = sample_crypto"
  by (simp_all add: sample_env_def)



text \<open>The client answers the challenge and is authenticated as the sample key.\<close>

lemma authentication_sound_witness:
  "let r = fst (client_message sample_env (mem_if any_choice) None 0
     (Inr (JArray [JString ''EVENT'', sample_object ''22242'' ''6b''])) gated_relay)
   in authenticated (conns r 0) \<and> conns r 1 = conns gated_relay 1 \<and>
     (\<exists>e. Validate sample_crypto e = None \<and> Kind e = 22242 \<and> PubKey e = authPubKey (conns r 0))"
proof -
  let ?m = "client_message sample_env (mem_if any_choice) None 0
     (Inr (JArray [JString ''EVENT'', sample_object ''22242'' ''6b''])) gated_relay"
  have p: "ParseInt ''22242'' = Some 22242" by code_simp
  have k: "as_kind plain_case (sample_object ''22242'' ''6b'') = Some 22242"
    by (simp add: as_kind_def sample_object_def sample_names p)
  have e: "as_event plain_case (sample_object ''22242'' ''6b'') = Some (sent_event 22242 ''6b'')"
    by (rule sample_object_event [OF p])
  have c: "authChallenge (conns gated_relay 0) = ''6b''" "\<not> rateLimited (conns gated_relay 0)"
    by (simp_all add: gated_relay_def ServeHTTP_def sample_request_def relay_SetRequireAuth_def New_relay_def Let_def
      connected_def NewClient_def SetRequireAuth_def SendAuth_def hex_k send_def del: EncodeToString.simps)
  have t: "TrimSpace ''6b'' \<noteq> []" by code_simp
  have v: "VerifySignature sample_crypto (sent_event 22242 ''6b'') = None"
    using sent_event_validates [of 22242 "''6b''"] by (auto simp: Validate_def split: if_splits option.splits)
  have "handleMessage (en_codec sample_env) (relay_handler sample_env (mem_if any_choice) None 0)
      (Inr (JArray [JString ''EVENT'', sample_object ''22242'' ''6b''])) gated_relay =
    handleEventMessage (en_codec sample_env) (relay_handler sample_env (mem_if any_choice) None 0)
      [JString ''EVENT'', sample_object ''22242'' ''6b''] gated_relay"
    using c by (simp add: handleMessage_def typed_message_def Let_def auth_event_def k sample_env_sel dispatch_def)
  then have a: "authenticated (conns (fst ?m) 0)"
    using e c v t by (simp add: client_message_def read_one_def handleEventMessage_def sample_env_sel sent_event_validates
      HandleEvent_def IsAuthEvent_def authenticate_event_def ValidateAuthEvent_def SendOK_def Authenticate_def Let_def)
      (simp add: sent_event_def)
  then show ?thesis
    using authentication_sound [OF gated_relay_client(2) prod.collapse [symmetric], of sample_env "mem_if any_choice" None
        "Inr (JArray [JString ''EVENT'', sample_object ''22242'' ''6b''])"]
    by (auto simp: Let_def sample_env_sel)
qed

lemma accepted_event_witness:
  "let r = fst (client_message sample_env (mem_if any_choice) (Some (mem_channels any_choice)) 0
     (Inr (JArray [JString ''EVENT'', sample_object ''1'' ''hi''])) (open_relay mem_New))
   in mem_GetEvent (store r) ''41'' = Inr (sent_event 1 ''hi'') \<and> pending r = [(0, sent_event 1 ''hi'')] \<and>
     sent (conns r 0) = [MOK ''41'' True [], MOK ''41'' True []]"
proof -
  have p: "ParseInt ''1'' = Some 1" by code_simp
  have e: "as_event (en_unicode sample_env) (sample_object ''1'' ''hi'') = Some (sent_event 1 ''hi'')"
    unfolding sample_env_sel by (rule sample_object_event [OF p])
  have v: "Validate (en_crypto sample_env) (sent_event 1 ''hi'') = None"
    unfolding sample_env_sel by (rule sent_event_validates) simp
  have a: "acceptable sample_env 0 (sent_event 1 ''hi'') (open_relay mem_New)"
    by (simp add: acceptable_def open_relay_sel nip36_reason_def validate_kind_def sent_event_def IsFollowListEvent_def
      IsCommentEvent_def IsReactionEvent_def IsRelayListEvent_def IsNIP28Event_def IsRequestToVanishEvent_def
      ShouldRejectEvent_def nip40_IsExpired_def GetExpiration_def first_tag_def tags_def replaceable_kind_def)
  have n: "mem_GetEvent mem_New i = Inl ErrNotFound" for i
    by (simp add: mem_GetEvent_def mem_New_def)
  show ?thesis
    using accepted_event [OF open_relay_through e v a, of any_choice] mem_inv_New n
    by (auto simp: open_relay_sel NewClient_def Let_def sent_event_def prod_eq_iff)
qed

definition strict_policy :: Policy where
  "strict_policy = \<lparr>path = ''f'', terms = [''h''], mtime = 1\<rparr>"

lemma nip36_refusal_acknowledged_witness:
  "sent (conns (fst (client_message sample_env (mem_if any_choice) None 0
     (Inr (JArray [JString ''EVENT'', sample_object ''1'' ''hi''])) ((open_relay mem_New)\<lparr>nip36Policy := Some strict_policy\<rparr>))) 0) =
   [MOK ''41'' False ''blocked: NSFW content must include a content-warning tag (NIP-36)'', MOK ''41'' True []]"
proof -
  let ?r = "(open_relay mem_New)\<lparr>nip36Policy := Some strict_policy\<rparr>"
  have p: "ParseInt ''1'' = Some 1" by code_simp
  have e: "as_event (en_unicode sample_env) (sample_object ''1'' ''hi'') = Some (sent_event 1 ''hi'')"
    unfolding sample_env_sel by (rule sample_object_event [OF p])
  have v: "Validate (en_crypto sample_env) (sent_event 1 ''hi'') = None"
    unfolding sample_env_sel by (rule sent_event_validates) simp
  have m: "ShouldReject plain_case strict_policy (sent_event 1 ''hi'') = ''blocked: NSFW content must include a content-warning tag (NIP-36)''"
    by code_simp
  have r: "nip36_reason (en_unicode sample_env) (sent_event 1 ''hi'') ?r = ''blocked: NSFW content must include a content-warning tag (NIP-36)''"
    by (simp only: nip36_reason_def sample_env_sel) (simp add: m)
  have l: "let_through sample_env 0 ?r = Some (limits ?r)"
    by (simp add: let_through_def open_relay_sel let_in_def NewClient_def)
  show ?thesis
    using nip36_refusal_acknowledged [OF l e v, of "mem_if any_choice" None] r
    by (simp add: open_relay_sel NewClient_def sent_event_def prod_eq_iff)
qed

section \<open>Requests over a stored event\<close>

lemma any_backend_in: "(mem_if any_choice, Some (mem_channels any_choice)) \<in> mem_backends"
  by (auto simp: mem_backends_def)

lemma sample_validates: "Validate sample_crypto valid_sample = None"
  by (rule sample_crypto_validates) (simp_all add: valid_sample_def sample_event_def)

lemma valid_store_all: "mem_all (\<lambda>e. Validate (cd_crypto (en_codec sample_env)) e = None) valid_store"
  using mem_all_save [OF mem_all_New, of "\<lambda>e. Validate sample_crypto e = None"] sample_validates
  unfolding valid_store_def by (simp add: sample_env_def)

lemma valid_store_query: "mem_QueryEvents any_choice valid_store [zero_filter] = Ok [valid_sample]"
  by code_simp

lemma valid_store_req:
  "req_events sample_env (mem_if any_choice) (Some (mem_channels any_choice)) valid_store [zero_filter] = Ok [valid_sample]"
proof -
  have "getChannelIDFromFilters [zero_filter] = None" "hasSearchField [zero_filter] = False"
    by (simp_all add: zero_filter_def hasSearchField_def)
  then show ?thesis by (simp add: req_events_def valid_store_query)
qed

lemma valid_sample_current: "\<not> ShouldFilterEvent (en_clock sample_env) valid_sample"
  by (simp add: ShouldFilterEvent_def nip40_IsExpired_def GetExpiration_def valid_sample_def sample_event_def first_tag_def tags_def)

lemma HandleReq_answer_witness:
  "sent (conns (fst (HandleReq sample_env (mem_if any_choice) (Some (mem_channels any_choice)) 0 ''s'' [zero_filter]
     (open_relay valid_store))) 0) = [MEvent ''s'' valid_sample, MEOSE ''s'']"
  using HandleReq_answer [of "open_relay valid_store" 0 sample_env "mem_if any_choice" "Some (mem_channels any_choice)"
      "[zero_filter]" "[valid_sample]" "''s''"] valid_store_req valid_sample_current
  by (simp add: open_relay_sel NewClient_def prod_eq_iff)

definition sample_req :: "(string \<times> json) list \<Rightarrow> json" where
  "sample_req f = JArray [JString ''REQ'', JString ''s'', JObject f]"

lemma open_relay_room: "\<not> (mget (subscriptions (conns (open_relay s) 0)) i = None \<and>
    MaxSubscriptionsPerClient \<le> mlen (subscriptions (conns (open_relay s) 0)))"
  by (simp add: open_relay_sel NewClient_def mlen_def MaxSubscriptionsPerClient_def)

lemma sent_events_validated_witness:
  "let m = client_message sample_env (mem_if any_choice) (Some (mem_channels any_choice)) 0 (Inr (sample_req [])) (open_relay valid_store)
   in MEvent ''s'' valid_sample \<in> set (sent (conns (fst m) 0)) \<and> Validate sample_crypto valid_sample = None"
proof -
  let ?m = "client_message sample_env (mem_if any_choice) (Some (mem_channels any_choice)) 0 (Inr (sample_req [])) (open_relay valid_store)"
  have u: "UnmarshalJSON (en_unicode sample_env) (JObject []) = Some zero_filter"
    by (simp add: UnmarshalJSON_def zero_filter_def)
  have m: "snd ?m = Ok () \<and> MEvent ''s'' valid_sample \<in> set (sent (conns (fst ?m) 0))"
    unfolding sample_req_def client_message_req [OF open_relay_through u open_relay_room]
    using valid_store_req valid_sample_current
    by (simp add: HandleReq_def Let_def open_relay_sel SendEOSE_def SendEvent_def sent_open NewClient_def
      split: prod.split outcome.split)
  then have "?m = (fst ?m, Ok ())" by (simp add: prod_eq_iff)
  moreover have "0 \<in> fst ` set (clients (open_relay valid_store))" "\<not> client.closed (conns (open_relay valid_store) 0)"
    by (simp_all add: open_relay_sel NewClient_def)
  ultimately have "sys_step (en_codec sample_env) (\<lambda>x. x) mem_backends (open_relay valid_store) (Some (fst ?m))"
    by (intro message [OF any_backend_in refl]) (simp_all add: sample_env_def)
  then have "reachable (en_codec sample_env) (\<lambda>x. x) mem_backends valid_store (Some (fst ?m))"
    by (rule reachable.step [OF open_relay_reachable])
  from sent_events_validated [OF valid_store_all this conjunct2 [OF m]] m show ?thesis
    by (simp add: Let_def sample_env_def)
qed

lemma negative_limit_decodes:
  "UnmarshalJSON (en_unicode sample_env) (JObject [(''limit'', JNumber ''-1'')]) = Some (zero_filter\<lparr>Limit := Some (-1)\<rparr>)"
proof -
  have p: "ParseInt ''-1'' = Some (-1)" by code_simp
  have "\<not> name_is plain_case ''limit'' ''ids''" "\<not> name_is plain_case ''limit'' ''authors''"
    "\<not> name_is plain_case ''limit'' ''Tags''" "\<not> name_is plain_case ''limit'' ''since''"
    "\<not> name_is plain_case ''limit'' ''until''" "\<not> name_is plain_case ''limit'' ''kinds''"
    "name_is plain_case ''limit'' ''limit''"
    by code_simp+
  then show ?thesis
    by (simp add: UnmarshalJSON_def filter_member_def sample_env_sel p zero_filter_def mput_def)
qed

lemma negative_limit_crashes_witness:
  "sys_step (en_codec sample_env) (en_rnd sample_env) mem_backends (open_relay mem_New) None"
  by (rule negative_limit_crashes [OF open_relay_through _ _ negative_limit_decodes, where n = "-1"])
    (simp_all add: open_relay_sel NewClient_def zero_filter_def mlen_def)

section \<open>A banned address\<close>

definition banned_relay :: "mem_store relay" where
  "banned_relay = (open_relay mem_New)\<lparr>rateLimitEnabled := True,
     limits := \<lparr>ipLimiters = [(''a'', \<lparr>tokens = 0, lastRefill = 0, violations = 10, bannedAt = Some 0, pubkeys = []\<rparr>)], rateLimitedCount = 0\<rparr>,
     conns := (\<lambda>_. NewClient ''a''\<lparr>rateLimited := True\<rparr>)\<rparr>"


end
