(* ===== verification/JsonText.thy ===== *)
theory JsonText
  imports Protocol
begin

text \<open>
  JSON texts. \<open>parse_json\<close> is the grammar that \<^verbatim>\<open>json.Unmarshal\<close> accepts: the whole text is one value
  between white space, arrays and objects are nested at most 10000 deep, a number keeps its text.
  \<open>json_text\<close> prints a value as \<^verbatim>\<open>json.Marshal\<close> does. With them the connection takes the bytes of a
  message, and what the relay puts on the wire can be read back.

  Proved: a printed value parses to itself; an event and every message of the relay come back from
  their bytes.
\<close>

section \<open>Parsing\<close>

definition json_space :: "char \<Rightarrow> bool" where
  "json_space c \<longleftrightarrow> c = CHR '' '' \<or> c = CHR 0x09 \<or> c = CHR 0x0A \<or> c = CHR 0x0D"

definition skip :: "string \<Rightarrow> string" where
  "skip s = dropWhile json_space s"

text \<open>The parts of a number: an integer without leading zeros, a fraction and an exponent, the last two
  optional. Each gives the text it took and the rest.\<close>

definition number_int :: "string \<Rightarrow> (string \<times> string) option" where
  "number_int s = (case s of
      [] \<Rightarrow> None
    | c # r \<Rightarrow>
        if c = CHR ''0'' then Some ([c], r)
        else if digit c then Some (c # takeWhile digit r, dropWhile digit r) else None)"

definition some_digits :: "string \<Rightarrow> string \<Rightarrow> (string \<times> string) option" where
  "some_digits p s = (if takeWhile digit s = [] then None else Some (p @ takeWhile digit s, dropWhile digit s))"

definition number_frac :: "string \<Rightarrow> (string \<times> string) option" where
  "number_frac s = (case s of
      [] \<Rightarrow> Some ([], [])
    | c # r \<Rightarrow> if c = CHR ''.'' then some_digits [c] r else Some ([], s))"

definition number_exp :: "string \<Rightarrow> (string \<times> string) option" where
  "number_exp s = (case s of
      [] \<Rightarrow> Some ([], [])
    | c # r \<Rightarrow>
        if c = CHR ''e'' \<or> c = CHR ''E'' then
          (case r of
             d # r' \<Rightarrow> if d = CHR ''+'' \<or> d = CHR ''-'' then some_digits [c, d] r' else some_digits [c] r
           | [] \<Rightarrow> None)
        else Some ([], s))"

definition parse_number :: "string \<Rightarrow> (string \<times> string) option" where
  "parse_number s =
    (let (sg, s1) = (if HasPrefix s ''-'' then (''-'', tl s) else ([], s)) in
     case number_int s1 of
       None \<Rightarrow> None
     | Some (i, s2) \<Rightarrow> (case number_frac s2 of
         None \<Rightarrow> None
       | Some (f, s3) \<Rightarrow> (case number_exp s3 of
           None \<Rightarrow> None
         | Some (e, s4) \<Rightarrow> Some (sg @ i @ f @ e, s4))))"

lemma skip_length: "length (skip s) \<le> length s"
  by (simp add: skip_def length_dropWhile_le)

lemma skip_Cons_length: "skip s = c # r \<Longrightarrow> length r < length s"
  using skip_length [of s] by simp

text \<open>Values, the elements of an array up to its bracket, the members of an object up to its brace; \<open>d\<close> is
  how many levels may still be opened. (The length tests only help the termination proof: the rest
  of an input is shorter than the input.)\<close>

function parse_value :: "nat \<Rightarrow> string \<Rightarrow> (json \<times> string) option"
  and parse_elements :: "nat \<Rightarrow> string \<Rightarrow> (json list \<times> string) option"
  and parse_members :: "nat \<Rightarrow> string \<Rightarrow> ((string \<times> json) list \<times> string) option" where
  "parse_value d s = (case skip s of
      [] \<Rightarrow> None
    | c # r \<Rightarrow>
        if c = quote then map_option (map_prod JString id) (json_unquote r)
        else if c = CHR ''['' then
          (if d = 0 then None
           else if HasPrefix (skip r) '']'' then Some (JArray [], tl (skip r))
           else map_option (map_prod JArray id) (parse_elements (d - 1) r))
        else if c = CHR ''{'' then
          (if d = 0 then None
           else if HasPrefix (skip r) ''}'' then Some (JObject [], tl (skip r))
           else map_option (map_prod JObject id) (parse_members (d - 1) r))
        else if c = CHR ''-'' \<or> digit c then map_option (map_prod JNumber id) (parse_number (c # r))
        else if HasPrefix (c # r) ''true'' then Some (JBool True, drop 3 r)
        else if HasPrefix (c # r) ''false'' then Some (JBool False, drop 4 r)
        else if HasPrefix (c # r) ''null'' then Some (JNull, drop 3 r)
        else None)"
| "parse_elements d s = (case parse_value d s of
      None \<Rightarrow> None
    | Some (x, r) \<Rightarrow> (case skip r of
        [] \<Rightarrow> None
      | c # r' \<Rightarrow>
          if c = CHR '']'' then Some ([x], r')
          else if c = CHR '','' \<and> length r' < length s
            then map_option (map_prod (Cons x) id) (parse_elements d r')
          else None))"
| "parse_members d s = (case skip s of
      [] \<Rightarrow> None
    | q # r \<Rightarrow>
        if q \<noteq> quote then None
        else (case json_unquote r of
          None \<Rightarrow> None
        | Some (k, r1) \<Rightarrow> (case skip r1 of
            [] \<Rightarrow> None
          | c # r2 \<Rightarrow>
              if c = CHR '':'' \<and> length r2 < length s then
                (case parse_value d r2 of
                   None \<Rightarrow> None
                 | Some (x, r3) \<Rightarrow> (case skip r3 of
                     [] \<Rightarrow> None
                   | c' # r4 \<Rightarrow>
                       if c' = CHR ''}'' then Some ([(k, x)], r4)
                       else if c' = CHR '','' \<and> length r4 < length s
                         then map_option (map_prod (Cons (k, x)) id) (parse_members d r4)
                       else None))
              else None)))"
  by pat_completeness auto
termination
  by (relation "measure (\<lambda>x. case x of Inl (d, s) \<Rightarrow> 2 * length s
      | Inr (Inl (d, s)) \<Rightarrow> 2 * length s + 1 | Inr (Inr (d, s)) \<Rightarrow> 2 * length s + 1)")
    (auto dest: skip_Cons_length)

declare parse_value.simps [simp del] parse_elements.simps [simp del] parse_members.simps [simp del]

definition max_depth :: nat where
  "max_depth = 10000"

definition parse_json :: "string \<Rightarrow> json option" where
  "parse_json s = (case parse_value max_depth s of
      None \<Rightarrow> None
    | Some (j, r) \<Rightarrow> if skip r = [] then Some j else None)"

section \<open>Printing\<close>

lemma size_member: "kv \<in> set kvs \<Longrightarrow> size (snd kv) < size (JObject kvs)"
  by (induction kvs) (auto simp: less_Suc_eq_le intro: le_SucI)

lemma size_element: "x \<in> set xs \<Longrightarrow> size x < size (JArray xs)"
  by (induction xs) auto

function json_text :: "json \<Rightarrow> string" where
  "json_text JNull = ''null''"
| "json_text (JBool b) = bool_json b"
| "json_text (JNumber n) = n"
| "json_text (JString s) = json_quote s"
| "json_text (JArray xs) = arr (map json_text xs)"
| "json_text (JObject kvs) = ''{'' @ Join (map (\<lambda>kv. json_quote (fst kv) @ '':'' @ json_text (snd kv)) kvs) '','' @ ''}''"
  by pat_completeness auto
termination
  by (relation "measure size") (auto dest: size_member size_element)

section \<open>A printed value parses to itself\<close>

text \<open>What may follow a number.\<close>

definition stops :: "string \<Rightarrow> bool" where
  "stops rest \<longleftrightarrow> (case rest of [] \<Rightarrow> True | c # _ \<Rightarrow> \<not> digit c \<and> c \<notin> {CHR ''.'', CHR ''e'', CHR ''E''})"

definition number_text :: "string \<Rightarrow> bool" where
  "number_text n \<longleftrightarrow> parse_number n = Some (n, [])"

lemma stops_digits:
  assumes "stops rest"
  shows "takeWhile digit (s @ rest) = takeWhile digit s" "dropWhile digit (s @ rest) = dropWhile digit s @ rest"
proof -
  have r: "takeWhile digit rest = []" "dropWhile digit rest = rest"
    using assms by (cases rest; simp add: stops_def)+
  show "takeWhile digit (s @ rest) = takeWhile digit s"
    by (induction s) (simp_all add: r)
  show "dropWhile digit (s @ rest) = dropWhile digit s @ rest"
    by (induction s) (simp_all add: r)
qed

lemma number_int_stops: "stops rest \<Longrightarrow> number_int s = Some (i, s') \<Longrightarrow> number_int (s @ rest) = Some (i, s' @ rest)"
  by (cases s) (auto simp: number_int_def stops_digits split: if_splits)

lemma some_digits_stops: "stops rest \<Longrightarrow> some_digits p s = Some (i, s') \<Longrightarrow> some_digits p (s @ rest) = Some (i, s' @ rest)"
  by (auto simp: some_digits_def stops_digits split: if_splits)

lemma number_frac_stops: "stops rest \<Longrightarrow> number_frac s = Some (i, s') \<Longrightarrow> number_frac (s @ rest) = Some (i, s' @ rest)"
  by (cases s; cases rest) (auto simp: number_frac_def stops_def some_digits_stops split: if_splits)

lemma some_digits_stops_Cons:
  "stops rest \<Longrightarrow> some_digits p (x # s) = Some (i, s') \<Longrightarrow> some_digits p (x # s @ rest) = Some (i, s' @ rest)"
  using some_digits_stops [of rest p "x # s"] by simp

lemma number_exp_stops: "stops rest \<Longrightarrow> number_exp s = Some (i, s') \<Longrightarrow> number_exp (s @ rest) = Some (i, s' @ rest)"
proof (cases s)
  case Nil
  assume "stops rest" "number_exp s = Some (i, s')"
  with Nil show ?thesis by (cases rest) (auto simp: number_exp_def stops_def)
next
  case (Cons c r)
  assume "stops rest" "number_exp s = Some (i, s')"
  with Cons show ?thesis
    by (auto simp: number_exp_def some_digits_stops some_digits_stops_Cons split: if_splits list.splits)
qed

lemma parse_number_stops:
  assumes "number_text n" "stops rest"
  shows "parse_number (n @ rest) = Some (n, rest)"
proof -
  have n: "n \<noteq> []" using assms(1) by (auto simp: number_text_def parse_number_def number_int_def)
  then have p: "HasPrefix (n @ rest) ''-'' = HasPrefix n ''-''" "tl (n @ rest) = tl n @ rest"
    by (cases n; simp)+
  obtain sg s1 i s2 f s3 e s4 where s: "(sg, s1) = (if HasPrefix n ''-'' then (''-'', tl n) else ([], n))"
    "number_int s1 = Some (i, s2)" "number_frac s2 = Some (f, s3)" "number_exp s3 = Some (e, s4)"
    "sg @ i @ f @ e = n" "s4 = []"
    using assms(1) by (auto simp: number_text_def parse_number_def Let_def split: option.splits if_splits)
  have "(sg, s1 @ rest) = (if HasPrefix n ''-'' then (''-'', tl n @ rest) else ([], n @ rest))"
    using s(1) by (auto split: if_splits)
  note t = this number_int_stops [OF assms(2) s(2)] number_frac_stops [OF assms(2) s(3)]
    number_exp_stops [OF assms(2) s(4)]
  show ?thesis unfolding parse_number_def p by (simp add: t(1) [symmetric] t(2-) s(5,6))
qed

lemma number_text_head:
  assumes "number_text n"
  obtains c r where "n = c # r" "c = CHR ''-'' \<or> digit c"
  using assms by (cases n) (auto simp: number_text_def parse_number_def number_int_def digit_def split: if_splits)

lemma show_nat_head: "0 < n \<Longrightarrow> hd (show_nat n) \<noteq> CHR ''0''"
proof (induction n rule: show_nat.induct)
  case (1 n)
  show ?case
  proof (cases "n < 10")
    case True
    have "byte (char_of (48 + n) :: char) \<noteq> byte (CHR ''0'')" using True 1(2) by simp
    then have "char_of (48 + n) \<noteq> CHR ''0''" by metis
    then show ?thesis using True by (subst show_nat.simps) simp
  next
    case False
    then show ?thesis using 1(1) by (subst show_nat.simps) simp
  qed
qed

lemma show_int_number: "number_text (show_int i)"
proof -
  have "number_int (show_nat n) = Some (show_nat n, [])" for n
  proof (cases "n = 0")
    case True
    moreover have "char_of (48 :: nat) = CHR ''0''" by code_simp
    ultimately show ?thesis by (simp add: number_int_def show_nat.simps)
  next
    case False
    obtain c r where n: "show_nat n = c # r" by (cases "show_nat n") simp_all
    have d: "list_all digit (c # r)" using show_nat_digits [of n] n by simp
    then have "takeWhile digit r = r" "dropWhile digit r = []" by (auto simp: list_all_iff)
    then show ?thesis using d show_nat_head [of n] False n by (simp add: number_int_def)
  qed
  moreover have "\<not> HasPrefix (show_nat n) ''-''" for n
    using show_nat_hd [of n] by (cases "show_nat n") auto
  ultimately show ?thesis
    by (auto simp: show_int_def number_text_def parse_number_def number_frac_def number_exp_def)
qed

text \<open>The values that print to JSON: texts of numbers, valid UTF-8, at most \<open>d\<close> levels.\<close>

fun printable :: "nat \<Rightarrow> json \<Rightarrow> bool" where
  "printable d (JNumber n) = number_text n"
| "printable d (JString s) = valid_utf8 s"
| "printable (Suc d) (JArray xs) = list_all (printable d) xs"
| "printable (Suc d) (JObject kvs) = list_all (\<lambda>kv. valid_utf8 (fst kv) \<and> printable d (snd kv)) kvs"
| "printable 0 (JArray xs) = False"
| "printable 0 (JObject kvs) = False"
| "printable d JNull = True"
| "printable d (JBool b) = True"

lemma skip_none: "\<not> json_space c \<Longrightarrow> skip (c # r) = c # r"
  by (simp add: skip_def)

lemma delimiters [simp]:
  "\<not> json_space (CHR '','')" "\<not> json_space (CHR '']'')" "\<not> json_space (CHR ''}'')" "\<not> json_space (CHR '':'')"
  "\<not> json_space (CHR ''['')" "\<not> json_space (CHR ''{'')" "\<not> json_space quote"
  "\<not> digit (CHR '','')" "\<not> digit (CHR '']'')" "\<not> digit (CHR ''}'')" "\<not> digit (CHR ''['')" "\<not> digit (CHR ''{'')"
  "\<not> digit quote" "quote \<noteq> CHR '']''" "quote \<noteq> CHR ''}''" "quote \<noteq> CHR ''[''" "quote \<noteq> CHR ''{''" "quote \<noteq> CHR ''-''" "CHR ''['' \<noteq> quote" "CHR ''{'' \<noteq> quote"
  by (simp_all add: json_space_def digit_def quote_def)

lemma number_head_not: "c = CHR ''-'' \<or> digit c \<Longrightarrow>
    c \<noteq> quote \<and> c \<noteq> CHR ''['' \<and> c \<noteq> CHR ''{'' \<and> \<not> json_space c \<and> c \<noteq> CHR '']''"
  by (auto simp: json_space_def digit_def quote_def)

text \<open>The first character of a printed value; it is not a space and closes nothing.\<close>

lemma json_text_head:
  assumes "printable d j"
  obtains c r where "json_text j = c # r" "\<not> json_space c" "c \<noteq> CHR '']''"
proof (cases j)
  case (JNumber n)
  then show ?thesis using assms that number_text_head [of n] number_head_not by (metis json_text.simps(3) printable.simps(1))
next
  case (JBool b)
  then show ?thesis using that by (cases b) (simp_all add: bool_json_def json_space_def)
qed (use that in \<open>auto simp: json_quote_def arr_def json_space_def quote_def\<close>)

lemma parse_elements_more:
  assumes "parse_value d s = Some (x, CHR '','' # t)" "length t < length s" "parse_elements d t = Some (ys, rest)"
  shows "parse_elements d s = Some (x # ys, rest)"
  by (subst parse_elements.simps) (simp add: assms skip_none)

lemma parse_members_more:
  assumes "valid_utf8 k" "parse_value d s = Some (x, CHR '','' # t)" "length t < length s" "parse_members d t = Some (ys, rest)"
  shows "parse_members d (json_quote k @ CHR '':'' # s) = Some ((k, x) # ys, rest)"
  using assms by (subst parse_members.simps) (simp add: skip_none json_quote_def json_unquote_escape)

lemma parse_value_text:
  assumes "printable d j" "stops rest"
  shows "parse_value d (json_text j @ rest) = Some (j, rest)"
  using assms
proof (induction j arbitrary: d rest rule: json_text.induct)
  case 1
  then show ?case by (simp add: parse_value.simps skip_def json_space_def digit_def quote_def)
next
  case (2 b)
  then show ?case by (simp add: bool_json_def parse_value.simps skip_def json_space_def digit_def quote_def)
next
  case (3 n)
  obtain c r where n: "n = c # r" "c = CHR ''-'' \<or> digit c" using 3(1) by (auto elim: number_text_head)
  have p: "parse_number (c # r @ rest) = Some (n, rest)" using parse_number_stops [of n rest] 3 n(1) by simp
  show ?case
    using number_head_not [OF n(2)] n(2) p unfolding json_text.simps n(1) by (auto simp: parse_value.simps skip_none)
next
  case (4 s)
  then show ?case using json_unquote_escape [of s rest] by (simp add: json_quote_def parse_value.simps skip_none)
next
  case (5 xs)
  then obtain d' where d: "d = Suc d'" "list_all (printable d') xs" by (cases d) auto
  have e: "parse_elements d' (Join (map json_text ys) '','' @ CHR '']'' # rest) = Some (ys, rest)"
    if "ys \<noteq> []" "set ys \<subseteq> set xs" for ys
    using that
  proof (induction ys rule: induct_list012)
    case (2 x)
    have "parse_value d' (json_text x @ CHR '']'' # rest) = Some (x, CHR '']'' # rest)"
      using 5(1) [of x d'] 2 d(2) by (simp add: list_all_iff stops_def)
    then show ?case by (simp add: parse_elements.simps skip_none)
  next
    case (3 x y zs)
    let ?t = "Join (map json_text (y # zs)) '','' @ CHR '']'' # rest"
    have v: "parse_value d' (json_text x @ CHR '','' # ?t) = Some (x, CHR '','' # ?t)"
      using 5(1) [of x d'] 3(4) d(2) by (simp add: list_all_iff stops_def)
    have "parse_elements d' ?t = Some (y # zs, rest)" using 3(2,4) by simp
    from parse_elements_more [OF v _ this]
    have "parse_elements d' (json_text x @ CHR '','' # ?t) = Some (x # y # zs, rest)" by (simp del: list.map)
    then show ?case by simp
  qed simp
  show ?case
  proof (cases xs)
    case Nil
    then show ?thesis by (simp add: d(1) arr_def parse_value.simps skip_none)
  next
    case (Cons x ys)
    obtain c r where "json_text x = c # r" "\<not> json_space c" "c \<noteq> CHR '']''"
      using d(2) Cons json_text_head [of d' x] by auto
    then have "\<not> HasPrefix (skip (Join (map json_text xs) '','' @ CHR '']'' # rest)) '']''"
      using Cons by (cases ys) (simp_all add: skip_none)
    with e [of xs] Cons show ?thesis by (simp add: d(1) arr_def parse_value.simps skip_none del: list.map)
  qed
next
  case (6 kvs)
  then obtain d' where d: "d = Suc d'" "list_all (\<lambda>kv. valid_utf8 (fst kv) \<and> printable d' (snd kv)) kvs" by (cases d) auto
  let ?m = "\<lambda>kv. json_quote (fst kv) @ '':'' @ json_text (snd kv)"
  have q: "json_quote k @ r = quote # json_escape k @ quote # r" for k r by (simp add: json_quote_def)
  have e: "parse_members d' (Join (map ?m ys) '','' @ CHR ''}'' # rest) = Some (ys, rest)"
    if "ys \<noteq> []" "set ys \<subseteq> set kvs" for ys
    using that
  proof (induction ys rule: induct_list012)
    case (2 x)
    have "parse_value d' (json_text (snd x) @ CHR ''}'' # rest) = Some (snd x, CHR ''}'' # rest)" "valid_utf8 (fst x)"
      using 6(1) [of x d'] 2 d(2) by (simp_all add: list_all_iff stops_def)
    then show ?case by (simp add: parse_members.simps skip_none q json_unquote_escape)
  next
    case (3 x y zs)
    let ?t = "Join (map ?m (y # zs)) '','' @ CHR ''}'' # rest"
    have v: "parse_value d' (json_text (snd x) @ CHR '','' # ?t) = Some (snd x, CHR '','' # ?t)" "valid_utf8 (fst x)"
      using 6(1) [of x d'] 3(4) d(2) by (simp_all add: list_all_iff stops_def)
    have "parse_members d' ?t = Some (y # zs, rest)" using 3(2,4) by simp
    from parse_members_more [OF v(2,1) _ this]
    have "parse_members d' (json_quote (fst x) @ CHR '':'' # json_text (snd x) @ CHR '','' # ?t)
        = Some ((fst x, snd x) # y # zs, rest)" by (simp del: list.map)
    then show ?case by simp
  qed simp
  show ?case
  proof (cases kvs)
    case Nil
    then show ?thesis by (simp add: d(1) parse_value.simps skip_none)
  next
    case (Cons x ys)
    have "\<not> HasPrefix (skip (Join (map ?m kvs) '','' @ CHR ''}'' # rest)) ''}''"
      using Cons by (cases ys) (simp_all add: q skip_none)
    with e [of kvs] Cons show ?thesis by (simp add: d(1) parse_value.simps skip_none del: list.map)
  qed
qed

lemma parse_json_text: "printable max_depth j \<Longrightarrow> parse_json (json_text j) = Some j"
  using parse_value_text [of max_depth j "[]"] by (simp add: parse_json_def stops_def skip_def)

section \<open>Events and messages\<close>

definition slice_value :: "('a \<Rightarrow> json) \<Rightarrow> 'a slice \<Rightarrow> json" where
  "slice_value f s = (case s of None \<Rightarrow> JNull | Some xs \<Rightarrow> JArray (map f xs))"

definition event_value :: "event \<Rightarrow> json" where
  "event_value e = JObject
     [(''id'', JString (ID e)), (''pubkey'', JString (PubKey e)), (''created_at'', JNumber (show_int (CreatedAt e))),
      (''kind'', JNumber (show_int (Kind e))), (''tags'', slice_value (slice_value JString) (Tags e)),
      (''content'', JString (Content e)), (''sig'', JString (Sig e))]"

fun msg_value :: "msg \<Rightarrow> json" where
  "msg_value (MEvent sub e) = JArray [JString ''EVENT'', JString sub, event_value e]"
| "msg_value (MEOSE sub) = JArray [JString ''EOSE'', JString sub]"
| "msg_value (MOK i b m) = JArray [JString ''OK'', JString i, JBool b, JString m]"
| "msg_value (MNotice m) = JArray [JString ''NOTICE'', JString m]"
| "msg_value (MAuth ch) = JArray [JString ''AUTH'', JString ch]"
| "msg_value (MCount i n approximate) = JArray [JString ''COUNT'', JString i,
     JObject ((if approximate then [(''approximate'', JBool True)] else []) @ [(''count'', JNumber (show_int n))])]"
| "msg_value (MClosed i m) = JArray [JString ''CLOSED'', JString i, JString m]"

lemma slice_text: "json_text (slice_value f s) = marshal_slice (\<lambda>x. json_text (f x)) s"
  by (cases s) (simp_all add: slice_value_def marshal_slice_def arr_def o_def)

lemma event_text: "json_text (event_value e) = event_json e"
  by (simp add: event_value_def event_json_def slice_text)

lemma msg_text: "json_text (msg_value m) = encode_msg m"
  by (cases m) (simp_all add: event_text bool_json_def)

text \<open>Events and messages whose strings are UTF-8.\<close>

definition wire_event :: "event \<Rightarrow> bool" where
  "wire_event e \<longleftrightarrow> utf8_event e \<and> valid_utf8 (ID e) \<and> valid_utf8 (Sig e) \<and> in64 (CreatedAt e) \<and> in64 (Kind e)"

fun wire_msg :: "msg \<Rightarrow> bool" where
  "wire_msg (MEvent sub e) = (valid_utf8 sub \<and> wire_event e)"
| "wire_msg (MEOSE sub) = valid_utf8 sub"
| "wire_msg (MOK i b m) = (valid_utf8 i \<and> valid_utf8 m)"
| "wire_msg (MNotice m) = valid_utf8 m"
| "wire_msg (MAuth ch) = valid_utf8 ch"
| "wire_msg (MCount i n approximate) = valid_utf8 i"
| "wire_msg (MClosed i m) = (valid_utf8 i \<and> valid_utf8 m)"

lemma names_utf8 [simp]:
  "valid_utf8 ''id''" "valid_utf8 ''pubkey''" "valid_utf8 ''created_at''" "valid_utf8 ''kind''" "valid_utf8 ''tags''"
  "valid_utf8 ''content''" "valid_utf8 ''sig''" "valid_utf8 ''EVENT''" "valid_utf8 ''EOSE''" "valid_utf8 ''OK''"
  "valid_utf8 ''NOTICE''" "valid_utf8 ''AUTH''" "valid_utf8 ''COUNT''" "valid_utf8 ''CLOSED''" "valid_utf8 ''count''"
  "valid_utf8 ''approximate''"
  by (rule ascii_valid_utf8, simp add: ascii_def)+

lemma event_value_printable: "wire_event e \<Longrightarrow> printable (Suc (Suc (Suc d))) (event_value e)"
  by (auto simp: event_value_def wire_event_def utf8_event_def utf8_tags_def slice_value_def show_int_number list_all_iff
    simp del: valid_utf8.simps split: option.splits)

lemma msg_value_printable: "wire_msg m \<Longrightarrow> printable (Suc (Suc (Suc (Suc d)))) (msg_value m)"
  using event_value_printable by (cases m) (auto simp: show_int_number simp del: valid_utf8.simps)

lemma max_depth_Suc: "max_depth = Suc (Suc (Suc (Suc 9996)))"
  by (simp add: max_depth_def)

text \<open>Decoding a printed event.\<close>

lemma names_differ:
  "\<not> name_is U ''pubkey'' ''id''" "\<not> name_is U ''created_at'' ''id''" "\<not> name_is U ''created_at'' ''pubkey''"
  "\<not> name_is U ''kind'' ''id''" "\<not> name_is U ''kind'' ''pubkey''" "\<not> name_is U ''kind'' ''created_at''"
  "\<not> name_is U ''tags'' ''id''" "\<not> name_is U ''tags'' ''pubkey''" "\<not> name_is U ''tags'' ''created_at''"
  "\<not> name_is U ''content'' ''id''" "\<not> name_is U ''content'' ''pubkey''" "\<not> name_is U ''content'' ''created_at''"
  "\<not> name_is U ''content'' ''kind''" "\<not> name_is U ''content'' ''tags''"
  "\<not> name_is U ''sig'' ''id''" "\<not> name_is U ''sig'' ''pubkey''" "\<not> name_is U ''sig'' ''created_at''"
  "\<not> name_is U ''sig'' ''kind''" "\<not> name_is U ''sig'' ''tags''" "\<not> name_is U ''sig'' ''content''"
  by (auto dest!: name_is_length simp: ascii_def)

lemma kind_is_not_tags: "\<not> name_is U ''tags'' ''kind''"
  by (simp add: name_is_def EqualFold_def utf8_first_def fold_rune_def ascii_lower_def Let_def)

lemma names_same: "name_is U k k"
  by (simp add: name_is_def)

lemma decode_all_strings: "decode_all (\<lambda>x. as_string x []) (map JString xs) = Some xs"
  by (induction xs) simp_all

lemma as_strings_value: "as_strings (slice_value JString t) = Some t"
  by (cases t) (simp_all add: slice_value_def as_strings_def decode_all_strings)

lemma as_tags_value: "as_tags (slice_value (slice_value JString) ts) = Some ts"
proof -
  have "decode_all as_strings (map (slice_value JString) xs) = Some xs" for xs
    by (induction xs) (simp_all add: as_strings_value)
  then show ?thesis by (cases ts) (simp_all add: slice_value_def as_tags_def)
qed

lemma as_event_value: "wire_event e \<Longrightarrow> as_event U (event_value e) = Some e"
  by (simp add: as_event_def event_value_def event_member_def names_differ kind_is_not_tags names_same
    as_tags_value ParseInt_show_int wire_event_def zero_event_def)

lemma parse_event_json: "wire_event e \<Longrightarrow> parse_json (event_json e) = Some (event_value e)"
  using parse_json_text [of "event_value e"] event_value_printable unfolding max_depth_Suc event_text by blast

text \<open>C21: The bytes of an event, as \<^verbatim>\<open>json.Marshal\<close> writes them, are read back by \<^verbatim>\<open>json.Unmarshal\<close> to the same
  event, nil and empty tags told apart, whatever its strings hold as long as they are UTF-8.\<close>

theorem event_wire_roundtrip:
  assumes "wire_event e"
  shows "parse_json (event_json e) = Some (event_value e) \<and> as_event U (event_value e) = Some e"
  using parse_event_json [OF assms] as_event_value [OF assms, of U] by blast

lemma slice_value_inj: "(\<And>x y. f x = f y \<Longrightarrow> x = y) \<Longrightarrow> slice_value f s = slice_value f t \<Longrightarrow> s = t"
  by (cases s; cases t) (auto simp: slice_value_def dest: map_injective intro!: injI)

lemma event_value_inj: "event_value e = event_value e' \<Longrightarrow> e = e'"
  using slice_value_inj [of "slice_value JString"] slice_value_inj [of JString]
  by (auto simp: event_value_def intro!: event.equality dest: show_int_inj)

lemma msg_value_inj: "msg_value m = msg_value m' \<Longrightarrow> m = m'"
  by (cases m; cases m') (auto dest: event_value_inj show_int_inj split: if_splits)

lemma wire_msg_parses: "wire_msg m \<Longrightarrow> parse_json (encode_msg m) = Some (msg_value m)"
  using parse_json_text [of "msg_value m"] msg_value_printable unfolding max_depth_Suc msg_text by blast

text \<open>What the relay writes for a message is one JSON text, the array of its type and fields; different
  messages have different texts.\<close>

theorem message_wire_roundtrip:
  assumes "wire_msg m"
  shows "parse_json (encode_msg m) = Some (msg_value m) \<and> (wire_msg m' \<longrightarrow> encode_msg m = encode_msg m' \<longrightarrow> m = m')"
  using wire_msg_parses [of m] wire_msg_parses [of m'] assms msg_value_inj [of m m'] by auto

section \<open>Messages as bytes\<close>

text \<open>The turn of \<^verbatim>\<open>readPump\<close> over the bytes of a message; \<open>syntax\<close> is the text of the parser's error.\<close>

definition received :: "(string \<Rightarrow> error) \<Rightarrow> string \<Rightarrow> error + json" where
  "received syntax message = (case parse_json message of None \<Rightarrow> Inl (syntax message) | Some j \<Rightarrow> Inr j)"

definition read_bytes :: "('pk, 'sg) codec \<Rightarrow> 'w handler \<Rightarrow> (string \<Rightarrow> error) \<Rightarrow> string \<Rightarrow> 'w \<Rightarrow> 'w \<times> unit outcome" where
  "read_bytes D H syntax message w = read_one D H (received syntax message) w"

text \<open>An EVENT message made by \<^verbatim>\<open>json.Marshal\<close> reaches the handler as the event it carries.\<close>

lemma event_message_printable:
  "wire_event e \<Longrightarrow> printable (Suc (Suc (Suc (Suc d)))) (JArray [JString ''EVENT'', event_value e])"
  using event_value_printable [of e d] by (simp del: valid_utf8.simps)

lemma read_event_bytes:
  assumes "wire_event e"
  shows "read_bytes D H syntax (arr [json_quote ''EVENT'', event_json e]) w =
    read_one D H (Inr (JArray [JString ''EVENT'', event_value e])) w"
    and "as_event (cd_unicode D) (event_value e) = Some e"
proof -
  have "printable max_depth (JArray [JString ''EVENT'', event_value e])"
    unfolding max_depth_Suc by (rule event_message_printable [OF assms])
  from parse_json_text [OF this]
  show "read_bytes D H syntax (arr [json_quote ''EVENT'', event_json e]) w =
      read_one D H (Inr (JArray [JString ''EVENT'', event_value e])) w"
    by (simp add: read_bytes_def received_def event_text)
  show "as_event (cd_unicode D) (event_value e) = Some e" by (rule as_event_value [OF assms])
qed

text \<open>Witnesses.\<close>

definition quoted_event :: event where
  "quoted_event = \<lparr>ID = ''41'', PubKey = ''aa'', CreatedAt = -5, Kind = 1, Tags = Some [Some [''t'', ''a, b''], None, Some []],
     Content = ''say '' @ [quote, backslash, CHR 0x0A] @ ''<b>'', Sig = ''00''\<rparr>"

lemma quoted_event_wire: "wire_event quoted_event"
  by (simp add: quoted_event_def wire_event_def utf8_event_def utf8_tags_def in64_def ascii_valid_utf8 ascii_def quote_def
    backslash_def del: valid_utf8.simps)

lemma event_wire_roundtrip_witness: "\<exists>j. parse_json (event_json quoted_event) = Some j \<and> as_event plain_case j = Some quoted_event"
  using event_wire_roundtrip [OF quoted_event_wire, of plain_case] by blast

lemma message_wire_roundtrip_witness:
  "parse_json (encode_msg (MEvent ''s'' quoted_event)) = Some (JArray [JString ''EVENT'', JString ''s'', event_value quoted_event])"
proof -
  have "wire_msg (MEvent ''s'' quoted_event)" using quoted_event_wire by (simp add: ascii_valid_utf8 ascii_def del: valid_utf8.simps)
  from message_wire_roundtrip [OF this] show ?thesis by simp
qed

end
