(* ===== verification/Wire.thy ===== *)
theory Wire
  imports System JsonText
begin

text \<open>
  The relay between bytes: a message as the client wrote it, an event as another client reads it. It
  joins the parser and printer of \<open>JsonText\<close> with the relay of \<open>System\<close>.
\<close>

definition client_bytes ::
  "('pk, 'sg) env \<Rightarrow> 's store_if \<Rightarrow> 's channel_if option \<Rightarrow> (string \<Rightarrow> error) \<Rightarrow> nat \<Rightarrow> string \<Rightarrow> 's relay \<Rightarrow> 's relay \<times> unit outcome" where
  "client_bytes E S CS syntax cid message r = read_bytes (en_codec E) (relay_handler E S CS cid) syntax message r"

text \<open>C4: Publishing, from bytes to bytes: the bytes of an EVENT message with a validated new regular event that
  the relay accepts put a delivery in the queue of every client; the delivery to an open client that has
  a matching subscription sends it one message, whose bytes parse to an EVENT message for one of its
  subscriptions with the event that was published.\<close>

theorem published_event_arrives:
  assumes "wire_event e" "let_through E cid r = Some l" "Validate (en_crypto E) e = None"
    and "acceptable E cid e r" "mem_inv (store r)" "mem_GetEvent (store r) (ID e) = Inl ErrNotFound"
    and m: "client_bytes E (mem_if ch) (Some (mem_channels ch)) syntax cid (arr [json_quote ''EVENT'', event_json e]) r = (r', res)"
    and c: "(other, up) \<in> set (clients r)" "\<not> client.closed (conns r other)" "Kind e \<noteq> 4" "\<not> ShouldFilterEvent now e"
    and f: "(sub, fs) \<in> set (subscriptions (conns r other))" "f \<in> set fs" "Matches e f"
    and u: "list_all (\<lambda>(i, _). valid_utf8 i) (subscriptions (conns r other))"
  shows "(other, e) \<in> set (pending r') \<and>
    (\<exists>i j. i \<in> fst ` set (subscriptions (conns r other)) \<and>
      sent (deliver now rank e (conns r' other)) = sent (conns r' other) @ [MEvent i e] \<and>
      parse_json (encode_msg (MEvent i e)) = Some (JArray [JString ''EVENT'', JString i, j]) \<and> as_event U j = Some e)"
proof -
  have e: "as_event (en_unicode E) (event_value e) = Some e" by (rule as_event_value [OF assms(1)])
  obtain s where "client_message E (mem_if ch) (Some (mem_channels ch)) cid (Inr (JArray [JString ''EVENT'', event_value e])) r =
      (ok cid (ID e) True [] (broadcastEvent e (ok cid (ID e) True []
        (r\<lparr>limits := l, totalEvents := totalEvents r + 1, packetCount := packetCount r + 1, store := s\<rparr>))), Ok ())"
    by (rule acceptance [OF assms(2) e assms(3-6), of ch]) blast
  then have r': "r' = ok cid (ID e) True [] (broadcastEvent e (ok cid (ID e) True []
        (r\<lparr>limits := l, totalEvents := totalEvents r + 1, packetCount := packetCount r + 1, store := s\<rparr>)))"
    using m read_event_bytes(1) [OF assms(1), of "en_codec E" "relay_handler E (mem_if ch) (Some (mem_channels ch)) cid" "syntax" r]
    by (simp add: client_bytes_def client_message_def)
  let ?c = "conns r' other"
  have k: "subscriptions ?c = subscriptions (conns r other)" "\<not> client.closed ?c"
    unfolding r' using c(2) by (auto simp: SendOK_def on_conn_def broadcastEvent_def)
  have "\<exists>i fs f. (i, fs) \<in> set (subscriptions (conns r other)) \<and> f \<in> set fs \<and> Matches e f \<and>
      deliver now rank e ?c = ?c\<lparr>sent := sent ?c @ [MEvent i e]\<rparr>"
    using delivery_exact [OF k(2), of now e rank] c(3,4) f unfolding k(1) by (simp split: if_splits)
  then obtain i gs where g: "(i, gs) \<in> set (subscriptions (conns r other))"
    "deliver now rank e ?c = ?c\<lparr>sent := sent ?c @ [MEvent i e]\<rparr>" by blast
  have i: "i \<in> fst ` set (subscriptions (conns r other))" "sent (deliver now rank e ?c) = sent ?c @ [MEvent i e]"
    using g by force+
  have "wire_msg (MEvent i e)" using i(1) u assms(1) by (auto simp: list_all_iff)
  from wire_msg_parses [OF this]
  have "parse_json (encode_msg (MEvent i e)) = Some (JArray [JString ''EVENT'', JString i, event_value e])" by simp
  moreover have "(other, e) \<in> set (pending r')" unfolding r' using c(1) by (force simp: broadcastEvent_def on_conn_def)
  ultimately show ?thesis using i as_event_value [OF assms(1), of U] by blast
qed

definition subscribed_relay :: "mem_store relay" where
  "subscribed_relay = on_conn 0 (\<lambda>c. c\<lparr>subscriptions := [(''s'', [zero_filter])]\<rparr>) (open_relay mem_New)"

lemma sent_event_wire: "wire_event (sent_event 1 ''hi'')"
  by (simp add: sent_event_def wire_event_def utf8_event_def utf8_tags_def in64_def ascii_valid_utf8 ascii_def list_all_iff
    del: valid_utf8.simps)

lemma published_event_arrives_witness:
  "let r = fst (client_bytes sample_env (mem_if any_choice) (Some (mem_channels any_choice)) (\<lambda>_. ErrNotFound) 0
     (arr [json_quote ''EVENT'', event_json (sent_event 1 ''hi'')]) subscribed_relay)
   in \<exists>i j. sent (deliver (en_clock sample_env) length (sent_event 1 ''hi'') (conns r 0)) =
       sent (conns r 0) @ [MEvent i (sent_event 1 ''hi'')] \<and>
     parse_json (encode_msg (MEvent i (sent_event 1 ''hi''))) = Some (JArray [JString ''EVENT'', JString i, j]) \<and>
     as_event plain_case j = Some (sent_event 1 ''hi'')"
proof -
  let ?e = "sent_event 1 ''hi''" and ?r = subscribed_relay
  have s: "conns ?r 0 = (NewClient ''a'')\<lparr>subscriptions := [(''s'', [zero_filter])]\<rparr>" "clients ?r = [(0, True)]"
    "store ?r = mem_New" "nip36Policy ?r = None" "relay_requireAuth ?r = False" "limits ?r = limits (open_relay mem_New)"
    by (simp_all add: subscribed_relay_def on_conn_def open_relay_sel)
  have l: "let_through sample_env 0 ?r = Some (limits ?r)" by (simp add: let_through_def s let_in_def NewClient_def)
  have v: "Validate (en_crypto sample_env) ?e = None" unfolding sample_env_sel by (rule sent_event_validates) simp
  have x: "\<not> ShouldFilterEvent (en_clock sample_env) ?e" "\<not> ShouldRejectEvent (en_clock sample_env) ?e"
    by (simp_all add: ShouldFilterEvent_def ShouldRejectEvent_def nip40_IsExpired_def GetExpiration_def first_tag_def tags_def sent_event_def)
  have a: "acceptable sample_env 0 ?e ?r"
    using x(2) by (simp add: acceptable_def s nip36_reason_def validate_kind_def sent_event_def IsFollowListEvent_def
      IsCommentEvent_def IsReactionEvent_def IsRelayListEvent_def IsNIP28Event_def IsRequestToVanishEvent_def replaceable_kind_def)
  have n: "mem_inv (store ?r)" "mem_GetEvent (store ?r) (ID ?e) = Inl ErrNotFound"
    by (simp_all add: s mem_inv_New) (simp add: mem_GetEvent_def mem_New_def)
  have m: "(''s'', [zero_filter]) \<in> set (subscriptions (conns ?r 0))" "zero_filter \<in> set [zero_filter]" "Matches ?e zero_filter"
    "(0, True) \<in> set (clients ?r)" "\<not> client.closed (conns ?r 0)" "Kind ?e \<noteq> 4"
    "list_all (\<lambda>(i, _). valid_utf8 i) (subscriptions (conns ?r 0))"
    by (simp_all add: s NewClient_def Matches_def zero_filter_def sent_event_def ascii_valid_utf8 ascii_def del: valid_utf8.simps)
  show ?thesis
    using published_event_arrives [OF sent_event_wire l v a n prod.collapse [symmetric] m(4-6) x(1) m(1-3,7),
      of any_choice "\<lambda>_. ErrNotFound" length plain_case] unfolding Let_def by blast
qed

end
