(* ===== verification/TestKeys.thy ===== *)
theory TestKeys
  imports Event
begin

text \<open>
  Key pairs and signed events, \<^verbatim>\<open>internal/testutil/keys.go\<close>, and the conversions of
  \<^verbatim>\<open>test/integration/test_helpers.go\<close>. The curve operations of \<^verbatim>\<open>btcec\<close> are the record \<open>signer\<close>; what it
  promises is \<open>signer_laws\<close>: a key and a signature are serialised to 32 and 64 bytes that parse, and what
  was signed verifies. A fresh private key is an argument.

  Proved: a signed event passes validation and keeps its other fields, and so does every event the
  constructors return.
\<close>

section \<open>Keys\<close>

record ('sk, 'pk, 'sg) signer =
  PubKey_of :: "'sk \<Rightarrow> 'pk"
  SerializePubKey :: "'pk \<Rightarrow> string"
  SerializeCompressed :: "'pk \<Rightarrow> string"
  Sign_hash :: "'sk \<Rightarrow> string \<Rightarrow> error + 'sg"
  SerializeSig :: "'sg \<Rightarrow> string"

record ('sk, 'pk) KeyPair =
  PrivateKey :: 'sk
  PublicKey :: 'pk
  PubKeyHex :: string

text \<open>\<open>fresh\<close> is what \<^verbatim>\<open>btcec.NewPrivateKey\<close> returns.\<close>

definition GenerateKeyPair :: "('sk, 'pk, 'sg) signer \<Rightarrow> error + 'sk \<Rightarrow> error + ('sk, 'pk) KeyPair" where
  "GenerateKeyPair K fresh =
    (case fresh of
       Inl err \<Rightarrow> Inl err
     | Inr privKey \<Rightarrow> Inr \<lparr>PrivateKey = privKey, PublicKey = PubKey_of K privKey,
         PubKeyHex = EncodeToString (SerializePubKey K (PubKey_of K privKey))\<rparr>)"

text \<open>The event is changed in place; a failure leaves it with the fields set so far.\<close>

definition SignEvent ::
  "('pk, 'sg) crypto \<Rightarrow> ('sk, 'pk, 'sg) signer \<Rightarrow> ('sk, 'pk) KeyPair \<Rightarrow> event \<Rightarrow> event \<times> error option" where
  "SignEvent C K kp e =
    (let e = e\<lparr>PubKey := PubKeyHex kp\<rparr>;
         e = e\<lparr>ID := ComputeID C e\<rparr> in
     case DecodeString (ID e) of
       Inl err \<Rightarrow> (e, Some err)
     | Inr idBytes \<Rightarrow> (case Sign_hash K (PrivateKey kp) idBytes of
         Inl err \<Rightarrow> (e, Some err)
       | Inr sig \<Rightarrow> (e\<lparr>Sig := EncodeToString (SerializeSig K sig)\<rparr>, None)))"

definition unsigned_event :: "int \<Rightarrow> string \<Rightarrow> string slice slice \<Rightarrow> event" where
  "unsigned_event kind content ts = \<lparr>ID = [], PubKey = [], CreatedAt = 1234567890, Kind = kind, Tags = ts,
     Content = content, Sig = []\<rparr>"

definition NewTestEventWithKey ::
  "('pk, 'sg) crypto \<Rightarrow> ('sk, 'pk, 'sg) signer \<Rightarrow> ('sk, 'pk) KeyPair \<Rightarrow> int \<Rightarrow> string \<Rightarrow> string slice slice \<Rightarrow> error + event" where
  "NewTestEventWithKey C K kp kind content ts =
    (case SignEvent C K kp (unsigned_event kind content ts) of
       (e, Some err) \<Rightarrow> Inl err
     | (e, None) \<Rightarrow> Inr e)"

definition NewTestEvent ::
  "('pk, 'sg) crypto \<Rightarrow> ('sk, 'pk, 'sg) signer \<Rightarrow> error + 'sk \<Rightarrow> int \<Rightarrow> string \<Rightarrow> string slice slice \<Rightarrow>
    error + event \<times> ('sk, 'pk) KeyPair" where
  "NewTestEvent C K fresh kind content ts =
    (case GenerateKeyPair K fresh of
       Inl err \<Rightarrow> Inl err
     | Inr kp \<Rightarrow> (case SignEvent C K kp (unsigned_event kind content ts) of
         (e, Some err) \<Rightarrow> Inl err
       | (e, None) \<Rightarrow> Inr (e, kp)))"

definition must :: "error + 'a \<Rightarrow> 'a outcome" where
  "must r = (case r of Inl err \<Rightarrow> Panic | Inr x \<Rightarrow> Ok x)"

definition MustGenerateKeyPair :: "('sk, 'pk, 'sg) signer \<Rightarrow> error + 'sk \<Rightarrow> ('sk, 'pk) KeyPair outcome" where
  "MustGenerateKeyPair K fresh = must (GenerateKeyPair K fresh)"

definition MustNewTestEvent ::
  "('pk, 'sg) crypto \<Rightarrow> ('sk, 'pk, 'sg) signer \<Rightarrow> error + 'sk \<Rightarrow> int \<Rightarrow> string \<Rightarrow> string slice slice \<Rightarrow>
    (event \<times> ('sk, 'pk) KeyPair) outcome" where
  "MustNewTestEvent C K fresh kind content ts = must (NewTestEvent C K fresh kind content ts)"

section \<open>Conversions\<close>

text \<open>A nil pointer is \<open>None\<close>; \<^verbatim>\<open>nostr.Event\<close> has the fields of \<open>event\<close>, and \<^verbatim>\<open>Time().Unix()\<close> gives the seconds of
  a timestamp back.\<close>

definition convertNostrEventToLocalEvent :: "event option \<Rightarrow> event option" where
  "convertNostrEventToLocalEvent ne = map_option (\<lambda>n. n\<lparr>Tags := Some (elems (Tags n))\<rparr>) ne"

text \<open>The fields of \<^verbatim>\<open>nostr.Filter\<close> that are read; its limit is a number, zero for none.\<close>

record nostr_filter =
  nf_IDs :: "string slice"
  nf_Authors :: "string slice"
  nf_Kinds :: "int slice"
  nf_Tags :: "(string, string slice) gomap"
  nf_Since :: "int option"
  nf_Until :: "int option"
  nf_Limit :: int

definition convertNostrFilterToLocalFilter :: "nostr_filter option \<Rightarrow> filt option" where
  "convertNostrFilterToLocalFilter nf = map_option (\<lambda>n.
     \<lparr>IDs = nf_IDs n, Authors = nf_Authors n, Kinds = nf_Kinds n, FTags = foldl (\<lambda>m (k, v). mput k v m) [] (nf_Tags n),
      Since = nf_Since n, Until = nf_Until n, Limit = (if nf_Limit n \<noteq> 0 then Some (nf_Limit n) else None), Search = []\<rparr>) nf"

definition xOnlyToCompressed :: "('pk, 'sg) crypto \<Rightarrow> ('sk, 'pk, 'sg) signer \<Rightarrow> string \<Rightarrow> error + string" where
  "xOnlyToCompressed C K pubkey =
    (case DecodeString pubkey of
       Inl err \<Rightarrow> Inl (wrap_err ''failed to decode public key: '' err)
     | Inr pubKeyBytes \<Rightarrow> (case ParsePubKey C pubKeyBytes of
         Inl err \<Rightarrow> Inl (wrap_err ''failed to parse public key: '' err)
       | Inr parsedPubKey \<Rightarrow> Inr (EncodeToString (SerializeCompressed K parsedPubKey))))"

section \<open>Signed events are valid\<close>

definition signer_laws :: "('pk, 'sg) crypto \<Rightarrow> ('sk, 'pk, 'sg) signer \<Rightarrow> bool" where
  "signer_laws C K \<longleftrightarrow>
    (\<forall>p. length (SerializePubKey K p) = 32 \<and> (\<exists>q. ParsePubKey C (SerializePubKey K p) = Inr q)) \<and>
    (\<forall>s. length (SerializeSig K s) = 64 \<and> ParseSignature C (SerializeSig K s) = Inr s) \<and>
    (\<forall>sk h s q. Sign_hash K sk h = Inr s \<longrightarrow> ParsePubKey C (SerializePubKey K (PubKey_of K sk)) = Inr q \<longrightarrow> SchnorrVerify C s h q)"

lemma SignEvent_done:
  assumes "SignEvent C K kp e = (e', None)"
  obtains s where "Sign_hash K (PrivateKey kp) (sha256 C (Serialize (e\<lparr>PubKey := PubKeyHex kp\<rparr>))) = Inr s"
    "e' = e\<lparr>PubKey := PubKeyHex kp, ID := ComputeID C (e\<lparr>PubKey := PubKeyHex kp\<rparr>), Sig := EncodeToString (SerializeSig K s)\<rparr>"
  using assms by (auto simp: SignEvent_def Let_def ComputeID_def DecodeString_Encode split: sum.splits)

lemma signed_valid:
  assumes laws: "signer_laws C K" and kp: "GenerateKeyPair K fresh = Inr kp" and "0 \<le> Kind e"
    and s: "SignEvent C K kp e = (e', None)"
  shows "Validate C e' = None"
proof -
  obtain sg where sg: "Sign_hash K (PrivateKey kp) (sha256 C (Serialize (e\<lparr>PubKey := PubKeyHex kp\<rparr>))) = Inr sg"
    "e' = e\<lparr>PubKey := PubKeyHex kp, ID := ComputeID C (e\<lparr>PubKey := PubKeyHex kp\<rparr>), Sig := EncodeToString (SerializeSig K sg)\<rparr>"
    by (rule SignEvent_done [OF s])
  have hex: "PubKeyHex kp = EncodeToString (SerializePubKey K (PubKey_of K (PrivateKey kp)))"
    using kp by (auto simp: GenerateKeyPair_def split: sum.splits)
  obtain q where q: "ParsePubKey C (SerializePubKey K (PubKey_of K (PrivateKey kp))) = Inr q"
    using laws unfolding signer_laws_def by blast
  have "Serialize e' = Serialize (e\<lparr>PubKey := PubKeyHex kp\<rparr>)" by (simp add: sg(2) Serialize_def)
  moreover have "SchnorrVerify C sg (sha256 C (Serialize (e\<lparr>PubKey := PubKeyHex kp\<rparr>))) q"
    "length (SerializePubKey K (PubKey_of K (PrivateKey kp))) = 32" "length (SerializeSig K sg) = 64"
    "ParseSignature C (SerializeSig K sg) = Inr sg"
    using laws sg(1) q unfolding signer_laws_def by blast+
  ultimately show ?thesis
    unfolding Validate_spec using assms(3) q by (simp add: sg(2) hex ComputeID_def DecodeString_Encode)
qed

text \<open>C20: With curve operations that keep their promises, an event made for a fresh key, of any kind that is not
  negative, passes the relay's validation, carries the kind, content and tags it was made with and the
  key's public half; and signing any event keeps its fields but those it sets.\<close>

theorem new_event_valid:
  assumes "signer_laws C K" "0 \<le> kind" "NewTestEvent C K fresh kind content ts = Inr (e, kp)"
  shows "Validate C e = None \<and> PubKey e = PubKeyHex kp \<and> Kind e = kind \<and> Content e = content \<and> Tags e = ts \<and>
    NewTestEventWithKey C K kp kind content ts = Inr e"
proof -
  have kp: "GenerateKeyPair K fresh = Inr kp" and s: "SignEvent C K kp (unsigned_event kind content ts) = (e, None)"
    using assms(3) by (auto simp: NewTestEvent_def split: sum.splits prod.splits option.splits)
  have "Validate C e = None" by (rule signed_valid [OF assms(1) kp _ s]) (simp add: unsigned_event_def assms(2))
  moreover have "NewTestEventWithKey C K kp kind content ts = Inr e" by (simp add: NewTestEventWithKey_def s)
  moreover have "PubKey e = PubKeyHex kp \<and> Kind e = kind \<and> Content e = content \<and> Tags e = ts"
    by (rule SignEvent_done [OF s]) (simp add: unsigned_event_def)
  ultimately show ?thesis by blast
qed

definition sample_signer :: "(unit, unit, unit) signer" where
  "sample_signer = \<lparr>PubKey_of = (\<lambda>_. ()), SerializePubKey = (\<lambda>_. replicate 32 (CHR ''k'')),
     SerializeCompressed = (\<lambda>_. replicate 33 (CHR ''k'')), Sign_hash = (\<lambda>_ _. Inr ()), SerializeSig = (\<lambda>_. replicate 64 (CHR ''s''))\<rparr>"

lemma sample_signer_laws: "signer_laws sample_crypto sample_signer"
  by (simp add: signer_laws_def sample_signer_def sample_crypto_def)

lemma new_event_valid_witness:
  "\<exists>e kp. NewTestEvent sample_crypto sample_signer (Inr ()) 1 ''hi'' None = Inr (e, kp) \<and> Validate sample_crypto e = None \<and> Content e = ''hi''"
proof -
  obtain e kp where e: "NewTestEvent sample_crypto sample_signer (Inr ()) 1 ''hi'' None = Inr (e, kp)"
    by (simp add: NewTestEvent_def GenerateKeyPair_def SignEvent_def ComputeID_def DecodeString_Encode Let_def sample_signer_def
      del: EncodeToString.simps)
  with new_event_valid [OF sample_signer_laws _ this] show ?thesis by auto
qed

end
