(* ===== verification/TestClient.thy ===== *)
theory TestClient
  imports Wire TestKeys "HOL-Library.List_Lexorder" "HOL-Library.Char_ord"
begin

text \<open>
  The client of the integration tests, \<^verbatim>\<open>internal/testutil/wsclient.go\<close>: what it writes and how it waits
  for the relay's answers. The connection is the list of what its reads will return, texts or an error
  (which stays: a connection that failed to read never reads again), and the texts written so far. A
  wait whose reads are all used up has not returned yet (\<open>None\<close>); with a deadline the reads end in an error.

  Proved, against the relay: a filter is understood as it was meant; a wait for an OK, and the
  collection of stored events, return what the relay answered whatever messages come between; and
  a query and a publication from the client's call to its return.
\<close>

section \<open>Filters as JSON\<close>

text \<open>\<^verbatim>\<open>json.Marshal\<close> of a \<^verbatim>\<open>Filter\<close>: empty fields are left out but \<^verbatim>\<open>Tags\<close>, whose members are sorted by name;
  \<open>n\<close> tells a nil map from an empty one.\<close>

definition given :: "bool \<Rightarrow> string \<Rightarrow> json \<Rightarrow> (string \<times> json) list" where
  "given b k v = (if b then [(k, v)] else [])"

definition given_int :: "string \<Rightarrow> int option \<Rightarrow> (string \<times> json) list" where
  "given_int k p = (case p of None \<Rightarrow> [] | Some i \<Rightarrow> [(k, JNumber (show_int i))])"

definition tag_map_value :: "bool \<Rightarrow> (string, string slice) gomap \<Rightarrow> json" where
  "tag_map_value n m =
    (if n \<and> m = [] then JNull else JObject (map (\<lambda>(k, vs). (k, slice_value JString vs)) (sort_key fst m)))"

definition filter_value :: "bool \<Rightarrow> filt \<Rightarrow> json" where
  "filter_value n f = JObject
     (given (elems (IDs f) \<noteq> []) ''ids'' (slice_value JString (IDs f)) @
      given (elems (Authors f) \<noteq> []) ''authors'' (slice_value JString (Authors f)) @
      given (elems (Kinds f) \<noteq> []) ''kinds'' (slice_value (\<lambda>k. JNumber (show_int k)) (Kinds f)) @
      [(''Tags'', tag_map_value n (FTags f))] @
      given_int ''since'' (Since f) @ given_int ''until'' (Until f) @ given_int ''limit'' (Limit f) @
      given (Search f \<noteq> []) ''search'' (JString (Search f)))"

section \<open>The connection\<close>

record WSClient =
  incoming :: "(error + string) list"
  outgoing :: "string list"
  broken :: "error option"
  deadline :: "int option"
  ws_events :: "(string, event list) gomap"

text \<open>\<open>dial\<close> is the dialer: an error, or what the new connection will deliver.\<close>

definition NewWSClientWithDialer :: "string \<Rightarrow> (string \<Rightarrow> error + (error + string) list) \<Rightarrow> error + WSClient" where
  "NewWSClientWithDialer url dial =
    (case dial url of
       Inl err \<Rightarrow> Inl (wrap_err ''failed to dial: '' err)
     | Inr rs \<Rightarrow> Inr \<lparr>incoming = rs, outgoing = [], broken = None, deadline = None, ws_events = []\<rparr>)"

definition NewWSClient :: "(string \<Rightarrow> error + (error + string) list) \<Rightarrow> string \<Rightarrow> error + WSClient" where
  "NewWSClient DefaultDialer url = NewWSClientWithDialer url DefaultDialer"

text \<open>\<open>why\<close> is the error every use of the closed connection gives.\<close>

definition Close_ws :: "error \<Rightarrow> WSClient \<Rightarrow> WSClient" where
  "Close_ws why c = c\<lparr>incoming := [Inl why], broken := Some why\<rparr>"

definition SetReadDeadline :: "int option \<Rightarrow> WSClient \<Rightarrow> WSClient" where
  "SetReadDeadline t c = c\<lparr>deadline := t\<rparr>"

text \<open>\<^verbatim>\<open>WriteJSON\<close> ends the text with a newline.\<close>

definition WriteJSON :: "json \<Rightarrow> WSClient \<Rightarrow> WSClient \<times> error option" where
  "WriteJSON j c =
    (case broken c of
       Some err \<Rightarrow> (c, Some err)
     | None \<Rightarrow> (c\<lparr>outgoing := outgoing c @ [json_text j @ [CHR 0x0A]]\<rparr>, None))"

definition ws_SendEvent :: "event \<Rightarrow> WSClient \<Rightarrow> WSClient \<times> error option" where
  "ws_SendEvent e c = WriteJSON (JArray [JString ''EVENT'', event_value e]) c"

definition ws_SendReq :: "string \<Rightarrow> (bool \<times> filt) list \<Rightarrow> WSClient \<Rightarrow> WSClient \<times> error option" where
  "ws_SendReq sub fs c = WriteJSON (JArray ([JString ''REQ'', JString sub] @ map (\<lambda>(n, f). filter_value n f) fs)) c"

definition ws_SendClose :: "string \<Rightarrow> WSClient \<Rightarrow> WSClient \<times> error option" where
  "ws_SendClose sub c = WriteJSON (JArray [JString ''CLOSE'', JString sub]) c"

definition SendCountMessage :: "string \<Rightarrow> bool \<times> filt \<Rightarrow> WSClient \<Rightarrow> WSClient \<times> error option" where
  "SendCountMessage countID f c = WriteJSON (JArray [JString ''COUNT'', JString countID, case f of (n, g) \<Rightarrow> filter_value n g]) c"

section \<open>Reading a message\<close>

text \<open>A number decoded into an \<^verbatim>\<open>interface{}\<close> becomes a \<^verbatim>\<open>float64\<close>; one that rounds beyond the largest is an error.
  (\<^verbatim>\<open>ParseFloat\<close> stops counting at an exponent of five digits.)\<close>

definition exponent_of :: "string \<Rightarrow> int" where
  "exponent_of s =
    (let (neg, ds) = (case s of [] \<Rightarrow> (False, []) | c # r \<Rightarrow>
         if c = CHR ''-'' then (True, r) else if c = CHR ''+'' then (False, r) else (False, s));
         e = foldl (\<lambda>e c. if e < 10000 then 10 * e + (int (byte c) - 48) else e) 0 (takeWhile digit ds)
     in if neg then - e else e)"

definition float_range :: "string \<Rightarrow> bool" where
  "float_range t =
    (let s = (if HasPrefix t ''-'' then tl t else t);
         i = takeWhile digit s; r = dropWhile digit s;
         f = (if HasPrefix r ''.'' then takeWhile digit (tl r) else []);
         r' = (if HasPrefix r ''.'' then dropWhile digit (tl r) else r);
         e = (if r' = [] then 0 else exponent_of (tl r')) - int (length f);
         m = digits_val (i @ f); bound = 2 ^ 1024 - 2 ^ 970
     in if 0 \<le> e then m * 10 ^ nat e < bound else m < bound * 10 ^ nat (- e))"

function numbers_ok :: "json \<Rightarrow> bool" where
  "numbers_ok (JNumber n) = float_range n"
| "numbers_ok (JArray xs) = list_all numbers_ok xs"
| "numbers_ok (JObject kvs) = list_all (\<lambda>kv. numbers_ok (snd kv)) kvs"
| "numbers_ok (JString s) = True"
| "numbers_ok (JBool b) = True"
| "numbers_ok JNull = True"
  by pat_completeness auto
termination
  by (relation "measure size") (auto dest: size_member size_element)

text \<open>\<^verbatim>\<open>ReadJSON\<close> decodes the first value of a text. \<open>syntax\<close> is the text of its error.\<close>

definition read_raw :: "('pk, 'sg) codec \<Rightarrow> (string \<Rightarrow> error) \<Rightarrow> string \<Rightarrow> error + json list" where
  "read_raw D syntax text =
    (case parse_value max_depth text of
       None \<Rightarrow> Inl (syntax text)
     | Some (j, _) \<Rightarrow> (case j of JArray js \<Rightarrow> Inr js | JNull \<Rightarrow> Inr [] | _ \<Rightarrow> Inl (cd_error D j)))"

text \<open>The items of a message are its type and generic values (only strings and booleans are looked at).\<close>

definition read_items :: "('pk, 'sg) codec \<Rightarrow> (string \<Rightarrow> error) \<Rightarrow> string \<Rightarrow> error + json list" where
  "read_items D syntax text =
    (case read_raw D syntax text of
       Inl err \<Rightarrow> Inl err
     | Inr msg \<Rightarrow>
         if length msg = 0 then Inl (ErrorString ''empty message'')
         else (case as_string (msg ! 0) [] of
           None \<Rightarrow> Inl (cd_error D (msg ! 0))
         | Some msgType \<Rightarrow> (case find (\<lambda>j. \<not> numbers_ok j) (tl msg) of
             Some j \<Rightarrow> Inl (cd_error D j)
           | None \<Rightarrow> Inr (JString msgType # tl msg))))"

text \<open>The loop of the waits: messages are read and passed to \<open>step\<close>, which goes on (\<open>Inl\<close>) or returns.\<close>

fun read_until ::
  "(string \<Rightarrow> error + 'm) \<Rightarrow> ('a \<Rightarrow> 'm \<Rightarrow> 'a + (error + 'b)) \<Rightarrow> 'a \<Rightarrow> (error + string) list \<Rightarrow>
    ((error + string) list \<times> (error + 'b)) option" where
  "read_until rd step a [] = None"
| "read_until rd step a (Inl err # rs) = Some (Inl err # rs, Inl err)"
| "read_until rd step a (Inr text # rs) =
     (case rd text of
        Inl err \<Rightarrow> Some (rs, Inl err)
      | Inr msg \<Rightarrow> (case step a msg of Inl a' \<Rightarrow> read_until rd step a' rs | Inr res \<Rightarrow> Some (rs, res)))"

definition reading ::
  "(string \<Rightarrow> error + 'm) \<Rightarrow> ('a \<Rightarrow> 'm \<Rightarrow> 'a + (error + 'b)) \<Rightarrow> 'a \<Rightarrow> WSClient \<Rightarrow> (WSClient \<times> (error + 'b)) option" where
  "reading rd step a c = map_option (\<lambda>(rs, res). (c\<lparr>incoming := rs\<rparr>, res)) (read_until rd step a (incoming c))"

definition ReadMessage :: "('pk, 'sg) codec \<Rightarrow> (string \<Rightarrow> error) \<Rightarrow> WSClient \<Rightarrow> (WSClient \<times> (error + json list)) option" where
  "ReadMessage D syntax c = reading (read_items D syntax) (\<lambda>_ msg. Inr (Inr msg)) () c"

section \<open>Waiting\<close>

text \<open>Every wait sets a deadline, \<open>now\<close> and the timeout, and resets it when it returns.\<close>

definition waiting :: "int \<Rightarrow> (WSClient \<Rightarrow> (WSClient \<times> 'b) option) \<Rightarrow> WSClient \<Rightarrow> (WSClient \<times> 'b) option" where
  "waiting t f c = map_option (\<lambda>(c', res). (SetReadDeadline None c', res)) (f (SetReadDeadline (Some t) c))"

definition ok_step :: "string \<Rightarrow> unit \<Rightarrow> json list \<Rightarrow> unit + (error + bool \<times> string)" where
  "ok_step eventID u msg =
    (if length msg < 3 then Inl u
     else if msg ! 0 \<noteq> JString ''OK'' then Inl u
     else if msg ! 1 \<noteq> JString eventID then Inl u
     else (case msg ! 2 of
       JBool b \<Rightarrow> Inr (Inr (b, if 3 < length msg then (case msg ! 3 of JString m \<Rightarrow> m | _ \<Rightarrow> []) else []))
     | _ \<Rightarrow> Inr (Inl (ErrorString ''invalid OK message format''))))"

definition ExpectOK ::
  "('pk, 'sg) codec \<Rightarrow> (string \<Rightarrow> error) \<Rightarrow> int \<Rightarrow> string \<Rightarrow> int \<Rightarrow> WSClient \<Rightarrow> (WSClient \<times> (error + bool \<times> string)) option" where
  "ExpectOK D syntax now eventID timeout c =
    waiting (now + timeout) (reading (read_items D syntax) (ok_step eventID) ()) c"

definition event_step :: "('pk, 'sg) codec \<Rightarrow> string \<Rightarrow> unit \<Rightarrow> json list \<Rightarrow> unit + (error + event)" where
  "event_step D subID u msg =
    (if length msg < 3 then Inl u
     else (case as_string (msg ! 0) [] of
       None \<Rightarrow> Inr (Inl (cd_error D (msg ! 0)))
     | Some msgType \<Rightarrow>
         if msgType \<noteq> ''EVENT'' then Inl u
         else (case as_string (msg ! 1) [] of
           None \<Rightarrow> Inr (Inl (cd_error D (msg ! 1)))
         | Some receivedSubID \<Rightarrow>
             if receivedSubID \<noteq> subID then Inl u
             else (case as_event (cd_unicode D) (msg ! 2) of
               None \<Rightarrow> Inr (Inl (cd_error D (msg ! 2)))
             | Some e \<Rightarrow> Inr (Inr e)))))"

definition ExpectEvent ::
  "('pk, 'sg) codec \<Rightarrow> (string \<Rightarrow> error) \<Rightarrow> int \<Rightarrow> string \<Rightarrow> int \<Rightarrow> WSClient \<Rightarrow> (WSClient \<times> (error + event)) option" where
  "ExpectEvent D syntax now subID timeout c =
    waiting (now + timeout) (reading (read_raw D syntax) (event_step D subID) ()) c"

definition eose_step :: "string \<Rightarrow> unit \<Rightarrow> json list \<Rightarrow> unit + (error + unit)" where
  "eose_step subID u msg =
    (if length msg < 2 then Inl u
     else if msg ! 0 \<noteq> JString ''EOSE'' then Inl u
     else if msg ! 1 \<noteq> JString subID then Inl u
     else Inr (Inr ()))"

definition ExpectEOSE ::
  "('pk, 'sg) codec \<Rightarrow> (string \<Rightarrow> error) \<Rightarrow> int \<Rightarrow> string \<Rightarrow> int \<Rightarrow> WSClient \<Rightarrow> (WSClient \<times> (error + unit)) option" where
  "ExpectEOSE D syntax now subID timeout c =
    waiting (now + timeout) (reading (read_items D syntax) (eose_step subID) ()) c"

definition notice_step :: "unit \<Rightarrow> json list \<Rightarrow> unit + (error + string)" where
  "notice_step u msg =
    (if length msg < 2 then Inl u
     else if msg ! 0 \<noteq> JString ''NOTICE'' then Inl u
     else (case msg ! 1 of JString notice \<Rightarrow> Inr (Inr notice) | _ \<Rightarrow> Inr (Inl (ErrorString ''invalid NOTICE format''))))"

definition ExpectNotice ::
  "('pk, 'sg) codec \<Rightarrow> (string \<Rightarrow> error) \<Rightarrow> int \<Rightarrow> int \<Rightarrow> WSClient \<Rightarrow> (WSClient \<times> (error + string)) option" where
  "ExpectNotice D syntax now timeout c =
    waiting (now + timeout) (reading (read_items D syntax) notice_step ()) c"

definition closed_step :: "string \<Rightarrow> unit \<Rightarrow> json list \<Rightarrow> unit + (error + string)" where
  "closed_step subID u msg =
    (if length msg < 3 then Inl u
     else if msg ! 0 \<noteq> JString ''CLOSED'' then Inl u
     else if msg ! 1 \<noteq> JString subID then Inl u
     else Inr (Inr (case msg ! 2 of JString reason \<Rightarrow> reason | _ \<Rightarrow> [])))"

definition ExpectClosed ::
  "('pk, 'sg) codec \<Rightarrow> (string \<Rightarrow> error) \<Rightarrow> int \<Rightarrow> string \<Rightarrow> int \<Rightarrow> WSClient \<Rightarrow> (WSClient \<times> (error + string)) option" where
  "ExpectClosed D syntax now subID timeout c =
    waiting (now + timeout) (reading (read_items D syntax) (closed_step subID) ()) c"

definition collect_step :: "('pk, 'sg) codec \<Rightarrow> string \<Rightarrow> event list \<Rightarrow> json list \<Rightarrow> event list + (error + event list)" where
  "collect_step D subID es msg =
    (if length msg < 2 then Inl es
     else (case as_string (msg ! 0) [] of
       None \<Rightarrow> Inr (Inl (cd_error D (msg ! 0)))
     | Some msgType \<Rightarrow> (case as_string (msg ! 1) [] of
         None \<Rightarrow> Inr (Inl (cd_error D (msg ! 1)))
       | Some receivedSubID \<Rightarrow>
           if receivedSubID \<noteq> subID then Inl es
           else if msgType = ''EVENT'' then
             (if length msg < 3 then Inl es
              else (case as_event (cd_unicode D) (msg ! 2) of
                None \<Rightarrow> Inr (Inl (cd_error D (msg ! 2)))
              | Some e \<Rightarrow> Inl (es @ [e])))
           else if msgType = ''EOSE'' then Inr (Inr es)
           else Inl es)))"

definition CollectEvents ::
  "('pk, 'sg) codec \<Rightarrow> (string \<Rightarrow> error) \<Rightarrow> int \<Rightarrow> string \<Rightarrow> int \<Rightarrow> WSClient \<Rightarrow> (WSClient \<times> (error + event list)) option" where
  "CollectEvents D syntax now subID timeout c =
    waiting (now + timeout) (reading (read_raw D syntax) (collect_step D subID) []) c"

section \<open>A filter is understood as it was meant\<close>

text \<open>The filter the relay reads: empty slices become nil, the tags are sorted by name.\<close>

definition none_empty :: "'a slice \<Rightarrow> 'a slice" where
  "none_empty s = (if elems s = [] then None else s)"

definition read_filter :: "filt \<Rightarrow> filt" where
  "read_filter f = f\<lparr>IDs := none_empty (IDs f), Authors := none_empty (Authors f), Kinds := none_empty (Kinds f),
     FTags := sort_key fst (FTags f)\<rparr>"

definition utf8_slice :: "string slice \<Rightarrow> bool" where
  "utf8_slice s = list_all valid_utf8 (elems s)"

definition wire_filter :: "filt \<Rightarrow> bool" where
  "wire_filter f \<longleftrightarrow> utf8_slice (IDs f) \<and> utf8_slice (Authors f) \<and> list_all in64 (elems (Kinds f)) \<and> wf_map (FTags f) \<and>
     list_all (\<lambda>(k, vs). valid_utf8 k \<and> utf8_slice vs) (FTags f) \<and> valid_utf8 (Search f) \<and>
     pred_option in64 (Since f) \<and> pred_option in64 (Until f) \<and> pred_option in64 (Limit f)"

lemma members_append: "members g (xs @ ys) x = (case members g xs x of None \<Rightarrow> None | Some y \<Rightarrow> members g ys y)"
  by (induction xs arbitrary: x) (auto split: option.splits)

lemma members_given: "members g (given b k v) x = (if b then g k v x else Some x)"
  by (simp add: given_def split: option.split)

lemma members_given_int:
  "members g (given_int k p) x = (case p of None \<Rightarrow> Some x | Some i \<Rightarrow> g k (JNumber (show_int i)) x)"
  by (simp add: given_int_def split: option.split)

lemma filter_names:
  "\<not> name_is U ''authors'' ''ids''" "\<not> name_is U ''kinds'' ''ids''" "\<not> name_is U ''kinds'' ''authors''"
  "\<not> name_is U ''Tags'' ''ids''" "\<not> name_is U ''Tags'' ''authors''" "\<not> name_is U ''Tags'' ''kinds''"
  "\<not> name_is U ''since'' ''ids''" "\<not> name_is U ''since'' ''authors''" "\<not> name_is U ''since'' ''Tags''"
  "\<not> name_is U ''until'' ''ids''" "\<not> name_is U ''until'' ''authors''" "\<not> name_is U ''until'' ''Tags''"
  "\<not> name_is U ''limit'' ''ids''" "\<not> name_is U ''limit'' ''authors''" "\<not> name_is U ''limit'' ''Tags''"
  "\<not> name_is U ''search'' ''ids''" "\<not> name_is U ''search'' ''authors''" "\<not> name_is U ''search'' ''kinds''"
  "\<not> name_is U ''search'' ''Tags''" "\<not> name_is U ''search'' ''since''" "\<not> name_is U ''search'' ''until''"
  "\<not> name_is U ''search'' ''limit''"
  by (auto dest!: name_is_length simp: ascii_def)

lemma filter_names5:
  "\<not> name_is U ''since'' ''kinds''" "\<not> name_is U ''until'' ''kinds''" "\<not> name_is U ''limit'' ''kinds''"
  "\<not> name_is U ''until'' ''since''" "\<not> name_is U ''limit'' ''since''" "\<not> name_is U ''limit'' ''until''"
  by (simp_all add: name_is_def EqualFold_def utf8_first_def fold_rune_def ascii_lower_def Let_def)

lemma as_strings_none_empty: "as_strings (slice_value JString s) = Some s"
  by (rule as_strings_value)

lemma decode_all_ints: "list_all in64 ks \<Longrightarrow> decode_all (\<lambda>x. as_int x 0) (map (\<lambda>k. JNumber (show_int k)) ks) = Some ks"
  by (induction ks) (simp_all add: ParseInt_show_int)

lemma as_ints_value: "list_all in64 (elems ks) \<Longrightarrow> as_ints (slice_value (\<lambda>k. JNumber (show_int k)) ks) = Some ks"
  by (cases ks) (simp_all add: slice_value_def as_ints_def decode_all_ints)

lemma mput_fresh: "k \<notin> fst ` set m \<Longrightarrow> mput k v m = m @ [(k, v)]"
  by (induction m) (auto simp: mput_def)

lemma as_tag_map_entries:
  "distinct (map fst (m0 @ es)) \<Longrightarrow>
    members (\<lambda>key v m. map_option (\<lambda>x. mput key x m) (as_strings v)) (map (\<lambda>(k, vs). (k, slice_value JString vs)) es) m0 = Some (m0 @ es)"
proof (induction es arbitrary: m0)
  case (Cons kv es)
  obtain k vs where kv: "kv = (k, vs)" by (cases kv)
  then have "mput k vs m0 = m0 @ [kv]" using Cons.prems by (auto intro: mput_fresh)
  then show ?case using Cons.IH [of "m0 @ [kv]"] Cons.prems by (simp add: kv as_strings_value)
qed simp

lemma as_tag_map_value: "wf_map m \<Longrightarrow> as_tag_map (tag_map_value n m) [] = Some (sort_key fst m)"
proof -
  assume "wf_map m"
  moreover have "mset (map fst (sort_key fst m)) = mset (map fst m)" by simp
  ultimately have "distinct (map fst (sort_key fst m))" unfolding wf_map_def by (metis mset_eq_imp_distinct_iff)
  with as_tag_map_entries [of "[]" "sort_key fst m"] show ?thesis by (simp add: tag_map_value_def)
qed

lemma tag_members_none: "list_all (\<lambda>k. hd k \<noteq> CHR ''#'') (map fst kvs) \<Longrightarrow> tag_members kvs m = Some m"
  by (induction kvs) auto

lemma mput_keys: "fst ` set (mput k v m) = insert k (fst ` set m)"
  by (induction m) (auto simp: mput_def)

lemma raw_map_keys: "fst ` set (foldl (\<lambda>m (k, v). mput k v m) m0 kvs) = fst ` set m0 \<union> fst ` set kvs"
proof (induction kvs arbitrary: m0)
  case (Cons kv kvs)
  then show ?case by (cases kv) (simp add: mput_keys)
qed simp

lemma filter_value_fields:
  assumes "wire_filter f"
  shows "as_struct (filter_member U) zero_filter (filter_value n f) = Some (read_filter f)"
proof (cases f)
  case (fields ids authors kinds ts since until limit search)
  have "in64 i" if "since = Some i \<or> until = Some i \<or> limit = Some i" for i
    using assms that by (auto simp: wire_filter_def fields)
  then show ?thesis
    using assms
    by (cases since; cases until; cases limit)
      (simp_all add: fields filter_value_def members_append members_given members_given_int filter_member_def filter_names
        filter_names5 names_same as_strings_value as_ints_value as_tag_map_value wire_filter_def zero_filter_def read_filter_def
        none_empty_def ParseInt_show_int)
qed

lemma filter_value_decodes:
  assumes "wire_filter f"
  shows "UnmarshalJSON U (filter_value n f) = Some (read_filter f)"
proof -
  obtain kvs where kvs: "filter_value n f = JObject kvs" "list_all (\<lambda>k. hd k \<noteq> CHR ''#'') (map fst kvs)"
    by (simp add: filter_value_def given_def given_int_def split: option.split)
  have "as_raw_map (filter_value n f) = Some (foldl (\<lambda>m (k, v). mput k v m) [] kvs)" by (simp add: kvs(1))
  moreover have "list_all (\<lambda>k. hd k \<noteq> CHR ''#'') (map fst (foldl (\<lambda>m (k, v). mput k v m) [] kvs))"
    using kvs(2) raw_map_keys [of "[]" kvs] by (auto simp: list_all_iff)
  ultimately show ?thesis
    by (simp add: UnmarshalJSON_def filter_value_fields [OF assms] tag_members_none read_filter_def)
qed

lemma filter_names_utf8 [simp]:
  "valid_utf8 ''ids''" "valid_utf8 ''authors''" "valid_utf8 ''kinds''" "valid_utf8 ''Tags''" "valid_utf8 ''since''"
  "valid_utf8 ''until''" "valid_utf8 ''limit''" "valid_utf8 ''search''" "valid_utf8 ''REQ''" "valid_utf8 ''CLOSE''"
  by (rule ascii_valid_utf8, simp add: ascii_def)+

lemma slice_printable: "utf8_slice s \<Longrightarrow> printable (Suc d) (slice_value JString s)"
  by (cases s) (auto simp: slice_value_def utf8_slice_def list_all_iff)

lemma ints_printable: "printable (Suc d) (slice_value (\<lambda>k. JNumber (show_int k)) s)"
  by (cases s) (auto simp: slice_value_def list_all_iff show_int_number)

lemma tag_map_printable:
  "list_all (\<lambda>(k, vs). valid_utf8 k \<and> utf8_slice vs) m \<Longrightarrow> printable (Suc (Suc d)) (tag_map_value n m)"
  by (auto simp: tag_map_value_def list_all_iff slice_printable simp del: valid_utf8.simps)

lemma filter_value_printable: "wire_filter f \<Longrightarrow> printable (Suc (Suc (Suc d))) (filter_value n f)"
  by (auto simp: wire_filter_def filter_value_def given_def given_int_def slice_printable ints_printable tag_map_printable
    show_int_number simp del: valid_utf8.simps split: option.split)

lemma Matches_read_filter: "Matches e (read_filter f) = Matches e f"
proof -
  have e: "elems (none_empty s) = elems s" for s :: "'a slice" by (simp add: none_empty_def)
  have "set (sort_key fst (FTags f)) = set (FTags f)" by simp
  then have "matches_tags e (sort_key fst (FTags f)) = matches_tags e (FTags f)" unfolding matches_tags_iff by simp
  then show ?thesis by (simp add: Matches_def read_filter_def e)
qed

section \<open>Requests\<close>

definition req_value :: "string \<Rightarrow> (bool \<times> filt) list \<Rightarrow> json" where
  "req_value sub fs = JArray ([JString ''REQ'', JString sub] @ map (\<lambda>(n, f). filter_value n f) fs)"

lemma sent_text: "broken c = None \<Longrightarrow> WriteJSON j c = (c\<lparr>outgoing := outgoing c @ [json_text j @ [CHR 0x0A]]\<rparr>, None)"
  by (simp add: WriteJSON_def)

lemma sent_req: "broken c = None \<Longrightarrow>
    ws_SendReq sub fs c = (c\<lparr>outgoing := outgoing c @ [json_text (req_value sub fs) @ [CHR 0x0A]]\<rparr>, None)"
  by (simp add: ws_SendReq_def req_value_def sent_text)

lemma line_parses:
  assumes "printable max_depth j"
  shows "parse_json (json_text j @ [CHR 0x0A]) = Some j"
proof -
  have "stops [CHR 0x0A]" by (simp add: stops_def digit_def)
  from parse_value_text [OF assms this] show ?thesis by (simp add: parse_json_def skip_def json_space_def)
qed

lemma req_printable:
  assumes "valid_utf8 sub" "list_all (\<lambda>(n, f). wire_filter f) fs"
  shows "printable (Suc (Suc (Suc (Suc d)))) (req_value sub fs)"
proof -
  have "printable (Suc (Suc (Suc d))) (filter_value n f)" if "(n, f) \<in> set fs" for n f
    using assms(2) that by (intro filter_value_printable) (auto simp: list_all_iff)
  then show ?thesis unfolding req_value_def using assms(1) by (auto simp: list_all_iff simp del: valid_utf8.simps)
qed

lemma req_parses:
  assumes "valid_utf8 sub" "list_all (\<lambda>(n, f). wire_filter f) fs"
  shows "parse_json (json_text (req_value sub fs) @ [CHR 0x0A]) = Some (req_value sub fs)"
  by (rule line_parses) (unfold max_depth_Suc, rule req_printable [OF assms])

lemma req_filters:
  assumes "list_all (\<lambda>(n, f). wire_filter f) fs"
  shows "parse_filters D (map (\<lambda>(n, f). filter_value n f) fs) = Inr (map (\<lambda>(n, f). read_filter f) fs)"
proof -
  have d: "UnmarshalJSON (cd_unicode D) (filter_value n f) = Some (read_filter f)" if "(n, f) \<in> set fs" for n f
    using assms that by (intro filter_value_decodes) (auto simp: list_all_iff)
  then have "find (\<lambda>j. UnmarshalJSON (cd_unicode D) j = None) (map (\<lambda>(n, f). filter_value n f) fs) = None"
    by (auto simp: find_None_iff)
  then show ?thesis using d by (auto simp: parse_filters_def)
qed

text \<open>C19: The bytes the test client writes for a query parse to the message it means: every filter is decoded to
  one that matches the same events, in the same order of filters, with the same bounds and the same
  limit, so the relay handles the REQ it was sent.\<close>

theorem req_wire_roundtrip:
  assumes "broken c = None" "valid_utf8 sub" "list_all (\<lambda>(n, f). wire_filter f) fs"
  shows "\<exists>text js. ws_SendReq sub fs c = (c\<lparr>outgoing := outgoing c @ [text]\<rparr>, None) \<and>
    parse_json text = Some (JArray ([JString ''REQ'', JString sub] @ js)) \<and>
    parse_filters D js = Inr (map (\<lambda>(n, f). read_filter f) fs) \<and>
    (\<forall>(n, f) \<in> set fs. \<forall>e. Matches e (read_filter f) = Matches e f)"
proof (intro exI conjI)
  show "ws_SendReq sub fs c = (c\<lparr>outgoing := outgoing c @ [json_text (req_value sub fs) @ [CHR 0x0A]]\<rparr>, None)"
    by (rule sent_req [OF assms(1)])
  show "parse_json (json_text (req_value sub fs) @ [CHR 0x0A]) =
      Some (JArray ([JString ''REQ'', JString sub] @ map (\<lambda>(n, f). filter_value n f) fs))"
    using req_parses [OF assms(2,3)] by (simp add: req_value_def)
  show "parse_filters D (map (\<lambda>(n, f). filter_value n f) fs) = Inr (map (\<lambda>(n, f). read_filter f) fs)"
    by (rule req_filters [OF assms(3)])
qed (auto simp: Matches_read_filter)

definition test_filter :: filt where
  "test_filter = \<lparr>IDs = Some [], Authors = None, Kinds = Some [1], FTags = [(''t'', Some [''go'']), (''e'', Some [''ff''])],
     Since = Some (- 5), Until = None, Limit = Some 10, Search = []\<rparr>"

lemma test_filter_wire: "wire_filter test_filter"
  by (simp add: test_filter_def wire_filter_def utf8_slice_def in64_def wf_map_def ascii_valid_utf8 ascii_def del: valid_utf8.simps)

definition new_client :: WSClient where
  "new_client = \<lparr>incoming = [], outgoing = [], broken = None, deadline = None, ws_events = []\<rparr>"

lemma req_wire_roundtrip_witness:
  "\<exists>text js. ws_SendReq ''s'' [(False, test_filter)] new_client = (new_client\<lparr>outgoing := outgoing new_client @ [text]\<rparr>, None) \<and>
    parse_json text = Some (JArray ([JString ''REQ'', JString ''s''] @ js)) \<and>
    parse_filters (en_codec sample_env) js = Inr [read_filter test_filter]"
proof -
  have "broken new_client = None" "valid_utf8 ''s''" "list_all (\<lambda>(n, f). wire_filter f) [(False, test_filter)]"
    using test_filter_wire by (simp_all add: new_client_def ascii_valid_utf8 ascii_def del: valid_utf8.simps)
  from req_wire_roundtrip [OF this, of "en_codec sample_env"] show ?thesis by auto
qed

section \<open>What the relay writes can be read\<close>

definition relay_msg :: "msg \<Rightarrow> bool" where
  "relay_msg m \<longleftrightarrow> wire_msg m \<and> (case m of MCount i n b \<Rightarrow> in64 n | _ \<Rightarrow> True)"

definition items :: "msg \<Rightarrow> json list" where
  "items m = (case msg_value m of JArray js \<Rightarrow> js | _ \<Rightarrow> [])"

lemma float_range_int: "in64 i \<Longrightarrow> float_range (show_int i)"
proof -
  assume i: "in64 i"
  have n: "\<not> HasPrefix (show_nat n) ''-''" for n
    using show_nat_hd [of n] by (cases "show_nat n") auto
  have s: "(if HasPrefix (show_int i) ''-'' then tl (show_int i) else show_int i) = show_nat (nat \<bar>i\<bar>)"
    using n [of "nat i"] by (auto simp: show_int_def)
  have "list_all digit (show_nat n)" for n by (rule show_nat_digits)
  then have d: "takeWhile digit (show_nat n) = show_nat n" "dropWhile digit (show_nat n) = []" for n
    by (auto simp: list_all_iff)
  have "nat \<bar>i\<bar> \<le> 2 ^ 63" using i by (auto simp: in64_def)
  also have "(2 :: nat) ^ 63 < 2 ^ 1024 - 2 ^ 970" by simp
  finally show ?thesis unfolding float_range_def s Let_def d by (simp add: digits_val_show_nat)
qed

lemma numbers_ok_slice: "(\<And>x. numbers_ok (g x)) \<Longrightarrow> numbers_ok (slice_value g s)"
  by (cases s) (simp_all add: slice_value_def list_all_iff)

lemma event_numbers_ok: "wire_event e \<Longrightarrow> numbers_ok (event_value e)"
  by (simp add: event_value_def wire_event_def float_range_int numbers_ok_slice)

lemma items_ok: "relay_msg m \<Longrightarrow> list_all numbers_ok (items m)"
  by (cases m) (simp_all add: items_def relay_msg_def event_numbers_ok float_range_int)

lemma msg_value_items: "msg_value m = JArray (items m)"
  by (cases m) (simp_all add: items_def)

lemma read_raw_msg: "wire_msg m \<Longrightarrow> read_raw D syntax (encode_msg m) = Inr (items m)"
proof -
  assume "wire_msg m"
  then have "printable max_depth (msg_value m)" unfolding max_depth_Suc by (rule msg_value_printable)
  from parse_value_text [OF this, of "[]"] have "parse_value max_depth (encode_msg m) = Some (msg_value m, [])"
    by (simp add: stops_def msg_text)
  then show ?thesis by (simp add: read_raw_def msg_value_items)
qed

lemma items_type: "\<exists>t js. items m = JString t # js"
  by (cases m) (simp_all add: items_def)

lemma read_items_msg:
  assumes "relay_msg m"
  shows "read_items D syntax (encode_msg m) = Inr (items m)"
proof -
  obtain t js where t: "items m = JString t # js" using items_type by blast
  have "find (\<lambda>j. \<not> numbers_ok j) js = None" using items_ok [OF assms] t by (auto simp: find_None_iff list_all_iff)
  then show ?thesis using read_raw_msg [of m D "syntax"] assms t by (simp add: read_items_def relay_msg_def)
qed

text \<open>Messages the wait is not for are read and skipped.\<close>

lemma read_until_skip:
  assumes "\<And>m. m \<in> set ms \<Longrightarrow> rd (encode_msg m) = Inr (items m)" "\<And>m. m \<in> set ms \<Longrightarrow> step a (items m) = Inl a"
  shows "read_until rd step a (map (\<lambda>m. Inr (encode_msg m)) ms @ rs) = read_until rd step a rs"
  using assms by (induction ms) auto

lemma read_until_found:
  assumes "\<And>m. m \<in> set ms \<Longrightarrow> rd (encode_msg m) = Inr (items m)" "\<And>m. m \<in> set ms \<Longrightarrow> step a (items m) = Inl a"
    and "rd (encode_msg x) = Inr (items x)" "step a (items x) = Inr res"
  shows "read_until rd step a (map (\<lambda>m. Inr (encode_msg m)) (ms @ [x]) @ rs) = Some (rs, res)"
proof -
  have "read_until rd step a (map (\<lambda>m. Inr (encode_msg m)) ms @ Inr (encode_msg x) # rs) =
      read_until rd step a (Inr (encode_msg x) # rs)"
    by (rule read_until_skip) (use assms(1,2) in auto)
  then show ?thesis using assms(3,4) by simp
qed

lemma waiting_reading:
  assumes "read_until rd step a (incoming c) = Some (rs, res)"
  shows "waiting t (reading rd step a) c = Some (c\<lparr>incoming := rs, deadline := None\<rparr>, res)"
  using assms by (simp add: waiting_def reading_def SetReadDeadline_def)

lemma ok_step_items:
  "ok_step i u (items m) = (case m of MOK i' b t \<Rightarrow> if i' = i then Inr (Inr (b, t)) else Inl u | _ \<Rightarrow> Inl u)"
  by (cases m) (simp_all add: items_def ok_step_def)

lemma collect_step_items:
  "wire_msg m \<Longrightarrow> collect_step D i es (items m) =
    (case m of MEvent i' e \<Rightarrow> Inl (if i' = i then es @ [e] else es)
     | MEOSE i' \<Rightarrow> if i' = i then Inr (Inr es) else Inl es | _ \<Rightarrow> Inl es)"
  by (cases m) (simp_all add: items_def collect_step_def as_event_value)

text \<open>Waiting for the answer to a publication returns the first OK for the event's ID, whatever messages of
  the relay come before it, and leaves those after it unread.\<close>

lemma ExpectOK_first:
  assumes "list_all relay_msg (ms @ [MOK i b t])" "list_all (\<lambda>m. \<nexists>b t. m = MOK i b t) ms"
    and "incoming c = map (\<lambda>m. Inr (encode_msg m)) (ms @ [MOK i b t]) @ rs"
  shows "ExpectOK D syntax now i timeout c = Some (c\<lparr>incoming := rs, deadline := None\<rparr>, Inr (b, t))"
proof -
  have "read_until (read_items D syntax) (ok_step i) () (incoming c) = Some (rs, Inr (b, t))"
    unfolding assms(3)
    by (rule read_until_found)
      (use assms(1,2) in \<open>auto simp: read_items_msg ok_step_items list_all_iff simp del: encode_msg.simps split: msg.split\<close>)
  then show ?thesis unfolding ExpectOK_def by (rule waiting_reading)
qed

fun events_for :: "string \<Rightarrow> msg list \<Rightarrow> event list" where
  "events_for i [] = []"
| "events_for i (MEvent i' e # ms) = (if i' = i then e # events_for i ms else events_for i ms)"
| "events_for i (m # ms) = events_for i ms"

lemma collect_until:
  assumes "list_all wire_msg ms" "MEOSE i \<notin> set ms"
  shows "read_until (read_raw D syntax) (collect_step D i) es (map (\<lambda>m. Inr (encode_msg m)) ms @ rs) =
    read_until (read_raw D syntax) (collect_step D i) (es @ events_for i ms) rs"
  using assms
proof (induction ms arbitrary: es)
  case (Cons m ms)
  have w: "wire_msg m" using Cons.prems by simp
  show ?case using Cons read_raw_msg [OF w, of D "syntax"] collect_step_items [OF w, of D i]
    by (cases m) auto
qed simp

text \<open>Collecting the answer to a query returns exactly the events the relay sent for the subscription before its
  first EOSE, in order, whatever other messages come between.\<close>

lemma CollectEvents_exact:
  assumes "list_all wire_msg ms" "MEOSE i \<notin> set ms" "valid_utf8 i"
    and "incoming c = map (\<lambda>m. Inr (encode_msg m)) (ms @ [MEOSE i]) @ rs"
  shows "CollectEvents D syntax now i timeout c = Some (c\<lparr>incoming := rs, deadline := None\<rparr>, Inr (events_for i ms))"
proof -
  have w: "wire_msg (MEOSE i)" using assms(3) by simp
  have "read_until (read_raw D syntax) (collect_step D i) [] (incoming c) = Some (rs, Inr (events_for i ms))"
    using collect_until [OF assms(1,2), of D "syntax" "[]" "Inr (encode_msg (MEOSE i)) # rs"]
      read_raw_msg [OF w, of D "syntax"] collect_step_items [OF w, of D i] unfolding assms(4) by (simp del: encode_msg.simps)
  then show ?thesis unfolding CollectEvents_def by (rule waiting_reading)
qed

section \<open>The client and the relay\<close>

text \<open>What the relay sends to a client in a step, as the reads of the other end.\<close>

definition replies :: "'s relay \<Rightarrow> 's relay \<Rightarrow> nat \<Rightarrow> (error + string) list" where
  "replies r r' cid = map (\<lambda>m. Inr (encode_msg m)) (drop (length (sent (conns r cid))) (sent (conns r' cid)))"

lemma replies_sent: "sent (conns r' cid) = sent (conns r cid) @ ms \<Longrightarrow> replies r r' cid = map (\<lambda>m. Inr (encode_msg m)) ms"
  by (simp add: replies_def)

lemma line_received:
  assumes "printable max_depth j"
  shows "client_bytes E S CS syntax cid (json_text j @ [CHR 0x0A]) r = client_message E S CS cid (Inr j) r"
  using line_parses [OF assms] by (simp add: client_bytes_def read_bytes_def received_def client_message_def)

lemma events_for_MEvent: "events_for i (map (MEvent i) es) = es"
  by (induction es) simp_all

lemma req_message:
  assumes "let_through E cid r = Some l" "wire_filter f" "req_events E S CS (store r) [read_filter f] = Ok es"
    and "\<not> client.closed (conns r cid)"
    and "\<not> (mget (subscriptions (conns r cid)) sub = None \<and> mlen (subscriptions (conns r cid)) \<ge> MaxSubscriptionsPerClient)"
    and m: "client_message E S CS cid (Inr (req_value sub [(n, f)])) r = (r', res)"
  shows "sent (conns r' cid) = sent (conns r cid) @
    map (MEvent sub) (take (nat (maxEventsPerREQ r)) (filter (\<lambda>e. \<not> ShouldFilterEvent (en_clock E) e) es)) @ [MEOSE sub]"
proof -
  let ?r = "on_conn cid (\<lambda>c. c\<lparr>subscriptions := mput sub [read_filter f] (subscriptions c)\<rparr>) (r\<lparr>limits := l\<rparr>)"
  have c: "\<not> client.closed (conns ?r cid)" "sent (conns ?r cid) = sent (conns r cid)"
    "store ?r = store r" "maxEventsPerREQ ?r = maxEventsPerREQ r"
    using assms(4) by (simp_all add: on_conn_def)
  obtain r1 o1 where h: "HandleReq E S CS cid sub [read_filter f] ?r = (r1, o1)" by fastforce
  note a = HandleReq_answer [OF c(1) _ h, unfolded c(2-4), OF assms(3)]
  have "client_message E S CS cid (Inr (req_value sub [(n, f)])) r = (r1, o1)"
    using client_message_req [OF assms(1) filter_value_decodes [OF assms(2)] assms(5), of S CS n] a h by (simp add: req_value_def)
  with m a show ?thesis by simp
qed

text \<open>C5: A query from call to return, over any store: what the test client writes for a filter makes the relay answer
  such that collecting the events returns exactly those the store has for the filter, in the store's
  order, without the expired, up to the relay's cap.\<close>

theorem query_returns_stored:
  assumes "broken c = None" "valid_utf8 sub" "wire_filter f" "let_through E cid r = Some l" "\<not> client.closed (conns r cid)"
    and "\<not> (mget (subscriptions (conns r cid)) sub = None \<and> mlen (subscriptions (conns r cid)) \<ge> MaxSubscriptionsPerClient)"
    and "req_events E S CS (store r) [read_filter f] = Ok es" "list_all wire_event es"
    and c': "ws_SendReq sub [(n, f)] c = (c', err)"
    and r': "client_bytes E S CS syntax cid (last (outgoing c')) r = (r', res)"
  shows "CollectEvents D syn now sub timeout (c'\<lparr>incoming := replies r r' cid\<rparr>) =
    Some (c'\<lparr>incoming := [], deadline := None\<rparr>,
      Inr (take (nat (maxEventsPerREQ r)) (filter (\<lambda>e. \<not> ShouldFilterEvent (en_clock E) e) es)))"
proof -
  let ?es = "take (nat (maxEventsPerREQ r)) (filter (\<lambda>e. \<not> ShouldFilterEvent (en_clock E) e) es)"
  have o: "last (outgoing c') = json_text (req_value sub [(n, f)]) @ [CHR 0x0A]" using sent_req [OF assms(1)] c' by auto
  have p: "printable max_depth (req_value sub [(n, f)])"
    unfolding max_depth_Suc by (rule req_printable) (use assms(2,3) in auto)
  have "sent (conns r' cid) = sent (conns r cid) @ map (MEvent sub) ?es @ [MEOSE sub]"
    using req_message [OF assms(4,3,7,5,6)] r' unfolding o line_received [OF p] by blast
  from replies_sent [OF this]
  have rep: "replies r r' cid = map (\<lambda>m. Inr (encode_msg m)) (map (MEvent sub) ?es @ [MEOSE sub])" by simp
  have "list_all wire_event ?es" using assms(8) by (auto simp: list_all_iff dest: in_set_takeD)
  then have "list_all wire_msg (map (MEvent sub) ?es)" using assms(2) by (simp add: list_all_iff del: valid_utf8.simps)
  moreover have "MEOSE sub \<notin> set (map (MEvent sub) ?es)" by auto
  ultimately show ?thesis
    using CollectEvents_exact [of "map (MEvent sub) ?es" sub "c'\<lparr>incoming := replies r r' cid\<rparr>" "[]" D syn now timeout] assms(2)
    unfolding events_for_MEvent rep by simp
qed

lemma query_returns_stored_witness:
  "\<exists>c' r'. fst (ws_SendReq ''s'' [(True, zero_filter)] new_client) = c' \<and>
     CollectEvents (en_codec sample_env) (\<lambda>_. ErrNotFound) 0 ''s'' 5 (c'\<lparr>incoming := replies (open_relay valid_store) r' 0\<rparr>) =
       Some (c'\<lparr>incoming := [], deadline := None\<rparr>, Inr [valid_sample])"
proof -
  have z: "read_filter zero_filter = zero_filter" "wire_filter zero_filter"
    by (simp_all add: read_filter_def zero_filter_def none_empty_def wire_filter_def utf8_slice_def)
  have s: "broken new_client = None" "valid_utf8 ''s''" "\<not> client.closed (conns (open_relay valid_store) 0)"
    by (simp_all add: new_client_def open_relay_sel NewClient_def ascii_valid_utf8 ascii_def del: valid_utf8.simps)
  have w: "list_all wire_event [valid_sample]"
    by (simp add: valid_sample_def sample_event_def wire_event_def utf8_event_def utf8_tags_def in64_def ascii_valid_utf8 ascii_def list_all_iff
      del: valid_utf8.simps)
  show ?thesis
    using query_returns_stored [OF s(1,2) z(2) open_relay_through s(3) open_relay_room _ w prod.collapse [symmetric] prod.collapse [symmetric],
        of sample_env "mem_if any_choice" "Some (mem_channels any_choice)"] valid_store_req valid_sample_current
    unfolding z(1) by (fastforce simp: open_relay_sel)
qed

text \<open>C6: A publication from call to return: for a new event that the relay accepts, what the test client writes makes
  the relay store it, the wait for the OK returns true with an empty message, and a second OK, the one
  the connection sends after the handler's, is left unread.\<close>

theorem publish_acknowledged:
  assumes "broken c = None" "wire_event e" "let_through E cid r = Some l" "Validate (en_crypto E) e = None"
    and "acceptable E cid e r" "mem_inv (store r)" "mem_GetEvent (store r) (ID e) = Inl ErrNotFound"
    and "\<not> client.closed (conns r cid)"
    and c': "ws_SendEvent e c = (c', err)"
    and r': "client_bytes E (mem_if ch) (Some (mem_channels ch)) bad cid (last (outgoing c')) r = (r', res)"
  shows "ExpectOK D syn now (ID e) timeout (c'\<lparr>incoming := replies r r' cid\<rparr>) =
      Some (c'\<lparr>incoming := [Inr (encode_msg (MOK (ID e) True []))], deadline := None\<rparr>, Inr (True, [])) \<and>
    mem_GetEvent (store r') (ID e) = Inr e"
proof -
  have o: "last (outgoing c') = json_text (JArray [JString ''EVENT'', event_value e]) @ [CHR 0x0A]"
    using sent_text [OF assms(1)] c' by (auto simp: ws_SendEvent_def)
  have p: "printable max_depth (JArray [JString ''EVENT'', event_value e])"
    unfolding max_depth_Suc by (rule event_message_printable [OF assms(2)])
  have e: "as_event (en_unicode E) (event_value e) = Some e" by (rule as_event_value [OF assms(2)])
  obtain s where s: "client_message E (mem_if ch) (Some (mem_channels ch)) cid (Inr (JArray [JString ''EVENT'', event_value e])) r =
      (ok cid (ID e) True [] (broadcastEvent e (ok cid (ID e) True []
        (r\<lparr>limits := l, totalEvents := totalEvents r + 1, packetCount := packetCount r + 1, store := s\<rparr>))), Ok ())"
    "mem_GetEvent s (ID e) = Inr e"
    by (rule acceptance [OF assms(3) e assms(4-7), of ch])
  then have r1: "r' = ok cid (ID e) True [] (broadcastEvent e (ok cid (ID e) True []
        (r\<lparr>limits := l, totalEvents := totalEvents r + 1, packetCount := packetCount r + 1, store := s\<rparr>)))"
    using r' unfolding o line_received [OF p] by simp
  let ?ok = "MOK (ID e) True []"
  have "sent (conns r' cid) = sent (conns r cid) @ [?ok, ?ok]"
    unfolding r1 using assms(8) by (simp add: SendOK_def send_def on_conn_def broadcastEvent_def)
  from replies_sent [OF this]
  have rep: "replies r r' cid = map (\<lambda>m. Inr (encode_msg m)) ([] @ [?ok]) @ [Inr (encode_msg ?ok)]" by simp
  have "relay_msg ?ok" using assms(2) by (simp add: relay_msg_def wire_event_def)
  then have "ExpectOK D syn now (ID e) timeout (c'\<lparr>incoming := replies r r' cid\<rparr>) =
      Some (c'\<lparr>incoming := [Inr (encode_msg ?ok)], deadline := None\<rparr>, Inr (True, []))"
    using ExpectOK_first [of "[]" "ID e" True "[]" "c'\<lparr>incoming := replies r r' cid\<rparr>" "[Inr (encode_msg ?ok)]" D syn now timeout]
    unfolding rep by simp
  moreover have "store r' = s" unfolding r1 by (simp add: on_conn_def broadcastEvent_def)
  ultimately show ?thesis using s(2) by simp
qed

lemma publish_acknowledged_witness:
  "\<exists>c' r'. fst (ws_SendEvent (sent_event 1 ''hi'') new_client) = c' \<and>
     map_option snd (ExpectOK (en_codec sample_env) (\<lambda>_. ErrNotFound) 0 (ID (sent_event 1 ''hi'')) 5
       (c'\<lparr>incoming := replies (open_relay mem_New) r' 0\<rparr>)) = Some (Inr (True, []))"
proof -
  let ?e = "sent_event 1 ''hi''" and ?r = "open_relay mem_New"
  have b: "broken new_client = None" by (simp add: new_client_def)
  have v: "Validate (en_crypto sample_env) ?e = None" unfolding sample_env_sel by (rule sent_event_validates) simp
  have "\<not> ShouldRejectEvent (en_clock sample_env) ?e"
    by (simp add: ShouldRejectEvent_def nip40_IsExpired_def GetExpiration_def first_tag_def tags_def sent_event_def)
  then have a: "acceptable sample_env 0 ?e ?r"
    by (simp add: acceptable_def open_relay_sel nip36_reason_def validate_kind_def sent_event_def IsFollowListEvent_def
      IsCommentEvent_def IsReactionEvent_def IsRelayListEvent_def IsNIP28Event_def IsRequestToVanishEvent_def replaceable_kind_def)
  have n: "mem_inv (store ?r)" "mem_GetEvent (store ?r) (ID ?e) = Inl ErrNotFound" "\<not> client.closed (conns ?r 0)"
    by (simp_all add: open_relay_sel mem_inv_New NewClient_def) (simp add: mem_GetEvent_def mem_New_def)
  note p = publish_acknowledged [OF b sent_event_wire open_relay_through v a n prod.collapse [symmetric]
    prod.collapse [symmetric], where ch = any_choice and D = "en_codec sample_env" and syn = "\<lambda>_. ErrNotFound"
    and now = 0 and timeout = 5 and bad = "\<lambda>_. ErrNotFound"]
  show ?thesis
    by (intro exI conjI, rule refl, rule arg_cong [where f = "map_option snd", OF conjunct1 [OF p], unfolded option.map snd_conv])
qed

end
