(* ===== verification/TagsJson.thy ===== *)
theory TagsJson
  imports Event
begin

text \<open>
  How \<^verbatim>\<open>internal/store/sqlite/sqlite.go\<close> writes the tags of an event into a text column and reads
  them back: \<^verbatim>\<open>tagsToJSON\<close> (which \<^verbatim>\<open>SaveEvent\<close> and \<^verbatim>\<open>SaveEvents\<close> repeat inline) puts each value
  between quotes, escaping nothing but quotes; \<^verbatim>\<open>parseTagsJSON\<close> counts brackets and splits at every
  comma outside them, \<^verbatim>\<open>parseTagString\<close> at every comma.

  Proved: values without commas and brackets come back (nil tags as empty ones); a value with a
  comma or an unbalanced bracket does not.
\<close>

section \<open>Writing\<close>

abbreviation escaped_quote :: string where
  "escaped_quote \<equiv> [CHR 0x5C, CHR 0x22]"

definition quote_part :: "string \<Rightarrow> string" where
  "quote_part part = CHR 0x22 # ReplaceAll [CHR 0x22] escaped_quote part @ [CHR 0x22]"

definition tag_string :: "string slice \<Rightarrow> string" where
  "tag_string tag = ''['' @ Join (map quote_part (elems tag)) '','' @ '']''"

definition tagsToJSON :: "string slice slice \<Rightarrow> string" where
  "tagsToJSON ts =
    (if elems ts = [] then ''[]''
     else ''['' @ Join (map tag_string (elems ts)) '','' @ '']'')"

section \<open>Reading\<close>

definition unquote_part :: "string \<Rightarrow> string" where
  "unquote_part part0 =
    (let part = TrimSpace part0 in
     if 2 \<le> length part \<and> HasPrefix part [CHR 0x22] \<and> HasSuffix part [CHR 0x22]
     then ReplaceAll escaped_quote [CHR 0x22] (take (length part - 2) (drop 1 part))
     else part)"

definition parseTagString :: "string \<Rightarrow> string slice" where
  "parseTagString tagStr0 =
    (let tagStr = TrimSpace tagStr0 in
     if \<not> HasPrefix tagStr ''['' \<or> \<not> HasSuffix tagStr '']'' then None
     else let inner = take (length tagStr - 2) (drop 1 tagStr)
          in if inner = [] then Some []
             else Some (map unquote_part (Split inner (CHR '',''))))"

definition add_tag :: "string \<Rightarrow> string slice slice \<Rightarrow> string slice slice" where
  "add_tag current ts =
    (let tagStr = TrimSpace current
     in if tagStr \<noteq> [] then Some (elems ts @ [parseTagString tagStr]) else ts)"

text \<open>The loop over the runes: bracket depth, the text of the current tag, the tags so far. A byte that
  is not UTF-8 is written back as U+FFFD.\<close>

fun tags_loop :: "nat list \<Rightarrow> int \<Rightarrow> string \<Rightarrow> string slice slice \<Rightarrow> string \<times> string slice slice" where
  "tags_loop [] depth current ts = (current, ts)"
| "tags_loop (r # rs) depth current ts =
     (if r = 91 then tags_loop rs (depth + 1) (current @ utf8_encode r) ts
      else if r = 93 then tags_loop rs (depth - 1) (current @ utf8_encode r) ts
      else if r = 44 \<and> depth = 0 then tags_loop rs depth [] (add_tag current ts)
      else tags_loop rs depth (current @ utf8_encode r) ts)"

definition parseTagsJSON :: "string \<Rightarrow> string slice slice" where
  "parseTagsJSON jsonStr0 =
    (let jsonStr = TrimSpace jsonStr0 in
     if \<not> HasPrefix jsonStr ''['' \<or> \<not> HasSuffix jsonStr '']'' then Some []
     else let inner = take (length jsonStr - 2) (drop 1 jsonStr) in
       if inner = [] then None
       else (case tags_loop (utf8_decode inner) 0 [] None of
         (current, ts) \<Rightarrow> if current \<noteq> [] then add_tag current ts else ts))"

definition jsonToTags :: "string \<Rightarrow> string slice slice" where
  "jsonToTags jsonStr = (if jsonStr = [] \<or> jsonStr = ''[]'' then Some [] else parseTagsJSON jsonStr)"

text \<open>The column as \<^verbatim>\<open>queryFilter\<close> and \<^verbatim>\<open>GetEvent\<close> read it: it may be NULL, and nil becomes empty.\<close>

definition column_tags :: "string option \<Rightarrow> string slice slice" where
  "column_tags col =
    (case col of
       None \<Rightarrow> Some []
     | Some s \<Rightarrow> if s \<noteq> [] \<and> s \<noteq> ''[]'' then Some (elems (parseTagsJSON s)) else Some [])"

section \<open>Runes of concatenated strings\<close>

lemma utf8_decode_append:
  "valid_utf8 s \<Longrightarrow> utf8_decode (s @ t) = utf8_decode s @ utf8_decode t"
proof (induction s rule: valid_utf8_induct)
  case (ascii c r)
  then show ?case by (simp add: utf8_first_def Let_def)
next
  case (multi c r u n)
  have "utf8_first c (r @ t) = (u, n)" "n \<le> length r"
    using utf8_first_append [OF multi(2,3,1), of "drop n r @ t"] utf8_first_append [OF multi(2,3,1), of "drop n r"]
    by (simp_all add: append_assoc [symmetric] del: append_assoc) (metis le_eq_less_or_eq length_take min.absorb_iff2 min.commute nat_le_linear)
  then show ?case using multi by simp
qed simp

lemma utf8_encode_decode: "valid_utf8 s \<Longrightarrow> concat (map utf8_encode (utf8_decode s)) = s"
proof (induction s rule: valid_utf8_induct)
  case (ascii c r)
  then show ?case by (simp add: utf8_first_def utf8_encode_def Let_def)
next
  case (multi c r u n)
  then show ?case using utf8_first_encode [OF multi(2,3,1)] by simp
qed simp

lemma valid_utf8_append: "valid_utf8 s \<Longrightarrow> valid_utf8 t \<Longrightarrow> valid_utf8 (s @ t)"
proof (induction s rule: valid_utf8_induct)
  case (ascii c r)
  then show ?case by (simp add: utf8_first_def Let_def RuneError_def)
next
  case (multi c r u n)
  have "utf8_first c (r @ t) = (u, n)" "n \<le> length r"
    using utf8_first_append [OF multi(2,3,1), of "drop n r @ t"] utf8_first_append [OF multi(2,3,1), of "drop n r"]
    by (simp_all add: append_assoc [symmetric] del: append_assoc) (metis le_eq_less_or_eq length_take min.absorb_iff2 min.commute nat_le_linear)
  then show ?case using multi by simp
qed simp

text \<open>An ASCII rune of a valid string is one of its bytes.\<close>

lemma ascii_rune_in:
  assumes "valid_utf8 s" "r \<in> set (utf8_decode s)" "r < 128"
  shows "char_of r \<in> set s"
proof -
  have "char_of r \<in> set (concat (map utf8_encode (utf8_decode s)))"
    using assms(2,3) by (auto simp: utf8_encode_def intro!: bexI [of _ r])
  then show ?thesis by (simp add: utf8_encode_decode assms(1))
qed

section \<open>Round trip\<close>

lemma ReplaceAll_not_quote: "hd (ReplaceAll [CHR 0x22] escaped_quote s @ [CHR 0x5C]) \<noteq> CHR 0x22"
  by (cases s) simp_all

lemma unescape_escape: "ReplaceAll escaped_quote [CHR 0x22] (ReplaceAll [CHR 0x22] escaped_quote s) = s"
proof (induction s)
  case (Cons c s)
  let ?x = "ReplaceAll [CHR 0x22] escaped_quote s"
  have "\<not> HasPrefix (c # ?x) escaped_quote"
    using ReplaceAll_not_quote [of s] by (cases ?x) auto
  with Cons show ?case by simp
qed simp

lemma spaces_ends:
  "p \<in> set spaces \<Longrightarrow> p \<noteq> [] \<and> hd p \<notin> {CHR ''['', CHR 0x22} \<and> last p \<notin> {CHR '']'', CHR 0x22}"
proof -
  have "list_all (\<lambda>p. p \<noteq> [] \<and> hd p \<notin> {CHR ''['', CHR 0x22} \<and> last p \<notin> {CHR '']'', CHR 0x22}) spaces"
    by code_simp
  then show "p \<in> set spaces \<Longrightarrow> p \<noteq> [] \<and> hd p \<notin> {CHR ''['', CHR 0x22} \<and> last p \<notin> {CHR '']'', CHR 0x22}"
    unfolding list_all_iff by blast
qed

lemma TrimSpace_delimited:
  assumes "c \<in> {CHR ''['', CHR 0x22}" "d \<in> {CHR '']'', CHR 0x22}"
  shows "TrimSpace (c # m @ [d]) = c # m @ [d]"
proof -
  let ?s = "c # m @ [d]"
  have "\<not> HasPrefix ?s p" if "p \<in> set spaces" for p
    using spaces_ends [OF that] assms(1) by (cases p) auto
  then have "find (HasPrefix ?s) spaces = None" unfolding find_None_iff by blast
  then have "TrimLeft ?s = ?s" by (subst TrimLeft.simps) (simp add: space_prefix_def)
  moreover have "\<not> HasSuffix ?s p" if "p \<in> set spaces" for p
  proof
    assume "HasSuffix ?s p"
    then obtain r where "?s = r @ p" by (auto simp: HasSuffix_iff)
    then have "last p = d" using spaces_ends [OF that] by (metis last_appendR last_ConsR last_snoc snoc_eq_iff_butlast)
    then show False using spaces_ends [OF that] assms(2) by auto
  qed
  then have "find (HasSuffix ?s) spaces = None" unfolding find_None_iff by blast
  then have "TrimRight ?s = ?s" by (subst TrimRight.simps) (simp add: space_suffix_def)
  ultimately show ?thesis by (simp add: TrimSpace_def)
qed

lemma delimited_parts:
  "HasPrefix (c # m @ [d]) [c]" "HasSuffix (c # m @ [d]) [d]" "take (length (c # m @ [d]) - 2) (drop 1 (c # m @ [d])) = m"
  by (simp_all add: HasSuffix_def)

lemma unquote_quote: "unquote_part (quote_part s) = s"
proof -
  have "TrimSpace (quote_part s) = quote_part s"
    unfolding quote_part_def by (rule TrimSpace_delimited) simp_all
  then show ?thesis
    unfolding unquote_part_def Let_def by (simp add: quote_part_def HasSuffix_def unescape_escape)
qed

lemma split_acc_no_sep: "sep \<notin> set s \<Longrightarrow> split_acc sep acc s = [rev acc @ s]"
  by (induction s arbitrary: acc) auto

lemma split_acc_sep: "sep \<notin> set s \<Longrightarrow> split_acc sep acc (s @ sep # t) = (rev acc @ s) # split_acc sep [] t"
  by (induction s arbitrary: acc) auto

lemma Split_Join:
  "xs \<noteq> [] \<Longrightarrow> (\<And>x. x \<in> set xs \<Longrightarrow> sep \<notin> set x) \<Longrightarrow> Split (Join xs [sep]) sep = xs"
proof (induction xs "[sep]" rule: Join.induct)
  case (3 x y xs)
  then show ?case by (simp add: Split_def split_acc_sep)
qed (simp_all add: Split_def split_acc_no_sep)

text \<open>The values the format can carry.\<close>

definition plain_part :: "string \<Rightarrow> bool" where
  "plain_part s \<longleftrightarrow> valid_utf8 s \<and> set s \<inter> {CHR '','', CHR ''['', CHR '']''} = {}"

definition plain_tags :: "string slice slice \<Rightarrow> bool" where
  "plain_tags ts \<longleftrightarrow> list_all (\<lambda>t. list_all plain_part (elems t)) (elems ts)"

lemma ReplaceAll_quote_set: "set (ReplaceAll [CHR 0x22] escaped_quote s) \<subseteq> insert (CHR 0x5C) (set s)"
  by (induction s) auto

lemma valid_utf8_ascii: "byte c < 128 \<Longrightarrow> valid_utf8 (c # s) = valid_utf8 s"
  by (simp add: utf8_first_def Let_def RuneError_def)

lemma utf8_decode_ascii: "byte c < 128 \<Longrightarrow> utf8_decode (c # s) = byte c # utf8_decode s"
  by (simp add: utf8_first_def Let_def)

lemma cont_not_quote:
  assumes "utf8_first c r = (u, n)" "(u, n) \<noteq> (RuneError, 0)" "128 \<le> byte c"
  shows "ReplaceAll [CHR 0x22] escaped_quote (c # r) =
    c # take n r @ ReplaceAll [CHR 0x22] escaped_quote (drop n r)"
  using assms
proof (cases rule: utf8_first_cases)
  case (two b r')
  then have "b \<noteq> CHR 0x22" "c \<noteq> CHR 0x22" by (auto simp: cont_def)
  with two show ?thesis by simp
next
  case (three b d r')
  then have "b \<noteq> CHR 0x22" "c \<noteq> CHR 0x22" "d \<noteq> CHR 0x22" by (auto simp: cont_def)
  with three show ?thesis by (simp add: numeral_2_eq_2)
next
  case (four b d e r')
  then have "b \<noteq> CHR 0x22" "c \<noteq> CHR 0x22" "d \<noteq> CHR 0x22" "e \<noteq> CHR 0x22" by (auto simp: cont_def)
  with four show ?thesis by (simp add: numeral_3_eq_3)
qed

lemma ReplaceAll_quote_valid: "valid_utf8 s \<Longrightarrow> valid_utf8 (ReplaceAll [CHR 0x22] escaped_quote s)"
proof (induction s rule: valid_utf8_induct)
  case (ascii c r)
  then show ?case by (simp add: valid_utf8_ascii del: valid_utf8.simps(2))
next
  case (multi c r u n)
  let ?x = "ReplaceAll [CHR 0x22] escaped_quote (drop n r)"
  have a: "utf8_first c (take n r @ ?x) = (u, n)" "length (take n r) = n"
    using utf8_first_append [OF multi(2,3,1)] by blast+
  have "valid_utf8 (c # take n r @ ?x)"
    unfolding valid_utf8.simps a(1) using multi(3,5) a(2) by simp
  then show ?case unfolding cont_not_quote [OF multi(2,3,1)] .
qed simp

lemma quote_part_plain: "plain_part s \<Longrightarrow> plain_part (quote_part s)"
  using ReplaceAll_quote_set [of s]
  by (auto simp: plain_part_def quote_part_def ReplaceAll_quote_valid valid_utf8_append valid_utf8_ascii
      simp del: valid_utf8.simps(2) split: if_splits)


lemma plain_join: "list_all plain_part xs \<Longrightarrow>
    valid_utf8 (Join (map quote_part xs) '','') \<and> set (Join (map quote_part xs) '','') \<inter> {CHR ''['', CHR '']''} = {}"
proof (induction xs rule: induct_list012)
  case (2 x)
  then show ?case using quote_part_plain [of x] by (auto simp: plain_part_def)
next
  case (3 x y zs)
  then show ?case
    using quote_part_plain [of x] by (auto simp: plain_part_def valid_utf8_append valid_utf8_ascii simp del: valid_utf8.simps(2))
qed simp

lemma tags_loop_text:
  assumes "list_all (\<lambda>r. r \<noteq> 91 \<and> r \<noteq> 93) rs" "depth \<noteq> 0"
  shows "tags_loop (rs @ rest) depth current ts = tags_loop rest depth (current @ concat (map utf8_encode rs)) ts"
  using assms(1) by (induction rs arbitrary: current) (simp_all add: assms(2))

text \<open>One tag is read as a whole.\<close>

lemma tags_loop_tag:
  assumes "list_all plain_part (elems t)"
  shows "tags_loop (utf8_decode (tag_string t @ rest)) 0 current ts =
    tags_loop (utf8_decode rest) 0 (current @ tag_string t) ts"
proof -
  let ?j = "Join (map quote_part (elems t)) '',''"
  have j: "valid_utf8 ?j" "set ?j \<inter> {CHR ''['', CHR '']''} = {}" using plain_join [OF assms] by auto
  have "r \<noteq> 91 \<and> r \<noteq> 93" if "r \<in> set (utf8_decode ?j)" for r
  proof -
    have "char_of (91 :: nat) = CHR ''[''" "char_of (93 :: nat) = CHR '']''" by code_simp+
    then show ?thesis using ascii_rune_in [OF j(1) that] j(2) by auto
  qed
  then have "list_all (\<lambda>r. r \<noteq> 91 \<and> r \<noteq> 93) (utf8_decode ?j)" by (simp add: list_all_iff)
  note l = tags_loop_text [OF this, of 1]
  have e: "utf8_encode 91 = ''[''" "utf8_encode 93 = '']''" by code_simp+
  have "utf8_decode (tag_string t @ rest) = 91 # utf8_decode ?j @ 93 # utf8_decode rest"
    by (simp add: tag_string_def utf8_decode_ascii utf8_decode_append [OF j(1)] del: utf8_decode.simps(2))
  then show ?thesis by (simp add: l e utf8_encode_decode [OF j(1)] tag_string_def)
qed

lemma tag_string_delimited: "tag_string t = CHR ''['' # Join (map quote_part (elems t)) '','' @ [CHR '']'']"
  by (simp add: tag_string_def)

lemma TrimSpace_tag: "TrimSpace (tag_string t) = tag_string t"
  unfolding tag_string_delimited by (rule TrimSpace_delimited) simp_all

lemma quote_part_nonempty [simp]: "quote_part s \<noteq> []"
  by (simp add: quote_part_def)

lemma Join_Nil_iff: "(\<And>x. x \<in> set xs \<Longrightarrow> x \<noteq> []) \<Longrightarrow> Join xs sep = [] \<longleftrightarrow> xs = []"
  by (induction xs sep rule: Join.induct) simp_all

lemma parseTagString_tag:
  assumes "list_all plain_part (elems t)"
  shows "parseTagString (tag_string t) = Some (elems t)"
proof -
  let ?j = "Join (map quote_part (elems t)) '',''"
  have j: "?j = [] \<longleftrightarrow> elems t = []" by (subst Join_Nil_iff) auto
  have "CHR '','' \<notin> set x" if "x \<in> set (map quote_part (elems t))" for x
    using that assms quote_part_plain by (fastforce simp: list_all_iff plain_part_def)
  then have "elems t \<noteq> [] \<Longrightarrow> map unquote_part (Split ?j (CHR '','')) = elems t"
    using Split_Join [of "map quote_part (elems t)" "CHR '',''"] by (simp add: o_def unquote_quote)
  then show ?thesis
    using j delimited_parts [of "CHR ''[''" ?j "CHR '']''"]
    unfolding parseTagString_def TrimSpace_tag Let_def unfolding tag_string_delimited by simp
qed

lemma tags_loop_all:
  assumes "list_all (\<lambda>t. list_all plain_part (elems t)) (t # ts)"
  shows "tags_loop (utf8_decode (Join (map tag_string (t # ts)) '','')) 0 [] acc =
    (tag_string (last (t # ts)), if ts = [] then acc else Some (elems acc @ map (\<lambda>t. Some (elems t)) (butlast (t # ts))))"
  using assms
proof (induction ts arbitrary: t acc)
  case Nil
  then show ?case using tags_loop_tag [of t "[]" "[]" acc] by simp
next
  case (Cons u ts)
  have t: "list_all plain_part (elems t)" using Cons.prems by simp
  have a: "add_tag (tag_string t) acc = Some (elems acc @ [Some (elems t)])"
    unfolding add_tag_def TrimSpace_tag Let_def parseTagString_tag [OF t] by (simp add: tag_string_def)
  have "tags_loop (utf8_decode (Join (map tag_string (t # u # ts)) '','')) 0 [] acc =
      tags_loop (utf8_decode ('','' @ Join (map tag_string (u # ts)) '','')) 0 (tag_string t) acc"
    using tags_loop_tag [OF t, of _ "[]"] by simp
  also have "\<dots> = tags_loop (utf8_decode (Join (map tag_string (u # ts)) '','')) 0 [] (Some (elems acc @ [Some (elems t)]))"
    using a by (simp add: utf8_decode_ascii del: utf8_decode.simps(2))
  finally show ?case using Cons.IH [of u] Cons.prems by simp
qed

lemma tags_read_back:
  assumes "plain_tags ts"
  shows "jsonToTags (tagsToJSON ts) = Some (map (\<lambda>t. Some (elems t)) (elems ts))"
    and "column_tags (Some (tagsToJSON ts)) = Some (map (\<lambda>t. Some (elems t)) (elems ts))"
proof -
  have "jsonToTags (tagsToJSON ts) = Some (map (\<lambda>t. Some (elems t)) (elems ts))
    \<and> column_tags (Some (tagsToJSON ts)) = Some (map (\<lambda>t. Some (elems t)) (elems ts))"
  proof (cases "elems ts")
    case (Cons t us)
    let ?j = "Join (map tag_string (t # us)) '',''"
    have l: "list_all (\<lambda>t. list_all plain_part (elems t)) (t # us)" using assms Cons by (simp add: plain_tags_def)
    have n: "?j \<noteq> []" by (cases us) (simp_all add: tag_string_def)
    have j: "tagsToJSON ts = CHR ''['' # ?j @ [CHR '']'']" using Cons by (simp add: tagsToJSON_def)
    have "parseTagsJSON (tagsToJSON ts) = (case tags_loop (utf8_decode ?j) 0 [] None of
        (current, ts) \<Rightarrow> if current \<noteq> [] then add_tag current ts else ts)"
      using n delimited_parts [of "CHR ''[''" ?j "CHR '']''"] TrimSpace_delimited [of "CHR ''[''" "CHR '']''" ?j]
      unfolding parseTagsJSON_def j by (simp add: Let_def del: list.map)
    also have "\<dots> = Some (map (\<lambda>t. Some (elems t)) (t # us))"
    proof -
      have "parseTagString (tag_string (last (t # us))) = Some (elems (last (t # us)))"
        using l by (intro parseTagString_tag) (metis last_in_set list.discI list_all_iff)
      then have "add_tag (tag_string (last (t # us))) acc = Some (elems acc @ [Some (elems (last (t # us)))])" for acc
        unfolding add_tag_def TrimSpace_tag Let_def by (simp add: tag_string_def)
      moreover have "map (\<lambda>t. Some (elems t)) (butlast (t # us)) @ [Some (elems (last (t # us)))] = map (\<lambda>t. Some (elems t)) (t # us)"
        by (metis append_butlast_last_id list.discI list.simps(8,9) map_append)
      moreover have "tag_string t \<noteq> []" for t by (simp add: tag_string_def)
      ultimately show ?thesis unfolding tags_loop_all [OF l] by (auto split: if_splits)
    qed
    finally show ?thesis using n Cons by (simp add: jsonToTags_def column_tags_def j del: list.map)
  qed (simp_all add: jsonToTags_def column_tags_def tagsToJSON_def)
  then show "jsonToTags (tagsToJSON ts) = Some (map (\<lambda>t. Some (elems t)) (elems ts))"
    "column_tags (Some (tagsToJSON ts)) = Some (map (\<lambda>t. Some (elems t)) (elems ts))"
    by simp_all
qed

text \<open>C36: Tags whose values are UTF-8 without commas and square brackets come back from the column as they
  were written, in the tables of events and of channel events; a nil list reads as an empty one.\<close>

theorem tags_roundtrip:
  assumes "plain_tags ts"
  shows "column_tags (Some (tagsToJSON ts)) = Some (map (\<lambda>t. Some (elems t)) (elems ts))
    \<and> jsonToTags (tagsToJSON ts) = column_tags (Some (tagsToJSON ts))"
  using tags_read_back [OF assms] by simp

lemma tags_roundtrip_witness:
  "column_tags (Some (tagsToJSON (Some [Some [''e'', ''ff00''], None, Some [''t'', CHR 0x22 # ''go'' @ [CHR 0x22]]]))) =
    Some [Some [''e'', ''ff00''], Some [], Some [''t'', CHR 0x22 # ''go'' @ [CHR 0x22]]]"
proof -
  have "plain_tags (Some [Some [''e'', ''ff00''], None, Some [''t'', CHR 0x22 # ''go'' @ [CHR 0x22]]])"
    by (simp add: plain_tags_def plain_part_def ascii_valid_utf8 ascii_def del: valid_utf8.simps)
  from tags_roundtrip [OF this] show ?thesis by simp
qed

section \<open>Commas\<close>

lemma TrimLeft_set: "set (TrimLeft s) \<subseteq> set s"
proof (induction s rule: TrimLeft.induct)
  case (1 s)
  show ?case
    by (subst TrimLeft.simps) (use 1 set_drop_subset [of "space_prefix s" s] in \<open>auto split: if_splits\<close>)
qed

lemma TrimRight_set: "set (TrimRight s) \<subseteq> set s"
proof (induction s rule: TrimRight.induct)
  case (1 s)
  show ?case
    by (subst TrimRight.simps) (use 1 set_take_subset [of "length s - space_suffix s" s] in \<open>auto split: if_splits\<close>)
qed

lemma TrimSpace_set: "set (TrimSpace s) \<subseteq> set s"
  using TrimLeft_set [of s] TrimRight_set [of "TrimLeft s"] by (auto simp: TrimSpace_def)

lemma ReplaceAll_set: "set (ReplaceAll old new s) \<subseteq> set new \<union> set s"
proof (induction old new s rule: ReplaceAll.induct)
  case (2 old new c s)
  have d: "set (drop (length old) (c # s)) \<subseteq> set (c # s)" by (rule set_drop_subset)
  show ?case
  proof (cases "old \<noteq> [] \<and> HasPrefix (c # s) old")
    case True
    then show ?thesis using 2(1) d by (simp del: set_simps drop_Cons') blast
  qed (use 2(2) in auto)
qed simp

lemma split_acc_parts: "x \<in> set (split_acc sep acc s) \<Longrightarrow> sep \<notin> set acc \<Longrightarrow> sep \<notin> set x"
  by (induction sep acc s rule: split_acc.induct) (auto split: if_splits)

lemma unquote_part_set: "set (unquote_part s) \<subseteq> insert (CHR 0x22) (set s)"
proof -
  have "set (ReplaceAll escaped_quote [CHR 0x22] (take n (drop 1 (TrimSpace s)))) \<subseteq> insert (CHR 0x22) (set s)" for n
    using ReplaceAll_set [of escaped_quote "[CHR 0x22]" "take n (drop 1 (TrimSpace s))"] TrimSpace_set [of s]
    by (auto dest!: in_set_takeD in_set_dropD)
  then show ?thesis using TrimSpace_set [of s] by (auto simp: unquote_part_def Let_def)
qed

definition comma_free :: "string slice slice \<Rightarrow> bool" where
  "comma_free ts \<longleftrightarrow> list_all (\<lambda>t. list_all (\<lambda>p. CHR '','' \<notin> set p) (elems t)) (elems ts)"

lemma parseTagString_comma_free: "list_all (\<lambda>p. CHR '','' \<notin> set p) (elems (parseTagString s))"
proof -
  have "CHR '','' \<notin> set (unquote_part p)" if "p \<in> set (Split w (CHR '',''))" for p w
    using unquote_part_set [of p] split_acc_parts [of p "CHR '',''" "[]" w] that by (auto simp: Split_def)
  then show ?thesis by (simp add: parseTagString_def Let_def list_all_iff)
qed

lemma add_tag_comma_free: "comma_free ts \<Longrightarrow> comma_free (add_tag s ts)"
  by (simp add: comma_free_def add_tag_def Let_def parseTagString_comma_free)

lemma tags_loop_comma_free: "comma_free ts \<Longrightarrow> comma_free (snd (tags_loop rs d cur ts))"
  by (induction rs arbitrary: d cur ts) (simp_all add: add_tag_comma_free)

text \<open>C37: Whatever the column holds, no value read from it contains a comma: a tag value with one is never
  read back as it was saved.\<close>

theorem commas_are_lost:
  "t \<in> set (elems (column_tags col)) \<Longrightarrow> p \<in> set (elems t) \<Longrightarrow> CHR '','' \<notin> set p"
proof -
  have n: "comma_free None" "comma_free (Some [])" by (simp_all add: comma_free_def)
  have "comma_free (parseTagsJSON s)" for s
    using tags_loop_comma_free [OF n(1)] by (auto simp: parseTagsJSON_def Let_def n case_prod_beta add_tag_comma_free)
  then have "comma_free (column_tags col)"
    using n by (auto simp: column_tags_def comma_free_def split: option.split)
  then show "t \<in> set (elems (column_tags col)) \<Longrightarrow> p \<in> set (elems t) \<Longrightarrow> CHR '','' \<notin> set p"
    by (auto simp: comma_free_def list_all_iff)
qed

lemma commas_are_lost_witness:
  "column_tags (Some (tagsToJSON (Some [Some [''alt'', ''a, b'']]))) =
    Some [Some [''alt'', CHR 0x22 # ''a'', ''b'' @ [CHR 0x22]]] \<and> CHR '','' \<notin> set (CHR 0x22 # ''a'')"
proof
  show c: "column_tags (Some (tagsToJSON (Some [Some [''alt'', ''a, b'']]))) =
      Some [Some [''alt'', CHR 0x22 # ''a'', ''b'' @ [CHR 0x22]]]" by code_simp
  show "CHR '','' \<notin> set (CHR 0x22 # ''a'')"
    by (rule commas_are_lost [of "Some [''alt'', CHR 0x22 # ''a'', ''b'' @ [CHR 0x22]]" "Some (tagsToJSON (Some [Some [''alt'', ''a, b'']]))"])
      (simp_all add: c)
qed

end
