(* ===== verification/SqlEngine.thy ===== *)
theory SqlEngine
  imports TagsJson
begin

text \<open>
  What \<^verbatim>\<open>internal/store/sqlite/sqlite.go\<close> uses of \<^verbatim>\<open>database/sql\<close> and SQLite. The statements of the
  code are data, \<open>select\<close> and \<open>command\<close>, with their arguments in place. The engine that runs them is
  not part of the program: it is a parameter, a record of functions over a state of its own, which may
  fail at any call. The locale \<open>sql_engine\<close> states what the SQLite documentation promises of these
  statements, in terms of the tables: a query that ends without an error has delivered an answer (of
  rows it orders freely where \<^verbatim>\<open>ORDER BY\<close> leaves a choice), a command that succeeds has had its effect,
  one that fails has had none, and a transaction that is not committed is undone.

  \<open>table_engine\<close> is an engine of that kind that never fails: it answers from the tables themselves.
\<close>

section \<open>Values, rows, statements\<close>

datatype sql = Null | Integer int | Text string

type_synonym row = "(string \<times> sql) list"

type_synonym database = "string \<Rightarrow> row list"

definition cell :: "row \<Rightarrow> string \<Rightarrow> sql" where
  "cell r c = (case map_of r c of None \<Rightarrow> Null | Some v \<Rightarrow> v)"

text \<open>The conditions of a \<^verbatim>\<open>WHERE\<close> clause, joined by \<^verbatim>\<open>AND\<close>.\<close>

datatype cond =
    Equals string sql
  | Differs string sql
  | Below string int
  | AtLeast string int
  | AtMost string int
  | In string "sql list"
  | NotIn string "sql list"

fun holds_cond :: "row \<Rightarrow> cond \<Rightarrow> bool" where
  "holds_cond r (Equals c v) \<longleftrightarrow> cell r c = v \<and> v \<noteq> Null"
| "holds_cond r (Differs c v) \<longleftrightarrow> cell r c \<noteq> v \<and> cell r c \<noteq> Null \<and> v \<noteq> Null"
| "holds_cond r (Below c n) \<longleftrightarrow> (case cell r c of Integer m \<Rightarrow> m < n | _ \<Rightarrow> False)"
| "holds_cond r (AtLeast c n) \<longleftrightarrow> (case cell r c of Integer m \<Rightarrow> n \<le> m | _ \<Rightarrow> False)"
| "holds_cond r (AtMost c n) \<longleftrightarrow> (case cell r c of Integer m \<Rightarrow> m \<le> n | _ \<Rightarrow> False)"
| "holds_cond r (In c vs) \<longleftrightarrow> list_ex (\<lambda>v. cell r c = v \<and> v \<noteq> Null) vs"
| "holds_cond r (NotIn c vs) \<longleftrightarrow> list_all (\<lambda>v. cell r c \<noteq> v \<and> cell r c \<noteq> Null \<and> v \<noteq> Null) vs"

definition holds_conds :: "row \<Rightarrow> cond list \<Rightarrow> bool" where
  "holds_conds r cs = list_all (holds_cond r) cs"

text \<open>
  \<^item> \<open>Select cols t cs newest limit\<close>: \<^verbatim>\<open>SELECT cols FROM t WHERE cs\<close>, with \<^verbatim>\<open>ORDER BY created_at DESC\<close>
    if \<open>newest\<close>, and with \<^verbatim>\<open>LIMIT\<close>;
  \<^item> \<open>Exists t cs\<close>: \<^verbatim>\<open>SELECT 1\<close>; \<open>Count t cs\<close>: \<^verbatim>\<open>SELECT COUNT( * )\<close>;
  \<^item> \<open>NewestPerGroup cols t cs g limit\<close>: \<^verbatim>\<open>GROUP BY g HAVING created_at = MAX(created_at) ORDER BY
    created_at DESC\<close>;
  \<^item> \<open>Pragma p\<close>: a setting that is read.
\<close>

datatype select =
    Select "string list" string "cond list" bool "int option"
  | Exists string "cond list"
  | Count string "cond list"
  | NewestPerGroup "string list" string "cond list" string "int option"
  | Pragma string

datatype command =
    CreateTables "(string \<times> string list) list"
  | InsertReplace string row
  | InsertIgnore string row
  | Insert string row
  | DeleteRows string "cond list"
  | SetPragma string
  | VacuumAll

section \<open>What the statements mean\<close>

definition created :: "row \<Rightarrow> int" where
  "created r = (case cell r ''created_at'' of Integer n \<Rightarrow> n | _ \<Rightarrow> 0)"

definition newest_first :: "row list \<Rightarrow> bool" where
  "newest_first rs = sorted_wrt (\<lambda>a b. created b \<le> created a) rs"

text \<open>A negative limit is no limit.\<close>

definition limited :: "int option \<Rightarrow> 'a list \<Rightarrow> 'a list" where
  "limited limit rs = (case limit of Some n \<Rightarrow> if n < 0 then rs else take (nat n) rs | None \<Rightarrow> rs)"

definition project :: "string list \<Rightarrow> row \<Rightarrow> sql list" where
  "project cols r = map (cell r) cols"

text \<open>One row of each group, the newest.\<close>

definition group_heads :: "string \<Rightarrow> row list \<Rightarrow> row list \<Rightarrow> bool" where
  "group_heads g rows rs \<longleftrightarrow>
     distinct (map (\<lambda>r. cell r g) rs) \<and> set rs \<subseteq> set rows \<and>
     (\<forall>r \<in> set rows. \<exists>h \<in> set rs. cell h g = cell r g \<and> created r \<le> created h)"

fun answers :: "database \<Rightarrow> select \<Rightarrow> sql list list \<Rightarrow> bool" where
  "answers db (Select cols t cs newest limit) out \<longleftrightarrow>
     (\<exists>rs. mset rs = mset (filter (\<lambda>r. holds_conds r cs) (db t)) \<and> (newest \<longrightarrow> newest_first rs)
        \<and> out = map (project cols) (limited limit rs))"
| "answers db (Exists t cs) out \<longleftrightarrow> out = map (\<lambda>r. [Integer 1]) (filter (\<lambda>r. holds_conds r cs) (db t))"
| "answers db (Count t cs) out \<longleftrightarrow> out = [[Integer (int (length (filter (\<lambda>r. holds_conds r cs) (db t))))]]"
| "answers db (NewestPerGroup cols t cs g limit) out \<longleftrightarrow>
     (\<exists>rs. group_heads g (filter (\<lambda>r. holds_conds r cs) (db t)) rs \<and> newest_first rs
        \<and> out = map (project cols) (limited limit rs))"
| "answers db (Pragma p) out \<longleftrightarrow> (\<exists>n. out = [[Integer n]])"

text \<open>The first column of each table is its primary key.\<close>

definition same_key :: "row \<Rightarrow> row \<Rightarrow> bool" where
  "same_key r s = (cell r (fst (hd r)) = cell s (fst (hd r)))"

text \<open>The tables after a command, and the number of rows it reports. The indexes of \<^verbatim>\<open>CREATE\<close> scripts
  and all settings leave the rows alone.\<close>

fun effect :: "command \<Rightarrow> database \<Rightarrow> database \<times> int" where
  "effect (InsertReplace t r) db = (db(t := filter (\<lambda>s. \<not> same_key r s) (db t) @ [r]), 1)"
| "effect (InsertIgnore t r) db =
     (if list_ex (same_key r) (db t) then (db, 0) else (db(t := db t @ [r]), 1))"
| "effect (Insert t r) db = (db(t := db t @ [r]), 1)"
| "effect (DeleteRows t cs) db =
     (db(t := filter (\<lambda>r. \<not> holds_conds r cs) (db t)), int (length (filter (\<lambda>r. holds_conds r cs) (db t))))"
| "effect _ db = (db, 0)"

section \<open>Engines\<close>

text \<open>A query fails at once, or delivers rows and then ends or fails (\<^verbatim>\<open>rows.Err\<close>).\<close>

record 'd engine =
  open_db :: "string \<Rightarrow> error + 'd"
  run_select :: "'d \<Rightarrow> select \<Rightarrow> error + (sql list list \<times> error option)"
  run_exec :: "'d \<Rightarrow> command \<Rightarrow> 'd \<times> (error + int)"
  begin_tx :: "'d \<Rightarrow> 'd \<times> error option"
  prepare :: "'d \<Rightarrow> error option"
  commit :: "'d \<Rightarrow> 'd \<times> error option"
  rollback :: "'d \<Rightarrow> 'd"

text \<open>\<open>saved d\<close> is what a rollback goes back to.\<close>

locale sql_engine =
  fixes E :: "'d engine" and tables :: "'d \<Rightarrow> database" and saved :: "'d \<Rightarrow> database"
  assumes select_sound: "run_select E d q = Inr (out, err) \<Longrightarrow>
      \<exists>more. answers (tables d) q (out @ more) \<and> (err = None \<longrightarrow> more = [])"
    and exec_done: "run_exec E d c = (d', Inr n) \<Longrightarrow> (tables d', n) = effect c (tables d)"
    and exec_failed: "run_exec E d c = (d', Inl why) \<Longrightarrow> tables d' = tables d"
    and exec_saved: "saved (fst (run_exec E d c)) = saved d"
    and begin_tables: "tables (fst (begin_tx E d)) = tables d"
    and begin_saved: "snd (begin_tx E d) = None \<Longrightarrow> saved (fst (begin_tx E d)) = tables d"
    and commit_done: "snd (commit E d) = None \<Longrightarrow> tables (fst (commit E d)) = tables d"
    and commit_failed: "snd (commit E d) = Some why \<Longrightarrow> tables (fst (commit E d)) = saved d"
    and rollback_tables: "tables (rollback E d) = saved d"

text \<open>An engine that does not fail.\<close>

locale working_engine = sql_engine E tables saved
  for E :: "'d engine" and tables :: "'d \<Rightarrow> database" and saved :: "'d \<Rightarrow> database" +
  assumes select_ok: "\<exists>out. run_select E d q = Inr (out, None)"
    and exec_ok: "(\<nexists>t r. c = Insert t r) \<Longrightarrow> \<exists>d' n. run_exec E d c = (d', Inr n)"

section \<open>The engine of the tables\<close>

fun newest_in_group :: "string \<Rightarrow> row list \<Rightarrow> row list" where
  "newest_in_group g [] = []"
| "newest_in_group g (r # rs) =
     (let hs = newest_in_group g rs in
      if list_ex (\<lambda>h. cell h g = cell r g \<and> created r \<le> created h) hs then hs
      else r # filter (\<lambda>h. cell h g \<noteq> cell r g) hs)"

definition sort_rows :: "row list \<Rightarrow> row list" where
  "sort_rows rs = sort_key (\<lambda>r. - created r) rs"

fun table_select :: "database \<Rightarrow> select \<Rightarrow> sql list list" where
  "table_select db (Select cols t cs newest limit) =
     (let rs = filter (\<lambda>r. holds_conds r cs) (db t)
      in map (project cols) (limited limit (if newest then sort_rows rs else rs)))"
| "table_select db (Exists t cs) = map (\<lambda>r. [Integer 1]) (filter (\<lambda>r. holds_conds r cs) (db t))"
| "table_select db (Count t cs) = [[Integer (int (length (filter (\<lambda>r. holds_conds r cs) (db t))))]]"
| "table_select db (NewestPerGroup cols t cs g limit) =
     map (project cols) (limited limit (sort_rows (newest_in_group g (filter (\<lambda>r. holds_conds r cs) (db t)))))"
| "table_select db (Pragma p) = [[Integer 1]]"

definition table_engine :: "(database \<times> database) engine" where
  "table_engine =
    \<lparr>open_db = (\<lambda>path. Inr ((\<lambda>t. []), (\<lambda>t. []))),
     run_select = (\<lambda>d q. Inr (table_select (fst d) q, None)),
     run_exec = (\<lambda>d c. case effect c (fst d) of (db, n) \<Rightarrow> ((db, snd d), Inr n)),
     begin_tx = (\<lambda>d. ((fst d, fst d), None)),
     prepare = (\<lambda>d. None),
     commit = (\<lambda>d. (d, None)),
     rollback = (\<lambda>d. (snd d, snd d))\<rparr>"

lemma sort_rows_facts: "mset (sort_rows rs) = mset rs" "newest_first (sort_rows rs)" "set (sort_rows rs) = set rs"
proof -
  have "sorted (map (\<lambda>r. - created r) (sort_rows rs))" by (simp add: sort_rows_def)
  then show "newest_first (sort_rows rs)" by (simp add: newest_first_def sorted_map)
qed (simp_all add: sort_rows_def)

lemma newest_in_group_heads: "group_heads g rows (newest_in_group g rows)"
proof (induction rows)
  case (Cons r rs)
  let ?h = "newest_in_group g rs"
  show ?case
  proof (cases "list_ex (\<lambda>h. cell h g = cell r g \<and> created r \<le> created h) ?h")
    case True
    then show ?thesis using Cons by (fastforce simp: group_heads_def list_ex_iff Let_def)
  next
    case False
    have "distinct (map (\<lambda>r. cell r g) (filter (\<lambda>h. cell h g \<noteq> cell r g) ?h))"
      using Cons by (auto simp: group_heads_def distinct_map_filter)
    moreover have "\<exists>h \<in> set (r # filter (\<lambda>h. cell h g \<noteq> cell r g) ?h). cell h g = cell s g \<and> created s \<le> created h"
      if s: "s \<in> set (r # rs)" for s
    proof (cases "cell s g = cell r g")
      case True
      show ?thesis
      proof (cases "s = r")
        case False
        then obtain h where h: "h \<in> set ?h" "cell h g = cell s g" "created s \<le> created h"
          using s Cons by (auto simp: group_heads_def)
        then have "\<not> created r \<le> created h" using \<open>\<not> list_ex _ _\<close> True by (auto simp: list_ex_iff)
        then show ?thesis using True h by (intro bexI [of _ r]) auto
      qed simp
    next
      case False
      then show ?thesis using s Cons by (fastforce simp: group_heads_def)
    qed
    ultimately show ?thesis using False Cons by (auto simp: group_heads_def Let_def)
  qed
qed (simp add: group_heads_def)

lemma group_heads_sort: "group_heads g rows rs \<Longrightarrow> group_heads g rows (sort_rows rs)"
proof -
  assume g: "group_heads g rows rs"
  have "mset (map (\<lambda>r. cell r g) (sort_rows rs)) = mset (map (\<lambda>r. cell r g) rs)"
    by (simp add: sort_rows_facts)
  then have "distinct (map (\<lambda>r. cell r g) (sort_rows rs)) = distinct (map (\<lambda>r. cell r g) rs)"
    by (rule mset_eq_imp_distinct_iff)
  with g show ?thesis by (simp add: group_heads_def sort_rows_facts)
qed

lemma table_select_answers: "answers db q (table_select db q)"
proof (cases q)
  case (Select cols t cs newest limit)
  let ?rs = "filter (\<lambda>r. holds_conds r cs) (db t)"
  show ?thesis
    using sort_rows_facts [of ?rs] by (auto simp: Select Let_def intro!: exI [of _ "if newest then sort_rows ?rs else ?rs"])
next
  case (NewestPerGroup cols t cs g limit)
  let ?rs = "newest_in_group g (filter (\<lambda>r. holds_conds r cs) (db t))"
  show ?thesis
    using group_heads_sort [OF newest_in_group_heads] sort_rows_facts [of ?rs]
    by (auto simp: NewestPerGroup intro!: exI [of _ "sort_rows ?rs"])
qed simp_all

interpretation tables: working_engine table_engine fst snd
proof (unfold_locales, goal_cases)
  case (1 d q out err)
  then show ?case using table_select_answers [of "fst d" q] by (auto simp: table_engine_def)
next
  case (11 c d)
  show ?case by (cases "effect c (fst d)") (auto simp: table_engine_def)
qed (auto simp: table_engine_def case_prod_beta)

end
