(* ===== verification/SqliteStore.thy ===== *)
theory SqliteStore
  imports SqlEngine MemoryStore
begin

text \<open>
  The SQLite store, \<^verbatim>\<open>internal/store/sqlite/sqlite.go\<close>, the one the relay command starts: one
  definition per function, over any SQL engine. The state is the engine's; the clock readings of a
  call and the order \<^verbatim>\<open>sort.Slice\<close> gives to ties are arguments.
\<close>

section \<open>Scanning\<close>

text \<open>\<^verbatim>\<open>Rows.Scan\<close> converts a column to the type of its destination; the text of its errors is left out.\<close>

definition scan_err :: error where
  "scan_err = ErrorString ''sql: Scan error''"

fun andthen :: "error + 'a \<Rightarrow> ('a \<Rightarrow> error + 'b) \<Rightarrow> error + 'b" where
  "andthen (Inl err) f = Inl err"
| "andthen (Inr x) f = f x"

fun scan_text :: "sql \<Rightarrow> error + string" where
  "scan_text (Text s) = Inr s"
| "scan_text (Integer n) = Inr (show_int n)"
| "scan_text Null = Inl scan_err"

fun scan_int :: "sql \<Rightarrow> error + int" where
  "scan_int (Integer n) = Inr n"
| "scan_int (Text s) = (case ParseInt s of Some n \<Rightarrow> Inr n | None \<Rightarrow> Inl scan_err)"
| "scan_int Null = Inl scan_err"

fun scan_bool :: "sql \<Rightarrow> error + bool" where
  "scan_bool (Integer n) = (if n = 1 then Inr True else if n = 0 then Inr False else Inl scan_err)"
| "scan_bool (Text s) = Inl scan_err"
| "scan_bool Null = Inl scan_err"

fun scan_null_text :: "sql \<Rightarrow> error + string option" where
  "scan_null_text Null = Inr None"
| "scan_null_text v = andthen (scan_text v) (\<lambda>s. Inr (Some s))"

fun scan_one :: "(sql \<Rightarrow> error + 'a) \<Rightarrow> sql list \<Rightarrow> error + 'a" where
  "scan_one f [v] = f v"
| "scan_one f _ = Inl scan_err"

text \<open>The seven columns of an event, with the tags as the given reader takes them.\<close>

fun scan_columns :: "(sql \<Rightarrow> error + string slice slice) \<Rightarrow> sql list \<Rightarrow> error + event" where
  "scan_columns rd [i, pk, t, k, tg, c, sg] =
     andthen (scan_text i) (\<lambda>i. andthen (scan_text pk) (\<lambda>pk. andthen (scan_int t) (\<lambda>t.
     andthen (scan_int k) (\<lambda>k. andthen (rd tg) (\<lambda>tg. andthen (scan_text c) (\<lambda>c. andthen (scan_text sg) (\<lambda>sg.
       Inr \<lparr>ID = i, PubKey = pk, CreatedAt = t, Kind = k, Tags = tg, Content = c, Sig = sg\<rparr>)))))))"
| "scan_columns rd _ = Inl scan_err"

definition scan_event :: "sql list \<Rightarrow> error + event" where
  "scan_event = scan_columns (\<lambda>v. andthen (scan_null_text v) (\<lambda>col. Inr (column_tags col)))"

text \<open>A channel event has its channel as the second column, which is read and dropped.\<close>

fun scan_channel_event :: "sql list \<Rightarrow> error + event" where
  "scan_channel_event (i # ch # vs) =
     andthen (scan_text ch) (\<lambda>_. scan_columns (\<lambda>v. andthen (scan_text v) (\<lambda>col. Inr (jsonToTags col))) (i # vs))"
| "scan_channel_event _ = Inl scan_err"

fun scan_rows :: "(sql list \<Rightarrow> error + 'a) \<Rightarrow> sql list list \<Rightarrow> error + 'a list" where
  "scan_rows f [] = Inr []"
| "scan_rows f (r # rs) = andthen (f r) (\<lambda>x. andthen (scan_rows f rs) (\<lambda>xs. Inr (x # xs)))"

text \<open>\<^verbatim>\<open>QueryContext\<close> and the loop over its rows, with what is said of each failure; \<open>ended\<close> is what becomes
  of \<^verbatim>\<open>rows.Err\<close>.\<close>

definition fetch :: "'d engine \<Rightarrow> 'd \<Rightarrow> select \<Rightarrow> (sql list \<Rightarrow> error + 'a) \<Rightarrow> string \<Rightarrow> string \<Rightarrow>
    (error \<Rightarrow> error) \<Rightarrow> error + 'a list" where
  "fetch E d q f no_query no_scan ended =
    (case run_select E d q of
       Inl err \<Rightarrow> Inl (wrap_err no_query err)
     | Inr (rows, stop) \<Rightarrow>
         (case scan_rows f rows of
            Inl err \<Rightarrow> Inl (wrap_err no_scan err)
          | Inr xs \<Rightarrow> (case stop of None \<Rightarrow> Inr xs | Some err \<Rightarrow> Inl (ended err))))"

text \<open>\<^verbatim>\<open>QueryRowContext\<close>: the first row, \<open>None\<close> for \<^verbatim>\<open>sql.ErrNoRows\<close>.\<close>

definition QueryRow :: "'d engine \<Rightarrow> 'd \<Rightarrow> select \<Rightarrow> (sql list \<Rightarrow> error + 'a) \<Rightarrow> error + 'a option" where
  "QueryRow E d q f =
    (case run_select E d q of
       Inl err \<Rightarrow> Inl err
     | Inr ([], None) \<Rightarrow> Inr None
     | Inr ([], Some err) \<Rightarrow> Inl err
     | Inr (r # _, _) \<Rightarrow> andthen (f r) (\<lambda>x. Inr (Some x)))"

section \<open>Opening a database\<close>

record Options =
  MaxOpenConns :: int
  MaxIdleConns :: int
  ConnMaxLifetime :: int
  EnableWAL :: bool
  CacheSize :: int
  BusyTimeout :: int

definition DefaultOptions :: Options where
  "DefaultOptions = \<lparr>MaxOpenConns = 25, MaxIdleConns = 5, ConnMaxLifetime = 5 * 60 * 10 ^ 9, EnableWAL = True,
     CacheSize = -2000, BusyTimeout = 5 * 10 ^ 9\<rparr>"

definition buildDSN :: "string \<Rightarrow> string" where
  "buildDSN dbPath = dbPath"

text \<open>Commands in order, up to the first failure.\<close>

fun run_all :: "'d engine \<Rightarrow> (command \<times> string) list \<Rightarrow> 'd \<Rightarrow> 'd \<times> error option" where
  "run_all E [] d = (d, None)"
| "run_all E ((c, msg) # cs) d =
     (case run_exec E d c of
        (d', Inl err) \<Rightarrow> (d', Some (wrap_err msg err))
      | (d', Inr _) \<Rightarrow> run_all E cs d')"

definition configurePerformance :: "'d engine \<Rightarrow> Options \<Rightarrow> 'd \<Rightarrow> 'd \<times> error option" where
  "configurePerformance E opts = run_all E
    ((if EnableWAL opts then [(SetPragma ''journal_mode=WAL'', ''failed to enable WAL mode: '')] else []) @
     (if CacheSize opts \<noteq> 0
      then [(SetPragma (''cache_size='' @ show_int (CacheSize opts)), ''failed to set cache size: '')] else []) @
     (if BusyTimeout opts > 0
      then [(SetPragma (''busy_timeout='' @ show_int (BusyTimeout opts div 10 ^ 6)), ''failed to set busy timeout: '')]
      else []) @
     [(SetPragma ''foreign_keys=ON'', ''failed to enable foreign keys: ''),
      (SetPragma ''synchronous=NORMAL'', ''failed to set synchronous mode: ''),
      (SetPragma ''temp_store=MEMORY'', ''failed to set temp store: '')])"

abbreviation event_columns :: "string list" where
  "event_columns \<equiv> [''id'', ''pubkey'', ''created_at'', ''kind'', ''tags'', ''content'', ''sig'']"

abbreviation channel_columns :: "string list" where
  "channel_columns \<equiv> [''id'', ''channel_id'', ''pubkey'', ''created_at'', ''kind'', ''tags'', ''content'', ''sig'']"

definition migrations :: "(int \<times> command) list" where
  "migrations =
    [(1, CreateTables [(''events'', event_columns)]),
     (2, CreateTables [(''deleted_events'', [''id'', ''deleter_pubkey'', ''deleted_at''])]),
     (3, CreateTables [(''channel_events'', channel_columns)])]"

fun migration_loop :: "'d engine \<Rightarrow> int \<Rightarrow> (int \<times> command) list \<Rightarrow> 'd \<Rightarrow> 'd \<times> error option" where
  "migration_loop E now [] d = (d, None)"
| "migration_loop E now ((version, script) # ms) d =
     (case QueryRow E d (Count ''schema_migrations'' [Equals ''version'' (Integer version)]) (scan_one scan_int) of
        Inl err \<Rightarrow> (d, Some (wrap_err (''failed to check migration '' @ show_int version @ '': '') err))
      | Inr None \<Rightarrow> (d, Errorf (''failed to check migration '' @ show_int version @ '': sql: no rows in result set''))
      | Inr (Some n) \<Rightarrow>
          if n > 0 then migration_loop E now ms d
          else (case run_exec E d script of
            (d1, Inl err) \<Rightarrow> (d1, Some (wrap_err (''failed to apply migration '' @ show_int version @ '': '') err))
          | (d1, Inr _) \<Rightarrow>
              (case run_exec E d1 (Insert ''schema_migrations''
                  [(''version'', Integer version), (''applied_at'', Integer now)]) of
                 (d2, Inl err) \<Rightarrow> (d2, Some (wrap_err (''failed to record migration '' @ show_int version @ '': '') err))
               | (d2, Inr _) \<Rightarrow> migration_loop E now ms d2)))"

definition runMigrations :: "'d engine \<Rightarrow> int \<Rightarrow> 'd \<Rightarrow> 'd \<times> error option" where
  "runMigrations E now d = migration_loop E now migrations d"

definition initSchema :: "'d engine \<Rightarrow> int \<Rightarrow> 'd \<Rightarrow> 'd \<times> error option" where
  "initSchema E now d =
    (case run_exec E d (CreateTables [(''schema_migrations'', [''version'', ''applied_at''])]) of
       (d', Inl err) \<Rightarrow> (d', Some (wrap_err ''failed to create migrations table: '' err))
     | (d', Inr _) \<Rightarrow>
         (case runMigrations E now d' of
            (d'', Some err) \<Rightarrow> (d'', Some (wrap_err ''failed to run migrations: '' err))
          | (d'', None) \<Rightarrow> (d'', None)))"

text \<open>The settings of the connection pool that are made.\<close>

definition pool_settings :: "Options \<Rightarrow> (string \<times> int) list" where
  "pool_settings opts =
     (if MaxOpenConns opts > 0 then [(''SetMaxOpenConns'', MaxOpenConns opts)] else []) @
     (if MaxIdleConns opts \<ge> 0 then [(''SetMaxIdleConns'', MaxIdleConns opts)] else []) @
     (if ConnMaxLifetime opts > 0 then [(''SetConnMaxLifetime'', ConnMaxLifetime opts)] else [])"

definition NewWithOptions :: "'d engine \<Rightarrow> int \<Rightarrow> string \<Rightarrow> Options option \<Rightarrow>
    error + ('d \<times> (string \<times> int) list)" where
  "NewWithOptions E now dbPath opts0 =
    (let opts = (case opts0 of None \<Rightarrow> DefaultOptions | Some opts \<Rightarrow> opts) in
     case open_db E (buildDSN dbPath) of
       Inl err \<Rightarrow> Inl (wrap_err ''failed to open database: '' err)
     | Inr d \<Rightarrow>
         (case configurePerformance E opts d of
            (d1, Some err) \<Rightarrow> Inl (wrap_err ''failed to configure performance: '' err)
          | (d1, None) \<Rightarrow>
              (case initSchema E now d1 of
                 (d2, Some err) \<Rightarrow> Inl (wrap_err ''failed to initialize schema: '' err)
               | (d2, None) \<Rightarrow> Inr (d2, pool_settings opts))))"

definition sqlite_New :: "'d engine \<Rightarrow> int \<Rightarrow> string \<Rightarrow> error + ('d \<times> (string \<times> int) list)" where
  "sqlite_New E now dbPath = NewWithOptions E now dbPath (Some DefaultOptions)"

section \<open>Saving\<close>

definition isReplaceableKind :: "int \<Rightarrow> bool" where
  "isReplaceableKind kind = (kind = 0 \<or> kind = 3 \<or> (kind \<ge> 10000 \<and> kind < 20000))"

definition check_deleted :: "'d engine \<Rightarrow> 'd \<Rightarrow> string \<Rightarrow> error + bool" where
  "check_deleted E d i =
    (case QueryRow E d (Exists ''deleted_events'' [Equals ''id'' (Text i)]) (scan_one scan_bool) of
       Inl err \<Rightarrow> Inl (wrap_err ''failed to check deletion status: '' err)
     | Inr None \<Rightarrow> Inr False
     | Inr (Some marked) \<Rightarrow> Inr marked)"

definition event_row :: "event \<Rightarrow> row" where
  "event_row e = [(''id'', Text (ID e)), (''pubkey'', Text (PubKey e)), (''created_at'', Integer (CreatedAt e)),
     (''kind'', Integer (Kind e)), (''tags'', Text (tagsToJSON (Tags e))), (''content'', Text (Content e)),
     (''sig'', Text (Sig e))]"

text \<open>Whether a newer event of the author and kind is there; a failing query counts as no.\<close>

definition newer_exists :: "'d engine \<Rightarrow> 'd \<Rightarrow> event \<Rightarrow> bool" where
  "newer_exists E d evt =
    (case QueryRow E d (Select [''created_at''] ''events''
        [Equals ''pubkey'' (Text (PubKey evt)), Equals ''kind'' (Integer (Kind evt))] True (Some 1)) (scan_one scan_int) of
       Inr (Some existingCreatedAt) \<Rightarrow> CreatedAt evt < existingCreatedAt
     | _ \<Rightarrow> False)"

definition sq_SaveEvent :: "'d engine \<Rightarrow> 'd \<Rightarrow> event \<Rightarrow> 'd \<times> error option" where
  "sq_SaveEvent E d evt =
    (case check_deleted E d (ID evt) of
       Inl err \<Rightarrow> (d, Some err)
     | Inr True \<Rightarrow> (d, Errorf ''event has been deleted'')
     | Inr False \<Rightarrow>
         if isReplaceableKind (Kind evt) \<and> newer_exists E d evt then (d, None)
         else
           let d1 = (if isReplaceableKind (Kind evt)
                 then fst (run_exec E d (DeleteRows ''events''
                   [Equals ''pubkey'' (Text (PubKey evt)), Equals ''kind'' (Integer (Kind evt)), Differs ''id'' (Text (ID evt))]))
                 else d)
           in (case run_exec E d1 (InsertReplace ''events'' (event_row evt)) of
                 (d2, Inl err) \<Rightarrow> (d2, Some (wrap_err ''failed to save event: '' err))
               | (d2, Inr _) \<Rightarrow> (d2, None)))"

text \<open>The loop inside the transaction of a batch.\<close>

fun save_batch :: "'d engine \<Rightarrow> event list \<Rightarrow> 'd \<Rightarrow> 'd \<times> error option" where
  "save_batch E [] d = (d, None)"
| "save_batch E (evt # es) d =
     (case check_deleted E d (ID evt) of
        Inl err \<Rightarrow> (d, Some err)
      | Inr True \<Rightarrow> save_batch E es d
      | Inr False \<Rightarrow>
          (case run_exec E d (InsertReplace ''events'' (event_row evt)) of
             (d', Inl err) \<Rightarrow> (d', Some (wrap_err (''failed to save event '' @ ID evt @ '': '') err))
           | (d', Inr _) \<Rightarrow> save_batch E es d'))"

text \<open>Every return after the start of the transaction runs the deferred rollback; after a commit it has
  nothing to undo.\<close>

definition SaveEvents :: "'d engine \<Rightarrow> 'd \<Rightarrow> event list \<Rightarrow> 'd \<times> error option" where
  "SaveEvents E d es =
    (if es = [] then (d, None)
     else (case begin_tx E d of
       (d1, Some err) \<Rightarrow> (d1, Some (wrap_err ''failed to begin transaction: '' err))
     | (d1, None) \<Rightarrow>
         (case prepare E d1 of
            Some err \<Rightarrow> (rollback E d1, Some (wrap_err ''failed to prepare statement: '' err))
          | None \<Rightarrow>
              (case save_batch E es d1 of
                 (d2, Some err) \<Rightarrow> (rollback E d2, Some err)
               | (d2, None) \<Rightarrow>
                   (case commit E d2 of
                      (d3, Some err) \<Rightarrow> (d3, Some (wrap_err ''failed to commit transaction: '' err))
                    | (d3, None) \<Rightarrow> (d3, None))))))"

section \<open>Reading\<close>

definition where_in :: "string \<Rightarrow> ('a \<Rightarrow> sql) \<Rightarrow> 'a slice \<Rightarrow> cond list" where
  "where_in column f xs = (case xs of None \<Rightarrow> [] | Some vs \<Rightarrow> [In column (map f vs)])"

text \<open>The clause that \<^verbatim>\<open>queryFilter\<close> and \<^verbatim>\<open>countFilter\<close> build: tags and search text do not occur in it.\<close>

definition where_clause :: "filt \<Rightarrow> cond list" where
  "where_clause f =
     where_in ''id'' Text (IDs f) @ where_in ''pubkey'' Text (Authors f) @ where_in ''kind'' Integer (Kinds f) @
     (case Since f of None \<Rightarrow> [] | Some t \<Rightarrow> [AtLeast ''created_at'' t]) @
     (case Until f of None \<Rightarrow> [] | Some t \<Rightarrow> [AtMost ''created_at'' t])"

definition queryFilter :: "'d engine \<Rightarrow> 'd \<Rightarrow> filt \<Rightarrow> error + event list" where
  "queryFilter E d f =
     fetch E d (Select event_columns ''events'' (where_clause f) True (Limit f)) scan_event
       ''failed to execute query: '' ''failed to scan row: '' (\<lambda>err. err)"

text \<open>The events of one filter that were not seen before.\<close>

fun add_unseen :: "event list \<Rightarrow> event list \<Rightarrow> (string, bool) gomap \<Rightarrow> event list \<times> (string, bool) gomap" where
  "add_unseen [] results seen = (results, seen)"
| "add_unseen (evt # es) results seen =
     (if \<not> mtrue seen (ID evt) then add_unseen es (results @ [evt]) (mput (ID evt) True seen)
      else add_unseen es results seen)"

fun sq_query_loop :: "'d engine \<Rightarrow> 'd \<Rightarrow> filt list \<Rightarrow> event list \<Rightarrow> (string, bool) gomap \<Rightarrow> error + event list" where
  "sq_query_loop E d [] results seen = Inr results"
| "sq_query_loop E d (f # fs) results seen =
     (case queryFilter E d f of
        Inl err \<Rightarrow> Inl (wrap_err ''failed to query filter: '' err)
      | Inr es \<Rightarrow> (case add_unseen es results seen of (results', seen') \<Rightarrow> sq_query_loop E d fs results' seen'))"

definition sq_QueryEvents :: "'d engine \<Rightarrow> (string \<Rightarrow> nat) \<Rightarrow> 'd \<Rightarrow> filt list \<Rightarrow> event list outcome" where
  "sq_QueryEvents E ties d filters =
    (if filters = [] then Ok []
     else (case sq_query_loop E d filters [] [] of
       Inl err \<Rightarrow> Err err
     | Inr results \<Rightarrow> apply_limit filters (sort_newest ties results)))"

definition sq_GetEvent :: "'d engine \<Rightarrow> 'd \<Rightarrow> string \<Rightarrow> error + event" where
  "sq_GetEvent E d eventID =
    (case check_deleted E d eventID of
       Inl err \<Rightarrow> Inl err
     | Inr True \<Rightarrow> Inl (ErrorString ''event has been deleted'')
     | Inr False \<Rightarrow>
         (case QueryRow E d (Select event_columns ''events'' [Equals ''id'' (Text eventID)] False None) scan_event of
            Inl err \<Rightarrow> Inl (wrap_err ''failed to get event: '' err)
          | Inr None \<Rightarrow> Inl ErrNotFound
          | Inr (Some evt) \<Rightarrow> Inr evt))"

definition countFilter :: "'d engine \<Rightarrow> 'd \<Rightarrow> filt \<Rightarrow> error + int" where
  "countFilter E d f =
    (case QueryRow E d (Count ''events'' (where_clause f)) (scan_one scan_int) of
       Inl err \<Rightarrow> Inl (wrap_err ''failed to execute count query: '' err)
     | Inr None \<Rightarrow> Inl (ErrorString ''failed to execute count query: sql: no rows in result set'')
     | Inr (Some n) \<Rightarrow> Inr n)"

fun count_loop :: "'d engine \<Rightarrow> 'd \<Rightarrow> filt list \<Rightarrow> int \<Rightarrow> error + int" where
  "count_loop E d [] acc = Inr acc"
| "count_loop E d (f # fs) acc =
     (case countFilter E d f of
        Inl err \<Rightarrow> Inl (wrap_err ''failed to count filter: '' err)
      | Inr n \<Rightarrow> count_loop E d fs (acc + n))"

definition sq_CountEvents :: "'d engine \<Rightarrow> 'd \<Rightarrow> filt list \<Rightarrow> error + int" where
  "sq_CountEvents E d filters = (if filters = [] then Inr 0 else count_loop E d filters 0)"

section \<open>Deleting\<close>

definition mark_deleted :: "int \<Rightarrow> string \<Rightarrow> string \<Rightarrow> command" where
  "mark_deleted now eventID pk = InsertIgnore ''deleted_events''
     [(''id'', Text eventID), (''deleter_pubkey'', Text pk), (''deleted_at'', Integer now)]"

definition sq_DeleteEvent :: "'d engine \<Rightarrow> int \<Rightarrow> 'd \<Rightarrow> string \<Rightarrow> string \<Rightarrow> 'd \<times> error option" where
  "sq_DeleteEvent E now d eventID deleterPubKey =
    (case QueryRow E d (Select [''pubkey''] ''events'' [Equals ''id'' (Text eventID)] False None) (scan_one scan_text) of
       Inr None \<Rightarrow> (d, Some ErrNotFound)
     | Inl err \<Rightarrow> (d, Some (wrap_err ''failed to check event: '' err))
     | Inr (Some author) \<Rightarrow>
         if author \<noteq> deleterPubKey then (d, Errorf ''unauthorized: only event author can delete'')
         else (case run_exec E d (mark_deleted now eventID deleterPubKey) of
           (d', Inl err) \<Rightarrow> (d', Some (wrap_err ''failed to mark event as deleted: '' err))
         | (d', Inr _) \<Rightarrow> (d', None)))"

fun mark_all :: "'d engine \<Rightarrow> int \<Rightarrow> string \<Rightarrow> string list \<Rightarrow> 'd \<Rightarrow> 'd \<times> error option" where
  "mark_all E now pubkey [] d = (d, None)"
| "mark_all E now pubkey (i # is) d =
     (case run_exec E d (mark_deleted now i pubkey) of
        (d', Inl err) \<Rightarrow> (d', Some (wrap_err (''failed to mark event '' @ i @ '' as deleted: '') err))
      | (d', Inr _) \<Rightarrow> mark_all E now pubkey is d')"

definition sq_DeleteAllEventsByPubKey :: "'d engine \<Rightarrow> int \<Rightarrow> 'd \<Rightarrow> string \<Rightarrow> 'd \<times> error option" where
  "sq_DeleteAllEventsByPubKey E now d pubkey =
    (case fetch E d (Select [''id''] ''events'' [Equals ''pubkey'' (Text pubkey)] False None) (scan_one scan_text)
        ''failed to query events for pubkey: '' ''failed to scan event ID: '' (wrap_err ''error iterating events: '') of
       Inl err \<Rightarrow> (d, Some err)
     | Inr eventIDs \<Rightarrow> mark_all E now pubkey eventIDs d)"

definition sq_DeleteEventsOlderThan :: "'d engine \<Rightarrow> 'd \<Rightarrow> int \<Rightarrow> int list \<Rightarrow> 'd \<times> (error + int)" where
  "sq_DeleteEventsOlderThan E d before exemptKinds =
    (case run_exec E d (DeleteRows ''events''
        (if exemptKinds = [] then [Below ''created_at'' before]
         else [Below ''created_at'' before, NotIn ''kind'' (map Integer exemptKinds)])) of
       (d', Inl err) \<Rightarrow> (d', Inl (wrap_err ''failed to delete old events: '' err))
     | (d', Inr n) \<Rightarrow> (d', Inr n))"

text \<open>Times in nanoseconds; the cutoff is the second it falls in.\<close>

definition PruneDeletedEvents :: "'d engine \<Rightarrow> int \<Rightarrow> 'd \<Rightarrow> int \<Rightarrow> 'd \<times> (error + int)" where
  "PruneDeletedEvents E now d age =
    (case run_exec E d (DeleteRows ''deleted_events'' [Below ''deleted_at'' ((now + wrap64 (- age)) div 10 ^ 9)]) of
       (d', Inl err) \<Rightarrow> (d', Inl (wrap_err ''failed to prune deleted events: '' err))
     | (d', Inr n) \<Rightarrow> (d', Inr n))"

definition Vacuum :: "'d engine \<Rightarrow> 'd \<Rightarrow> 'd \<times> error option" where
  "Vacuum E d =
    (case run_exec E d VacuumAll of
       (d', Inl err) \<Rightarrow> (d', Some (wrap_err ''failed to vacuum database: '' err))
     | (d', Inr _) \<Rightarrow> (d', None))"

record Stats =
  EventCount :: int
  DeletedEventCount :: int
  DatabaseSizeKB :: int

text \<open>Division of 64-bit integers truncates.\<close>

definition quot64 :: "int \<Rightarrow> int \<Rightarrow> int" where
  "quot64 a b = (if a < 0 then - ((- a) div b) else a div b)"

text \<open>The number in the one row of a query; no row is an error of its own.\<close>

definition one_number :: "'d engine \<Rightarrow> 'd \<Rightarrow> select \<Rightarrow> error + int" where
  "one_number E d q =
    (case QueryRow E d q (scan_one scan_int) of
       Inl err \<Rightarrow> Inl err
     | Inr None \<Rightarrow> Inl (ErrorString ''sql: no rows in result set'')
     | Inr (Some n) \<Rightarrow> Inr n)"

definition GetStats :: "'d engine \<Rightarrow> 'd \<Rightarrow> error + Stats" where
  "GetStats E d =
    (case one_number E d (Count ''events'' []) of
       Inl err \<Rightarrow> Inl (wrap_err ''failed to count events: '' err)
     | Inr evs \<Rightarrow>
         (case one_number E d (Count ''deleted_events'' []) of
            Inl err \<Rightarrow> Inl (wrap_err ''failed to count deleted events: '' err)
          | Inr dels \<Rightarrow>
              Inr \<lparr>EventCount = evs, DeletedEventCount = dels, DatabaseSizeKB =
                (case (one_number E d (Pragma ''page_count''), one_number E d (Pragma ''page_size'')) of
                   (Inr pageCount, Inr pageSize) \<Rightarrow> quot64 (wrap64 (pageCount * pageSize)) 1024
                 | _ \<Rightarrow> 0)\<rparr>))"

section \<open>Channel events\<close>

definition sq_getChannelID :: "event \<Rightarrow> string" where
  "sq_getChannelID e = first_tag_or_empty ''channel_id'' e"

definition channel_row :: "event \<Rightarrow> row" where
  "channel_row e = (''id'', Text (ID e)) # (''channel_id'', Text (sq_getChannelID e)) # tl (event_row e)"

definition sq_SaveChannelEvent :: "'d engine \<Rightarrow> 'd \<Rightarrow> event \<Rightarrow> 'd \<times> error option" where
  "sq_SaveChannelEvent E d evt =
    (case run_exec E d (InsertReplace ''channel_events'' (channel_row evt)) of
       (d', Inl err) \<Rightarrow> (d', Some (wrap_err ''failed to save channel event: '' err))
     | (d', Inr _) \<Rightarrow> (d', None))"

definition sq_GetChannelEvent :: "'d engine \<Rightarrow> 'd \<Rightarrow> string \<Rightarrow> error + event" where
  "sq_GetChannelEvent E d eventID =
    (case QueryRow E d (Select channel_columns ''channel_events'' [Equals ''id'' (Text eventID)] False None) scan_channel_event of
       Inl err \<Rightarrow> Inl (wrap_err ''failed to get channel event: '' err)
     | Inr None \<Rightarrow> Inl ErrNotFound
     | Inr (Some evt) \<Rightarrow> Inr evt)"

definition sq_QueryChannelEvents ::
  "'d engine \<Rightarrow> 'd \<Rightarrow> string \<Rightarrow> int option \<Rightarrow> int option \<Rightarrow> int option \<Rightarrow> error + event list" where
  "sq_QueryChannelEvents E d channelID since until limit =
     fetch E d (Select channel_columns ''channel_events''
         (Equals ''channel_id'' (Text channelID) #
          (case since of None \<Rightarrow> [] | Some t \<Rightarrow> [AtLeast ''created_at'' t]) @
          (case until of None \<Rightarrow> [] | Some t \<Rightarrow> [AtMost ''created_at'' t])) True
         (case limit of Some n \<Rightarrow> if n > 0 then Some n else None | None \<Rightarrow> None)) scan_channel_event
       ''failed to query channel events: '' ''failed to scan channel event: '' (\<lambda>err. err)"

abbreviation metadata_kinds :: cond where
  "metadata_kinds \<equiv> In ''kind'' [Integer 40, Integer 41]"

definition sq_GetChannelMetadata :: "'d engine \<Rightarrow> 'd \<Rightarrow> string \<Rightarrow> error + event" where
  "sq_GetChannelMetadata E d channelID =
    (case QueryRow E d (Select channel_columns ''channel_events''
         [Equals ''channel_id'' (Text channelID), metadata_kinds] True (Some 1)) scan_channel_event of
       Inl err \<Rightarrow> Inl (wrap_err ''failed to get channel metadata: '' err)
     | Inr None \<Rightarrow> Inl ErrNotFound
     | Inr (Some evt) \<Rightarrow> Inr evt)"

definition sq_ListChannels :: "'d engine \<Rightarrow> 'd \<Rightarrow> int \<Rightarrow> error + event list" where
  "sq_ListChannels E d limit =
     fetch E d (NewestPerGroup channel_columns ''channel_events'' [metadata_kinds] ''channel_id''
         (if limit > 0 then Some limit else None)) scan_channel_event
       ''failed to list channels: '' ''failed to scan channel: '' (\<lambda>err. err)"

definition sq_DeleteChannelEvents :: "'d engine \<Rightarrow> 'd \<Rightarrow> string \<Rightarrow> 'd \<times> (error + int)" where
  "sq_DeleteChannelEvents E d channelID =
    (case run_exec E d (DeleteRows ''channel_events'' [Equals ''channel_id'' (Text channelID)]) of
       (d', Inl err) \<Rightarrow> (d', Inl (wrap_err ''failed to delete channel events: '' err))
     | (d', Inr n) \<Rightarrow> (d', Inr n))"

text \<open>The store as the relay sees it. \<open>now\<close> is the time of a deletion, \<open>ties\<close> orders equal timestamps.\<close>

definition sqlite_if :: "'d engine \<Rightarrow> int \<Rightarrow> (string \<Rightarrow> nat) \<Rightarrow> 'd store_if" where
  "sqlite_if E now ties = \<lparr>SaveEvent = sq_SaveEvent E, QueryEvents = sq_QueryEvents E ties,
     DeleteEvent = sq_DeleteEvent E now, DeleteAllEventsByPubKey = sq_DeleteAllEventsByPubKey E now,
     GetEvent = sq_GetEvent E, CountEvents = sq_CountEvents E,
     DeleteChannelEvents = sq_DeleteChannelEvents E,
     DeleteEventsOlderThan = sq_DeleteEventsOlderThan E\<rparr>"

end
