(* ===== verification/SqliteProps.thy ===== *)
theory SqliteProps
  imports SqliteStore Storage
begin

text \<open>
  The SQLite store over any engine that keeps SQLite's promises (\<open>sql_engine\<close>), failures included, and
  over one that does not fail (\<open>working_engine\<close>).

  The tables are typed (\<open>db_inv\<close>): every row has the columns of its table with text and integers where
  the schema has them, and the IDs of a table are distinct. Over that, \<open>sq_stored\<close> is the event read
  back under an ID and \<open>sq_tomb\<close> whether it is marked as deleted.
\<close>

section \<open>Typed tables\<close>

fun text_of :: "sql \<Rightarrow> string" where
  "text_of (Text s) = s"
| "text_of _ = []"

fun int_of :: "sql \<Rightarrow> int" where
  "int_of (Integer n) = n"
| "int_of _ = 0"

fun is_text :: "sql \<Rightarrow> bool" where
  "is_text (Text s) = True"
| "is_text _ = False"

fun is_int :: "sql \<Rightarrow> bool" where
  "is_int (Integer n) = True"
| "is_int _ = False"

definition integer_column :: "string \<Rightarrow> bool" where
  "integer_column c \<longleftrightarrow> c \<in> {''created_at'', ''kind'', ''deleted_at''}"

text \<open>A row of a table with the given columns.\<close>

definition typed_row :: "string list \<Rightarrow> row \<Rightarrow> bool" where
  "typed_row cols r \<longleftrightarrow> map fst r = cols \<and>
     list_all (\<lambda>(c, v). if integer_column c then is_int v else is_text v) r"

abbreviation row_id :: "row \<Rightarrow> sql" where
  "row_id r \<equiv> cell r ''id''"

definition typed_table :: "string list \<Rightarrow> row list \<Rightarrow> bool" where
  "typed_table cols rs \<longleftrightarrow> list_all (typed_row cols) rs \<and> distinct (map row_id rs)"

abbreviation deleted_columns :: "string list" where
  "deleted_columns \<equiv> [''id'', ''deleter_pubkey'', ''deleted_at'']"

definition schema :: "string \<Rightarrow> string list" where
  "schema t = (if t = ''events'' then event_columns else if t = ''deleted_events'' then deleted_columns else channel_columns)"

definition data_tables :: "string list" where
  "data_tables = [''events'', ''deleted_events'', ''channel_events'']"

definition db_inv :: "database \<Rightarrow> bool" where
  "db_inv db \<longleftrightarrow> list_all (\<lambda>t. typed_table (schema t) (db t)) data_tables"

lemma db_inv_tables:
  assumes "db_inv db"
  shows "typed_table event_columns (db ''events'')" "typed_table deleted_columns (db ''deleted_events'')"
    "typed_table channel_columns (db ''channel_events'')"
  using assms by (simp_all add: db_inv_def schema_def data_tables_def)

lemma db_inv_upd: "db_inv db \<Longrightarrow> typed_table (schema t) rs \<Longrightarrow> db_inv (db(t := rs))"
  by (auto simp: db_inv_def list_all_iff)

lemma schema_id [simp]: "schema t \<noteq> []" "hd (schema t) = ''id''"
  by (simp_all add: schema_def)

text \<open>The event that a row of events reads as.\<close>

definition row_event :: "row \<Rightarrow> event" where
  "row_event r = \<lparr>ID = text_of (cell r ''id''), PubKey = text_of (cell r ''pubkey''),
     CreatedAt = int_of (cell r ''created_at''), Kind = int_of (cell r ''kind''),
     Tags = column_tags (Some (text_of (cell r ''tags''))), Content = text_of (cell r ''content''),
     Sig = text_of (cell r ''sig'')\<rparr>"

definition row_channel_event :: "row \<Rightarrow> event" where
  "row_channel_event r = row_event r\<lparr>Tags := jsonToTags (text_of (cell r ''tags''))\<rparr>"

lemma is_textE: "is_text v \<Longrightarrow> (\<And>s. v = Text s \<Longrightarrow> P) \<Longrightarrow> P"
  by (cases v) simp_all

lemma is_intE: "is_int v \<Longrightarrow> (\<And>n. v = Integer n \<Longrightarrow> P) \<Longrightarrow> P"
  by (cases v) simp_all

lemma event_typedE:
  assumes "typed_row event_columns r"
  obtains i pk t k tg c sg where "r = [(''id'', Text i), (''pubkey'', Text pk), (''created_at'', Integer t),
    (''kind'', Integer k), (''tags'', Text tg), (''content'', Text c), (''sig'', Text sg)]"
  using assms by (auto simp: typed_row_def map_eq_Cons_conv integer_column_def elim!: is_textE is_intE)

lemma channel_typedE:
  assumes "typed_row channel_columns r"
  obtains i ch pk t k tg c sg where "r = [(''id'', Text i), (''channel_id'', Text ch), (''pubkey'', Text pk),
    (''created_at'', Integer t), (''kind'', Integer k), (''tags'', Text tg), (''content'', Text c), (''sig'', Text sg)]"
  using assms by (auto simp: typed_row_def map_eq_Cons_conv integer_column_def elim!: is_textE is_intE)

lemma typed_event_row: "typed_row event_columns (event_row e)"
  by (simp add: typed_row_def event_row_def integer_column_def)

lemma typed_channel_row: "typed_row channel_columns (channel_row e)"
  by (simp add: typed_row_def channel_row_def event_row_def integer_column_def)

lemma row_id_row [simp]: "row_id (event_row e) = Text (ID e)" "row_id (channel_row e) = Text (ID e)"
  by (simp_all add: event_row_def channel_row_def cell_def)

text \<open>An event as it is read back.\<close>

definition read_back :: "event \<Rightarrow> event" where
  "read_back e = e\<lparr>Tags := column_tags (Some (tagsToJSON (Tags e)))\<rparr>"

lemma row_event_row: "row_event (event_row e) = read_back e"
  by (simp add: row_event_def event_row_def cell_def read_back_def)

lemma row_event_sel [simp]:
  "ID (row_event r) = text_of (cell r ''id'')" "PubKey (row_event r) = text_of (cell r ''pubkey'')"
  "CreatedAt (row_event r) = int_of (cell r ''created_at'')" "Kind (row_event r) = int_of (cell r ''kind'')"
  by (simp_all add: row_event_def)

lemma read_back_sel [simp]: "ID (read_back e) = ID e" "PubKey (read_back e) = PubKey e" "Kind (read_back e) = Kind e"
  "CreatedAt (read_back e) = CreatedAt e"
  by (simp_all add: read_back_def)

lemma scan_event_row:
  assumes "typed_row event_columns r"
  shows "scan_event (project event_columns r) = Inr (row_event r)"
  by (rule event_typedE [OF assms]) (simp add: scan_event_def project_def cell_def row_event_def)

lemma scan_channel_row:
  assumes "typed_row channel_columns r"
  shows "scan_channel_event (project channel_columns r) = Inr (row_channel_event r)"
  by (rule channel_typedE [OF assms]) (simp add: project_def cell_def row_channel_event_def row_event_def)

lemma scan_rows_map:
  "(\<And>r. r \<in> set rs \<Longrightarrow> f (g r) = Inr (h r)) \<Longrightarrow> scan_rows f (map g rs) = Inr (map h rs)"
  by (induction rs) simp_all

section \<open>Observations\<close>

definition sq_stored :: "database \<Rightarrow> string \<Rightarrow> event option" where
  "sq_stored db i = map_option row_event (find (\<lambda>r. row_id r = Text i) (db ''events''))"

definition sq_tomb :: "database \<Rightarrow> string \<Rightarrow> bool" where
  "sq_tomb db i \<longleftrightarrow> list_ex (\<lambda>r. row_id r = Text i) (db ''deleted_events'')"

lemma find_by_id:
  assumes "distinct (map row_id rs)"
  shows "find (\<lambda>r. row_id r = v) rs = Some r \<longleftrightarrow> r \<in> set rs \<and> row_id r = v"
  using assms by (induction rs) (auto intro: rev_image_eqI)

lemma sq_stored_iff:
  assumes "db_inv db"
  shows "sq_stored db i = Some e \<longleftrightarrow> (\<exists>r \<in> set (db ''events''). row_id r = Text i \<and> e = row_event r)"
proof -
  have "distinct (map row_id (db ''events''))" using db_inv_tables(1) [OF assms] by (simp add: typed_table_def)
  then show ?thesis by (auto simp: sq_stored_def find_by_id)
qed

lemma typed_id: "typed_table cols rs \<Longrightarrow> hd cols = ''id'' \<Longrightarrow> cols \<noteq> [] \<Longrightarrow> r \<in> set rs \<Longrightarrow> row_id r = Text (text_of (row_id r))"
proof -
  assume a: "typed_table cols rs" "hd cols = ''id''" "cols \<noteq> []" "r \<in> set rs"
  then have "typed_row cols r" by (simp add: typed_table_def list_all_iff)
  with a(2,3) show ?thesis
    by (cases r) (auto simp: typed_row_def cell_def integer_column_def elim!: is_textE)
qed

lemma db_inv_event:
  assumes "db_inv db" "r \<in> set (db ''events'')"
  shows "typed_row event_columns r" "row_id r = Text (ID (row_event r))" "sq_stored db (ID (row_event r)) = Some (row_event r)"
proof -
  have t: "typed_table event_columns (db ''events'')" by (rule db_inv_tables(1) [OF assms(1)])
  then show "typed_row event_columns r" using assms(2) by (simp add: typed_table_def list_all_iff)
  show i: "row_id r = Text (ID (row_event r))" using typed_id [OF t _ _ assms(2)] by simp
  show "sq_stored db (ID (row_event r)) = Some (row_event r)"
    unfolding sq_stored_iff [OF assms(1)] using assms(2) i by blast
qed

section \<open>Commands on typed tables\<close>

lemma typed_filter: "typed_table cols rs \<Longrightarrow> typed_table cols (filter P rs)"
  by (auto simp: typed_table_def list_all_iff distinct_map_filter)

lemma typed_snoc: "typed_table cols rs \<Longrightarrow> typed_row cols r \<Longrightarrow> row_id r \<notin> row_id ` set rs \<Longrightarrow> typed_table cols (rs @ [r])"
  by (auto simp: typed_table_def)

lemma same_key_id: "typed_row cols r \<Longrightarrow> cols \<noteq> [] \<Longrightarrow> hd cols = ''id'' \<Longrightarrow> same_key r s \<longleftrightarrow> row_id r = row_id s"
  by (cases r) (auto simp: same_key_def typed_row_def)

lemma typed_replace:
  assumes "typed_table cols rs" "typed_row cols r" "cols \<noteq> []" "hd cols = ''id''"
  shows "typed_table cols (filter (\<lambda>s. \<not> same_key r s) rs @ [r])"
  using assms by (intro typed_snoc typed_filter) (auto simp: same_key_id)

text \<open>The commands of the store keep the tables typed.\<close>

definition well_formed :: "command \<Rightarrow> bool" where
  "well_formed c = (case c of
      InsertReplace t r \<Rightarrow> typed_row (schema t) r
    | InsertIgnore t r \<Rightarrow> typed_row (schema t) r
    | Insert t r \<Rightarrow> t \<notin> set data_tables
    | _ \<Rightarrow> True)"

lemma db_inv_other: "db_inv db \<Longrightarrow> t \<notin> set data_tables \<Longrightarrow> db_inv (db(t := rs))"
  by (auto simp: db_inv_def list_all_iff)

lemma db_inv_filter: "db_inv db \<Longrightarrow> db_inv (db(t := filter P (db t)))"
  by (auto simp: db_inv_def list_all_iff typed_filter)

lemma db_inv_replace:
  assumes "db_inv db" "typed_row (schema t) r"
  shows "db_inv (db(t := filter (\<lambda>s. \<not> same_key r s) (db t) @ [r]))"
proof (cases "t \<in> set data_tables")
  case True
  then have "typed_table (schema t) (db t)" using assms(1) by (simp add: db_inv_def list_all_iff)
  then show ?thesis by (intro db_inv_upd assms(1) typed_replace assms(2)) simp_all
qed (rule db_inv_other [OF assms(1)])

lemma db_inv_ignore:
  assumes "db_inv db" "typed_row (schema t) r" "\<not> list_ex (same_key r) (db t)"
  shows "db_inv (db(t := db t @ [r]))"
proof (cases "t \<in> set data_tables")
  case True
  then have "typed_table (schema t) (db t)" using assms(1) by (simp add: db_inv_def list_all_iff)
  moreover have "row_id r \<notin> row_id ` set (db t)"
    using assms(3) same_key_id [OF assms(2)] by (auto simp: list_ex_iff)
  ultimately show ?thesis by (intro db_inv_upd assms(1) typed_snoc assms(2))
qed (rule db_inv_other [OF assms(1)])

lemma effect_inv: "db_inv db \<Longrightarrow> well_formed c \<Longrightarrow> db_inv (fst (effect c db))"
  by (cases c) (simp_all add: well_formed_def db_inv_replace db_inv_ignore db_inv_other db_inv_filter)

lemma well_formed_simps [simp]:
  "well_formed (InsertReplace ''events'' (event_row e))" "well_formed (InsertReplace ''channel_events'' (channel_row e))"
  "well_formed (mark_deleted now i pk)" "well_formed (DeleteRows t cs)"
  using typed_event_row typed_channel_row
  by (simp_all add: well_formed_def mark_deleted_def typed_row_def integer_column_def schema_def)

section \<open>Calls to the engine\<close>

lemma filter_id:
  assumes "distinct (map row_id rs)"
  shows "filter (\<lambda>r. holds_conds r [Equals ''id'' (Text i)]) rs =
    (case find (\<lambda>r. row_id r = Text i) rs of None \<Rightarrow> [] | Some r \<Rightarrow> [r])"
  using assms
proof (induction rs)
  case (Cons r rs)
  have "row_id r = Text i \<Longrightarrow> find (\<lambda>r. row_id r = Text i) rs = None"
    using Cons.prems by (auto simp: find_None_iff intro: rev_image_eqI)
  then show ?case using Cons by (auto simp: holds_conds_def)
qed simp

lemma sq_tomb_filter: "sq_tomb db i \<longleftrightarrow> filter (\<lambda>r. holds_conds r [Equals ''id'' (Text i)]) (db ''deleted_events'') \<noteq> []"
  by (auto simp: sq_tomb_def holds_conds_def list_ex_iff filter_empty_conv)

lemma event_cells:
  assumes "typed_row event_columns r"
  shows "cell r ''id'' = Text s \<longleftrightarrow> ID (row_event r) = s" "cell r ''pubkey'' = Text s \<longleftrightarrow> PubKey (row_event r) = s"
    "cell r ''kind'' = Integer n \<longleftrightarrow> Kind (row_event r) = n" "cell r ''created_at'' = Integer (CreatedAt (row_event r))"
    "cell r ''id'' \<noteq> Null" "created r = CreatedAt (row_event r)"
  using assms by (auto simp: cell_def created_def elim!: event_typedE)

lemma limited_small: "length rs \<le> 1 \<Longrightarrow> limited (Some 1) rs = rs"
  by (simp add: limited_def)

lemma option_eqI: "(\<And>x. a = Some x \<longleftrightarrow> b = Some x) \<Longrightarrow> a = b"
  by (cases a; cases b) auto

lemma stored_filter:
  assumes "db_inv db"
  shows "sq_stored (db(''events'' := filter P (db ''events''))) i = Some e \<longleftrightarrow>
    (\<exists>r \<in> set (db ''events''). P r \<and> row_id r = Text i \<and> e = row_event r)"
  using sq_stored_iff [OF db_inv_filter [OF assms]] by auto

lemma stored_put:
  assumes "db_inv db"
  shows "sq_stored (fst (effect (InsertReplace ''events'' (event_row e)) db)) = (sq_stored db)(ID e \<mapsto> read_back e)"
proof (intro ext option_eqI)
  fix i x
  have k: "same_key (event_row e) = (\<lambda>r. row_id r = Text (ID e))"
    using same_key_id [OF typed_event_row] by (auto simp: fun_eq_iff)
  have i: "db_inv (fst (effect (InsertReplace ''events'' (event_row e)) db))" by (rule effect_inv [OF assms]) simp
  show "sq_stored (fst (effect (InsertReplace ''events'' (event_row e)) db)) i = Some x \<longleftrightarrow>
      ((sq_stored db)(ID e \<mapsto> read_back e)) i = Some x"
    unfolding sq_stored_iff [OF i] using sq_stored_iff [OF assms, of i x] by (auto simp: k row_event_row)
qed

lemma stored_drop_older:
  assumes "db_inv db"
  shows "sq_stored (fst (effect (DeleteRows ''events'' [Equals ''pubkey'' (Text pk), Equals ''kind'' (Integer k),
      Differs ''id'' (Text j)]) db)) i =
    (case sq_stored db i of None \<Rightarrow> None | Some x \<Rightarrow> if PubKey x = pk \<and> Kind x = k \<and> i \<noteq> j then None else Some x)"
proof (rule option_eqI)
  fix x
  let ?cs = "[Equals ''pubkey'' (Text pk), Equals ''kind'' (Integer k), Differs ''id'' (Text j)]"
  have h: "holds_conds r ?cs \<longleftrightarrow> PubKey (row_event r) = pk \<and> Kind (row_event r) = k \<and> row_id r \<noteq> Text j"
    if "r \<in> set (db ''events'')" for r
    using event_cells [OF db_inv_event(1) [OF assms that]] by (simp add: holds_conds_def)
  have "sq_stored (fst (effect (DeleteRows ''events'' ?cs) db)) i = Some x \<longleftrightarrow>
      (\<exists>r \<in> set (db ''events''). \<not> holds_conds r ?cs \<and> row_id r = Text i \<and> x = row_event r)"
    by (simp add: stored_filter [OF assms])
  also have "\<dots> \<longleftrightarrow> sq_stored db i = Some x \<and> \<not> (PubKey x = pk \<and> Kind x = k \<and> i \<noteq> j)"
    unfolding sq_stored_iff [OF assms] using h by auto
  finally show "sq_stored (fst (effect (DeleteRows ''events'' ?cs) db)) i = Some x \<longleftrightarrow>
      (case sq_stored db i of None \<Rightarrow> None | Some x \<Rightarrow> if PubKey x = pk \<and> Kind x = k \<and> i \<noteq> j then None else Some x) = Some x"
    by (auto split: option.split)
qed

abbreviation older_conds :: "int \<Rightarrow> int list \<Rightarrow> cond list" where
  "older_conds t ks \<equiv> if ks = [] then [Below ''created_at'' t] else [Below ''created_at'' t, NotIn ''kind'' (map Integer ks)]"

lemma stored_older:
  assumes "db_inv db"
  shows "sq_stored (fst (effect (DeleteRows ''events'' (older_conds t ks)) db)) i =
    (case sq_stored db i of None \<Rightarrow> None | Some x \<Rightarrow> if CreatedAt x < t \<and> Kind x \<notin> set ks then None else Some x)"
proof (rule option_eqI)
  fix x
  have h: "holds_conds r (older_conds t ks) \<longleftrightarrow> CreatedAt (row_event r) < t \<and> Kind (row_event r) \<notin> set ks"
    if "r \<in> set (db ''events'')" for r
    by (rule event_typedE [OF db_inv_event(1) [OF assms that]])
      (auto simp: holds_conds_def cell_def row_event_def list_all_iff)
  have "sq_stored (fst (effect (DeleteRows ''events'' (older_conds t ks)) db)) i = Some x \<longleftrightarrow>
      (\<exists>r \<in> set (db ''events''). \<not> holds_conds r (older_conds t ks) \<and> row_id r = Text i \<and> x = row_event r)"
    by (simp add: stored_filter [OF assms] del: if_split)
  also have "\<dots> \<longleftrightarrow> sq_stored db i = Some x \<and> \<not> (CreatedAt x < t \<and> Kind x \<notin> set ks)"
    unfolding sq_stored_iff [OF assms] using h by auto
  finally show "sq_stored (fst (effect (DeleteRows ''events'' (older_conds t ks)) db)) i = Some x \<longleftrightarrow>
      (case sq_stored db i of None \<Rightarrow> None | Some x \<Rightarrow> if CreatedAt x < t \<and> Kind x \<notin> set ks then None else Some x) = Some x"
    by (auto split: option.split)
qed

lemma tomb_other:
  "sq_tomb (fst (effect (InsertReplace ''events'' r) db)) = sq_tomb db"
  "sq_tomb (fst (effect (DeleteRows ''events'' cs) db)) = sq_tomb db"
  "sq_tomb (fst (effect (DeleteRows ''channel_events'' cs) db)) = sq_tomb db"
  "sq_stored (fst (effect (DeleteRows ''channel_events'' cs) db)) = sq_stored db"
  "sq_stored (fst (effect (InsertReplace ''channel_events'' r) db)) = sq_stored db"
  "sq_tomb (fst (effect (InsertReplace ''channel_events'' r) db)) = sq_tomb db"
  by (simp_all add: sq_tomb_def sq_stored_def fun_eq_iff)

context sql_engine begin

lemma exec_cases:
  obtains (failed) d' err where "run_exec E d c = (d', Inl err)" "tables d' = tables d"
  | (finished) d' where "run_exec E d c = (d', Inr (snd (effect c (tables d))))" "tables d' = fst (effect c (tables d))"
proof (cases "run_exec E d c")
  case (Pair d' r)
  show ?thesis
  proof (cases r)
    case (Inl err)
    then show ?thesis using Pair exec_failed failed by blast
  next
    case (Inr n)
    have "(tables d', n) = effect c (tables d)" using Pair Inr exec_done by blast
    then have "n = snd (effect c (tables d))" "tables d' = fst (effect c (tables d))" by (metis snd_conv, metis fst_conv)
    with Pair Inr finished show ?thesis by simp
  qed
qed

lemma exec_inv: "db_inv (tables d) \<Longrightarrow> well_formed c \<Longrightarrow> db_inv (tables (fst (run_exec E d c)))"
  by (rule exec_cases [of d c]) (simp_all add: effect_inv)

lemma QueryRow_cases:
  assumes "QueryRow E d q f = Inr x"
  obtains out where "answers (tables d) q out" "case out of [] \<Rightarrow> x = None | r # _ \<Rightarrow> (\<exists>y. f r = Inr y \<and> x = Some y)"
proof -
  obtain out err where o: "run_select E d q = Inr (out, err)"
    using assms by (auto simp: QueryRow_def split: sum.splits)
  then obtain more where m: "answers (tables d) q (out @ more)" "err = None \<longrightarrow> more = []"
    using select_sound by blast
  show thesis
  proof (cases out)
    case Nil
    then have "err = None" "x = None" using assms o by (auto simp: QueryRow_def split: option.splits)
    with that [OF m(1)] m(2) Nil show thesis by simp
  next
    case (Cons r rs)
    then have "andthen (f r) (\<lambda>x. Inr (Some x)) = Inr x" using assms o by (simp add: QueryRow_def)
    then have "\<exists>y. f r = Inr y \<and> x = Some y" by (cases "f r") auto
    with that [OF m(1)] Cons show thesis by simp
  qed
qed

lemma QueryRow_Select:
  assumes "QueryRow E d (Select cols t cs newest limit) f = Inr x"
  obtains rs where "mset rs = mset (filter (\<lambda>r. holds_conds r cs) (tables d t))" "newest \<longrightarrow> newest_first rs"
    "case limited limit rs of [] \<Rightarrow> x = None | r # _ \<Rightarrow> (\<exists>y. f (project cols r) = Inr y \<and> x = Some y)"
proof (rule QueryRow_cases [OF assms])
  fix out
  assume a: "answers (tables d) (Select cols t cs newest limit) out"
    and x: "case out of [] \<Rightarrow> x = None | r # _ \<Rightarrow> (\<exists>y. f r = Inr y \<and> x = Some y)"
  from a obtain rs where rs: "mset rs = mset (filter (\<lambda>r. holds_conds r cs) (tables d t))" "newest \<longrightarrow> newest_first rs"
    "out = map (project cols) (limited limit rs)" by auto
  show thesis using x by (intro that [OF rs(1,2)]) (auto simp: rs(3) split: list.splits)
qed

lemma fetch_Select:
  assumes "fetch E d (Select cols t cs newest limit) f m1 m2 g = Inr xs"
  obtains rs where "mset rs = mset (filter (\<lambda>r. holds_conds r cs) (tables d t))" "newest \<longrightarrow> newest_first rs"
    "scan_rows f (map (project cols) (limited limit rs)) = Inr xs"
proof -
  obtain out where o: "run_select E d (Select cols t cs newest limit) = Inr (out, None)" "scan_rows f out = Inr xs"
    using assms by (auto simp: fetch_def split: sum.splits option.splits)
  then have "answers (tables d) (Select cols t cs newest limit) out"
    using select_sound by fastforce
  with o that show thesis by auto
qed

lemma check_deleted_sound: "check_deleted E d i = Inr b \<Longrightarrow> b \<longleftrightarrow> sq_tomb (tables d) i"
proof -
  assume c: "check_deleted E d i = Inr b"
  then obtain x where x: "QueryRow E d (Exists ''deleted_events'' [Equals ''id'' (Text i)]) (scan_one scan_bool) = Inr x"
    "b = (case x of None \<Rightarrow> False | Some m \<Rightarrow> m)"
    by (auto simp: check_deleted_def split: sum.splits option.splits)
  show ?thesis
    by (rule QueryRow_cases [OF x(1)]) (auto simp: x(2) sq_tomb_filter Cons_eq_map_conv split: list.splits)
qed

lemma check_deleted_error: "check_deleted E d i = Inl err \<Longrightarrow> err \<noteq> ErrNotFound"
  by (auto simp: check_deleted_def wrap_err_def split: sum.splits option.splits)

lemma by_id:
  assumes "db_inv (tables d)" "mset rs = mset (filter (\<lambda>r. holds_conds r [Equals ''id'' (Text i)]) (tables d ''events''))"
  shows "rs = (case find (\<lambda>r. row_id r = Text i) (tables d ''events'') of None \<Rightarrow> [] | Some r \<Rightarrow> [r])"
proof -
  have "distinct (map row_id (tables d ''events''))" using db_inv_tables(1) [OF assms(1)] by (simp add: typed_table_def)
  then show ?thesis using assms(2) by (simp add: filter_id split: option.splits)
qed

lemma sq_GetEvent_sound:
  assumes "db_inv (tables d)" "sq_GetEvent E d i = Inr e"
  shows "sq_stored (tables d) i = Some e \<and> \<not> sq_tomb (tables d) i"
proof -
  have c: "check_deleted E d i = Inr False"
    "QueryRow E d (Select event_columns ''events'' [Equals ''id'' (Text i)] False None) scan_event = Inr (Some e)"
    using assms(2) by (auto simp: sq_GetEvent_def split: sum.splits bool.splits option.splits)
  show ?thesis
  proof (rule QueryRow_Select [OF c(2)])
    fix rs
    assume "mset rs = mset (filter (\<lambda>r. holds_conds r [Equals ''id'' (Text i)]) (tables d ''events''))"
      and x: "case limited None rs of [] \<Rightarrow> Some e = None
        | r # _ \<Rightarrow> (\<exists>y. scan_event (project event_columns r) = Inr y \<and> Some e = Some y)"
    from by_id [OF assms(1) this(1)] x obtain r where r: "find (\<lambda>r. row_id r = Text i) (tables d ''events'') = Some r"
      "scan_event (project event_columns r) = Inr e"
      by (auto simp: limited_def split: option.splits)
    then have "r \<in> set (tables d ''events'')" by (metis find_Some_iff_in)
    from scan_event_row [OF db_inv_event(1) [OF assms(1) this]] show ?thesis
      using r check_deleted_sound [OF c(1)] by (simp add: sq_stored_def)
  qed
qed

lemma sq_GetEvent_tomb: "sq_tomb (tables d) i \<Longrightarrow> \<exists>err. sq_GetEvent E d i = Inl err \<and> err \<noteq> ErrNotFound"
  using check_deleted_sound [of d i] check_deleted_error [of d i]
  by (auto simp: sq_GetEvent_def split: sum.split bool.split)

text \<open>What saving an event may do to the tables.\<close>

abbreviation drop_older :: "event \<Rightarrow> command" where
  "drop_older e \<equiv> DeleteRows ''events''
     [Equals ''pubkey'' (Text (PubKey e)), Equals ''kind'' (Integer (Kind e)), Differs ''id'' (Text (ID e))]"

abbreviation put :: "event \<Rightarrow> command" where
  "put e \<equiv> InsertReplace ''events'' (event_row e)"

lemma sq_SaveEvent_tables:
  obtains "tables (fst (sq_SaveEvent E d e)) = tables d"
  | "\<not> sq_tomb (tables d) (ID e)" "isReplaceableKind (Kind e)" "tables (fst (sq_SaveEvent E d e)) = fst (effect (drop_older e) (tables d))"
  | "\<not> sq_tomb (tables d) (ID e)" "tables (fst (sq_SaveEvent E d e)) = fst (effect (put e) (tables d))"
  | "\<not> sq_tomb (tables d) (ID e)" "isReplaceableKind (Kind e)"
      "tables (fst (sq_SaveEvent E d e)) = fst (effect (put e) (fst (effect (drop_older e) (tables d))))"
proof (cases "check_deleted E d (ID e) = Inr False \<and> \<not> (isReplaceableKind (Kind e) \<and> newer_exists E d e)")
  case False
  then have "fst (sq_SaveEvent E d e) = d" by (auto simp: sq_SaveEvent_def split: sum.split bool.split)
  then show thesis using that(1) by simp
next
  case True
  let ?d = "if isReplaceableKind (Kind e) then fst (run_exec E d (drop_older e)) else d"
  have t: "\<not> sq_tomb (tables d) (ID e)" using True check_deleted_sound by blast
  have s: "fst (sq_SaveEvent E d e) = fst (run_exec E ?d (put e))"
    using True by (auto simp: sq_SaveEvent_def Let_def split: sum.split prod.split)
  have "tables ?d = tables d \<or> isReplaceableKind (Kind e) \<and> tables ?d = fst (effect (drop_older e) (tables d))"
    by (cases rule: exec_cases [of d "drop_older e"]) auto
  moreover have "tables (fst (run_exec E ?d (put e))) = tables ?d \<or>
      tables (fst (run_exec E ?d (put e))) = fst (effect (put e) (tables ?d))"
    by (cases rule: exec_cases [of ?d "put e"]) auto
  ultimately show thesis using that t s by metis
qed

text \<open>The deletion of an event: what is known of its author before the mark.\<close>

lemma author_row:
  assumes "db_inv (tables d)"
    "QueryRow E d (Select [''pubkey''] ''events'' [Equals ''id'' (Text i)] False None) (scan_one scan_text) = Inr x"
  shows "x = map_option PubKey (sq_stored (tables d) i)"
proof (rule QueryRow_Select [OF assms(2)])
  fix rs
  assume "mset rs = mset (filter (\<lambda>r. holds_conds r [Equals ''id'' (Text i)]) (tables d ''events''))"
    and x: "case limited None rs of [] \<Rightarrow> x = None
      | r # _ \<Rightarrow> (\<exists>y. scan_one scan_text (project [''pubkey''] r) = Inr y \<and> x = Some y)"
  note rs = by_id [OF assms(1) this(1)]
  show ?thesis
  proof (cases "find (\<lambda>r. row_id r = Text i) (tables d ''events'')")
    case (Some r)
    then have "r \<in> set (tables d ''events'')" by (metis find_Some_iff_in)
    then have "typed_row event_columns r" by (rule db_inv_event(1) [OF assms(1)])
    then have "scan_one scan_text (project [''pubkey''] r) = Inr (PubKey (row_event r))"
      by (rule event_typedE) (simp add: project_def cell_def row_event_def)
    with rs x Some show ?thesis by (auto simp: limited_def sq_stored_def)
  qed (use rs x in \<open>simp add: limited_def sq_stored_def\<close>)
qed

lemma mark_effect:
  "fst (effect (mark_deleted now i pk) db) t = (if t = ''deleted_events'' then fst (effect (mark_deleted now i pk) db) t else db t)"
  "sq_stored (fst (effect (mark_deleted now i pk) db)) = sq_stored db"
  "sq_tomb (fst (effect (mark_deleted now i pk) db)) j \<longleftrightarrow> sq_tomb db j \<or> j = i"
proof -
  let ?r = "[(''id'', Text i), (''deleter_pubkey'', Text pk), (''deleted_at'', Integer now)]"
  have k: "same_key ?r = (\<lambda>r. row_id r = Text i)" by (auto simp: fun_eq_iff same_key_def cell_def)
  have e: "effect (mark_deleted now i pk) db =
      (if sq_tomb db i then (db, 0) else (db(''deleted_events'' := db ''deleted_events'' @ [?r]), 1))"
    by (simp add: mark_deleted_def k sq_tomb_def)
  show "sq_tomb (fst (effect (mark_deleted now i pk) db)) j \<longleftrightarrow> sq_tomb db j \<or> j = i"
    unfolding e by (auto simp: sq_tomb_def cell_def)
  show "sq_stored (fst (effect (mark_deleted now i pk) db)) = sq_stored db"
    unfolding e by (auto simp: sq_stored_def)
  show "fst (effect (mark_deleted now i pk) db) t = (if t = ''deleted_events'' then fst (effect (mark_deleted now i pk) db) t else db t)"
    unfolding e by simp
qed

lemma sq_DeleteEvent_cases:
  assumes "db_inv (tables d)"
  obtains (unchanged) "tables (fst (sq_DeleteEvent E now d i pk)) = tables d" "\<not> succeeded (sq_DeleteEvent E now d i pk)"
  | (marked) e where "sq_stored (tables d) i = Some e" "PubKey e = pk" "succeeded (sq_DeleteEvent E now d i pk)"
      "tables (fst (sq_DeleteEvent E now d i pk)) = fst (effect (mark_deleted now i pk) (tables d))"
proof (cases "QueryRow E d (Select [''pubkey''] ''events'' [Equals ''id'' (Text i)] False None) (scan_one scan_text)")
  case (Inl err)
  then show thesis using unchanged by (simp add: sq_DeleteEvent_def)
next
  case (Inr x)
  note x = author_row [OF assms Inr]
  show thesis
  proof (cases "x = Some pk")
    case True
    then obtain e where e: "sq_stored (tables d) i = Some e" "PubKey e = pk" using x by auto
    show thesis
    proof (cases rule: exec_cases [of d "mark_deleted now i pk"])
      case (failed d' err)
      then show thesis using Inr True unchanged by (simp add: sq_DeleteEvent_def)
    next
      case (finished d')
      then show thesis using Inr True marked [OF e] by (simp add: sq_DeleteEvent_def)
    qed
  next
    case False
    then show thesis using Inr unchanged by (cases x) (simp_all add: sq_DeleteEvent_def)
  qed
qed

lemma mark_all_facts:
  assumes "db_inv (tables d)"
  shows "db_inv (tables (fst (mark_all E now pk is d))) \<and> sq_stored (tables (fst (mark_all E now pk is d))) = sq_stored (tables d) \<and>
    (sq_tomb (tables d) j \<longrightarrow> sq_tomb (tables (fst (mark_all E now pk is d))) j) \<and>
    (sq_tomb (tables (fst (mark_all E now pk is d))) j \<longrightarrow> sq_tomb (tables d) j \<or> j \<in> set is) \<and>
    (succeeded (mark_all E now pk is d) \<longrightarrow> j \<in> set is \<longrightarrow> sq_tomb (tables (fst (mark_all E now pk is d))) j)"
  using assms
proof (induction "is" arbitrary: d)
  case (Cons i "is")
  show ?case
  proof (cases rule: exec_cases [of d "mark_deleted now i pk"])
    case (failed d' err)
    then show ?thesis using Cons.prems by simp
  next
    case (finished d')
    have "db_inv (tables d')" using exec_inv [OF Cons.prems, of "mark_deleted now i pk"] finished(1) by simp
    from Cons.IH [OF this] show ?thesis
      using finished by (auto simp: mark_effect(2,3))
  qed
qed simp

lemma ids_of_author:
  assumes "db_inv (tables d)"
    "fetch E d (Select [''id''] ''events'' [Equals ''pubkey'' (Text pk)] False None) (scan_one scan_text) m1 m2 g = Inr is"
  shows "i \<in> set is \<longleftrightarrow> (\<exists>e. sq_stored (tables d) i = Some e \<and> PubKey e = pk)"
proof (rule fetch_Select [OF assms(2)])
  fix rs
  assume m: "mset rs = mset (filter (\<lambda>r. holds_conds r [Equals ''pubkey'' (Text pk)]) (tables d ''events''))"
    and s: "scan_rows (scan_one scan_text) (map (project [''id'']) (limited None rs)) = Inr is"
  have rs: "r \<in> set rs \<longleftrightarrow> r \<in> set (tables d ''events'') \<and> PubKey (row_event r) = pk" for r
  proof -
    have "r \<in> set rs \<longleftrightarrow> r \<in> set (tables d ''events'') \<and> holds_conds r [Equals ''pubkey'' (Text pk)]"
      using mset_eq_setD [OF m] by auto
    then show ?thesis
      using event_cells [OF db_inv_event(1) [OF assms(1)]] by (auto simp: holds_conds_def)
  qed
  have "scan_one scan_text (project [''id''] r) = Inr (ID (row_event r))" if "r \<in> set rs" for r
  proof -
    have "typed_row event_columns r" using db_inv_event(1) [OF assms(1)] rs that by blast
    then show ?thesis by (rule event_typedE) (simp add: project_def cell_def row_event_def)
  qed
  then have "is = map (\<lambda>r. ID (row_event r)) rs"
    using s scan_rows_map [of rs "scan_one scan_text" "project [''id'']" "\<lambda>r. ID (row_event r)"] by (simp add: limited_def)
  then have "i \<in> set is \<longleftrightarrow> (\<exists>r \<in> set rs. i = ID (row_event r))" by auto
  also have "\<dots> \<longleftrightarrow> (\<exists>e. sq_stored (tables d) i = Some e \<and> PubKey e = pk)"
  proof
    assume "\<exists>r \<in> set rs. i = ID (row_event r)"
    then obtain r where r: "r \<in> set (tables d ''events'')" "PubKey (row_event r) = pk" "i = ID (row_event r)"
      unfolding Bex_def rs by blast
    show "\<exists>e. sq_stored (tables d) i = Some e \<and> PubKey e = pk"
      unfolding r(3) db_inv_event(3) [OF assms(1) r(1)] using r(2) by blast
  next
    assume "\<exists>e. sq_stored (tables d) i = Some e \<and> PubKey e = pk"
    then obtain r where r: "r \<in> set (tables d ''events'')" "row_id r = Text i" "PubKey (row_event r) = pk"
      unfolding sq_stored_iff [OF assms(1)] by blast
    have "ID (row_event r) = i" using event_cells(1) [OF db_inv_event(1) [OF assms(1) r(1)]] r(2) by blast
    then show "\<exists>r \<in> set rs. i = ID (row_event r)" using r(1,3) unfolding Bex_def rs by blast
  qed
  finally show ?thesis .
qed

end

section \<open>The storage contract\<close>

lemma isReplaceableKind_kind: "isReplaceableKind k \<longleftrightarrow> replaceable_kind k"
  by (simp add: isReplaceableKind_def replaceable_kind_def)

lemma sqlite_if_sel [simp]:
  "SaveEvent (sqlite_if E now ties) = sq_SaveEvent E" "QueryEvents (sqlite_if E now ties) = sq_QueryEvents E ties"
  "DeleteEvent (sqlite_if E now ties) = sq_DeleteEvent E now"
  "DeleteAllEventsByPubKey (sqlite_if E now ties) = sq_DeleteAllEventsByPubKey E now"
  "GetEvent (sqlite_if E now ties) = sq_GetEvent E" "CountEvents (sqlite_if E now ties) = sq_CountEvents E"
  "DeleteChannelEvents (sqlite_if E now ties) = sq_DeleteChannelEvents E"
  "DeleteEventsOlderThan (sqlite_if E now ties) = sq_DeleteEventsOlderThan E"
  by (simp_all add: sqlite_if_def)

context sql_engine begin

lemma sq_Save_facts:
  assumes "db_inv (tables d)"
  shows "db_inv (tables (fst (sq_SaveEvent E d e)))" "sq_tomb (tables (fst (sq_SaveEvent E d e))) = sq_tomb (tables d)"
  by (cases rule: sq_SaveEvent_tables [of d e]; simp add: assms effect_inv tomb_other del: effect.simps)+

lemma sq_Save_tomb:
  "sq_tomb (tables d) (ID e) \<Longrightarrow> fst (sq_SaveEvent E d e) = d \<and> \<not> succeeded (sq_SaveEvent E d e)"
  using check_deleted_sound [of d "ID e"] by (auto simp: sq_SaveEvent_def split: sum.split bool.split)

lemma sq_Delete_facts:
  assumes "db_inv (tables d)"
  shows "db_inv (tables (fst (sq_DeleteEvent E now d i pk)))"
    "sq_stored (tables (fst (sq_DeleteEvent E now d i pk))) = sq_stored (tables d)"
    "sq_tomb (tables (fst (sq_DeleteEvent E now d i pk))) j \<longleftrightarrow>
      sq_tomb (tables d) j \<or> succeeded (sq_DeleteEvent E now d i pk) \<and> j = i"
    "succeeded (sq_DeleteEvent E now d i pk) \<Longrightarrow> \<exists>e. sq_stored (tables d) i = Some e \<and> PubKey e = pk"
proof -
  let ?r = "sq_DeleteEvent E now d i pk"
  have "db_inv (tables (fst ?r)) \<and> sq_stored (tables (fst ?r)) = sq_stored (tables d) \<and>
    (sq_tomb (tables (fst ?r)) j \<longleftrightarrow> sq_tomb (tables d) j \<or> succeeded ?r \<and> j = i) \<and>
    (succeeded ?r \<longrightarrow> (\<exists>e. sq_stored (tables d) i = Some e \<and> PubKey e = pk))"
    using assms
  proof (cases rule: sq_DeleteEvent_cases [where d = d and now = now and i = i and pk = pk])
    case unchanged
    show ?thesis unfolding unchanged(1) using unchanged(2) assms by blast
  next
    case (marked e)
    show ?thesis unfolding marked(4) mark_effect(2,3) using marked(1-3) effect_inv [OF assms, of "mark_deleted now i pk"] by simp
  qed
  then show "db_inv (tables (fst ?r))" "sq_stored (tables (fst ?r)) = sq_stored (tables d)"
    "sq_tomb (tables (fst ?r)) j \<longleftrightarrow> sq_tomb (tables d) j \<or> succeeded ?r \<and> j = i"
    "succeeded ?r \<Longrightarrow> \<exists>e. sq_stored (tables d) i = Some e \<and> PubKey e = pk"
    by blast+
qed

lemma sq_DeleteAll_facts:
  assumes "db_inv (tables d)"
  shows "db_inv (tables (fst (sq_DeleteAllEventsByPubKey E now d pk)))"
    "sq_stored (tables (fst (sq_DeleteAllEventsByPubKey E now d pk))) = sq_stored (tables d)"
    "sq_tomb (tables d) j \<Longrightarrow> sq_tomb (tables (fst (sq_DeleteAllEventsByPubKey E now d pk))) j"
    "sq_tomb (tables (fst (sq_DeleteAllEventsByPubKey E now d pk))) j \<Longrightarrow>
      sq_tomb (tables d) j \<or> (\<exists>e. sq_stored (tables d) j = Some e \<and> PubKey e = pk)"
    "succeeded (sq_DeleteAllEventsByPubKey E now d pk) \<Longrightarrow> sq_stored (tables d) j = Some e \<Longrightarrow> PubKey e = pk \<Longrightarrow>
      sq_tomb (tables (fst (sq_DeleteAllEventsByPubKey E now d pk))) j"
proof -
  let ?f = "fetch E d (Select [''id''] ''events'' [Equals ''pubkey'' (Text pk)] False None) (scan_one scan_text)
        ''failed to query events for pubkey: '' ''failed to scan event ID: '' (wrap_err ''error iterating events: '')"
  let ?r = "sq_DeleteAllEventsByPubKey E now d pk"
  have "db_inv (tables (fst ?r)) \<and> sq_stored (tables (fst ?r)) = sq_stored (tables d) \<and>
    (sq_tomb (tables d) j \<longrightarrow> sq_tomb (tables (fst ?r)) j) \<and>
    (sq_tomb (tables (fst ?r)) j \<longrightarrow> sq_tomb (tables d) j \<or> (\<exists>e. sq_stored (tables d) j = Some e \<and> PubKey e = pk)) \<and>
    (succeeded ?r \<longrightarrow> (\<exists>e. sq_stored (tables d) j = Some e \<and> PubKey e = pk) \<longrightarrow> sq_tomb (tables (fst ?r)) j)"
  proof (cases ?f)
    case (Inl err)
    then show ?thesis using assms by (simp add: sq_DeleteAllEventsByPubKey_def)
  next
    case (Inr "is")
    have "?r = mark_all E now pk is d" using Inr by (simp add: sq_DeleteAllEventsByPubKey_def)
    then show ?thesis using mark_all_facts [OF assms, of now pk "is" j] ids_of_author [OF assms Inr, of j] by simp
  qed
  then show "db_inv (tables (fst ?r))" "sq_stored (tables (fst ?r)) = sq_stored (tables d)"
    "sq_tomb (tables d) j \<Longrightarrow> sq_tomb (tables (fst ?r)) j"
    "sq_tomb (tables (fst ?r)) j \<Longrightarrow> sq_tomb (tables d) j \<or> (\<exists>e. sq_stored (tables d) j = Some e \<and> PubKey e = pk)"
    "succeeded ?r \<Longrightarrow> sq_stored (tables d) j = Some e \<Longrightarrow> PubKey e = pk \<Longrightarrow> sq_tomb (tables (fst ?r)) j"
    by blast+
qed

lemma sq_Older_cases:
  obtains "tables (fst (sq_DeleteEventsOlderThan E d t ks)) = tables d"
      "\<exists>err. snd (sq_DeleteEventsOlderThan E d t ks) = Inl err"
  | "tables (fst (sq_DeleteEventsOlderThan E d t ks)) = fst (effect (DeleteRows ''events'' (older_conds t ks)) (tables d))"
      "snd (sq_DeleteEventsOlderThan E d t ks) = Inr (snd (effect (DeleteRows ''events'' (older_conds t ks)) (tables d)))"
  by (cases rule: exec_cases [of d "DeleteRows ''events'' (older_conds t ks)"])
    (simp_all add: sq_DeleteEventsOlderThan_def del: effect.simps)

lemma sq_Older_facts:
  assumes "db_inv (tables d)"
  shows "db_inv (tables (fst (sq_DeleteEventsOlderThan E d t ks)))"
    "sq_tomb (tables (fst (sq_DeleteEventsOlderThan E d t ks))) = sq_tomb (tables d)"
    "sq_stored (tables d) j = Some e \<Longrightarrow> t \<le> CreatedAt e \<or> Kind e \<in> set ks \<Longrightarrow>
      sq_stored (tables (fst (sq_DeleteEventsOlderThan E d t ks))) j = Some e"
  by (cases rule: sq_Older_cases [of d t ks]; auto simp: assms effect_inv tomb_other stored_older [OF assms] simp del: effect.simps split: option.split)+

lemma sq_Channel_cases:
  obtains "tables (fst (sq_DeleteChannelEvents E d c)) = tables d"
  | "tables (fst (sq_DeleteChannelEvents E d c)) = fst (effect (DeleteRows ''channel_events'' [Equals ''channel_id'' (Text c)]) (tables d))"
  by (cases rule: exec_cases [of d "DeleteRows ''channel_events'' [Equals ''channel_id'' (Text c)]"])
    (simp_all add: sq_DeleteChannelEvents_def del: effect.simps)

lemma sq_Channel_facts:
  assumes "db_inv (tables d)"
  shows "db_inv (tables (fst (sq_DeleteChannelEvents E d c)))"
    "sq_stored (tables (fst (sq_DeleteChannelEvents E d c))) = sq_stored (tables d)"
    "sq_tomb (tables (fst (sq_DeleteChannelEvents E d c))) = sq_tomb (tables d)"
  by (cases rule: sq_Channel_cases [of d c]; simp add: assms effect_inv tomb_other del: effect.simps)+

lemma sq_stored_ID: "db_inv db \<Longrightarrow> sq_stored db i = Some e \<Longrightarrow> ID e = i"
  using event_cells(1) [OF db_inv_event(1)] by (auto simp: sq_stored_iff)

lemma contract_laws:
  "storage (sqlite_if E now ties) (\<lambda>d. db_inv (tables d)) (\<lambda>d. sq_stored (tables d)) (\<lambda>d. sq_tomb (tables d))"
proof (unfold_locales, goal_cases)
  case (1 d i e) then show ?case by (rule sq_stored_ID)
next
  case (11 d e j) then show ?case using sq_Save_facts by simp
next
  case (14 d i pk j) then show ?case using sq_Delete_facts(3,4) by fastforce
qed (simp_all add: sq_Save_facts sq_Save_tomb sq_Delete_facts sq_DeleteAll_facts sq_Older_facts sq_Channel_facts
    sq_GetEvent_sound sq_GetEvent_tomb)

end

sublocale sql_engine \<subseteq> contract: storage "sqlite_if E now ties" "\<lambda>d. db_inv (tables d)"
    "\<lambda>d. sq_stored (tables d)" "\<lambda>d. sq_tomb (tables d)" for now ties
  by (rule contract_laws)

section \<open>An engine that does not fail\<close>

text \<open>A newer event of the same author and kind.\<close>

definition newer_stored :: "database \<Rightarrow> event \<Rightarrow> bool" where
  "newer_stored db e \<longleftrightarrow> list_ex (\<lambda>r. PubKey (row_event r) = PubKey e \<and> Kind (row_event r) = Kind e \<and>
     CreatedAt e < CreatedAt (row_event r)) (db ''events'')"

lemma newest_head: "newest_first (r # rs) \<Longrightarrow> s \<in> set (r # rs) \<Longrightarrow> created s \<le> created r"
  by (auto simp: newest_first_def)

context working_engine begin

lemma working_exec:
  assumes "\<nexists>t r. c = Insert t r"
  obtains d' where "run_exec E d c = (d', Inr (snd (effect c (tables d))))" "tables d' = fst (effect c (tables d))"
proof -
  obtain d' n where "run_exec E d c = (d', Inr n)" using exec_ok [OF assms] by blast
  with that show thesis by (cases rule: exec_cases [of d c]) auto
qed

lemma working_row:
  obtains out where "answers (tables d) q out"
    "QueryRow E d q f = (case out of [] \<Rightarrow> Inr None | r # _ \<Rightarrow> andthen (f r) (\<lambda>x. Inr (Some x)))"
proof -
  obtain out where o: "run_select E d q = Inr (out, None)" using select_ok by blast
  then have "answers (tables d) q out" using select_sound [OF o] by simp
  with that o show thesis by (simp add: QueryRow_def split: list.split)
qed

lemma working_check: "check_deleted E d i = Inr (sq_tomb (tables d) i)"
proof -
  obtain out where "answers (tables d) (Exists ''deleted_events'' [Equals ''id'' (Text i)]) out"
    "QueryRow E d (Exists ''deleted_events'' [Equals ''id'' (Text i)]) (scan_one scan_bool) =
      (case out of [] \<Rightarrow> Inr None | r # _ \<Rightarrow> andthen (scan_one scan_bool r) (\<lambda>x. Inr (Some x)))"
    by (rule working_row)
  then obtain b where "check_deleted E d i = Inr b"
    by (cases out) (auto simp: check_deleted_def Cons_eq_map_conv)
  then show ?thesis using check_deleted_sound by simp
qed

lemma working_get:
  assumes "db_inv (tables d)" "\<not> sq_tomb (tables d) i"
  shows "sq_GetEvent E d i = (case sq_stored (tables d) i of None \<Rightarrow> Inl ErrNotFound | Some e \<Rightarrow> Inr e)"
proof -
  let ?q = "Select event_columns ''events'' [Equals ''id'' (Text i)] False None"
  obtain out where o: "answers (tables d) ?q out"
    "QueryRow E d ?q scan_event = (case out of [] \<Rightarrow> Inr None | r # _ \<Rightarrow> andthen (scan_event r) (\<lambda>x. Inr (Some x)))"
    by (rule working_row)
  then obtain rs where rs: "mset rs = mset (filter (\<lambda>r. holds_conds r [Equals ''id'' (Text i)]) (tables d ''events''))"
    "out = map (project event_columns) rs" by (auto simp: limited_def)
  have g: "sq_GetEvent E d i = (case QueryRow E d ?q scan_event of Inl err \<Rightarrow> Inl (wrap_err ''failed to get event: '' err)
      | Inr None \<Rightarrow> Inl ErrNotFound | Inr (Some evt) \<Rightarrow> Inr evt)"
    using assms(2) by (simp add: sq_GetEvent_def working_check)
  show ?thesis
  proof (cases "find (\<lambda>r. row_id r = Text i) (tables d ''events'')")
    case None
    then show ?thesis using g o(2) by_id [OF assms(1) rs(1)] by (simp add: rs(2) sq_stored_def)
  next
    case (Some r)
    then have "r \<in> set (tables d ''events'')" by (metis find_Some_iff_in)
    from scan_event_row [OF db_inv_event(1) [OF assms(1) this]] Some show ?thesis
      using g o(2) by_id [OF assms(1) rs(1)] by (simp add: rs(2) sq_stored_def)
  qed
qed

lemma working_newer:
  assumes "db_inv (tables d)"
  shows "newer_exists E d e \<longleftrightarrow> newer_stored (tables d) e"
proof -
  let ?cs = "[Equals ''pubkey'' (Text (PubKey e)), Equals ''kind'' (Integer (Kind e))]"
  let ?q = "Select [''created_at''] ''events'' ?cs True (Some 1)"
  obtain out where o: "answers (tables d) ?q out"
    "QueryRow E d ?q (scan_one scan_int) = (case out of [] \<Rightarrow> Inr None | r # _ \<Rightarrow> andthen (scan_one scan_int r) (\<lambda>x. Inr (Some x)))"
    by (rule working_row)
  then obtain rs where rs: "mset rs = mset (filter (\<lambda>r. holds_conds r ?cs) (tables d ''events''))" "newest_first rs"
    "out = map (project [''created_at'']) (limited (Some 1) rs)" by auto
  have s: "r \<in> set rs \<longleftrightarrow> r \<in> set (tables d ''events'') \<and> PubKey (row_event r) = PubKey e \<and> Kind (row_event r) = Kind e" for r
  proof -
    have "r \<in> set rs \<longleftrightarrow> r \<in> set (tables d ''events'') \<and> holds_conds r ?cs" using mset_eq_setD [OF rs(1)] by auto
    then show ?thesis using event_cells(2,3) [OF db_inv_event(1) [OF assms]] by (auto simp: holds_conds_def)
  qed
  have n: "newer_stored (tables d) e \<longleftrightarrow> (\<exists>r \<in> set rs. CreatedAt e < CreatedAt (row_event r))"
    unfolding newer_stored_def list_ex_iff Bex_def s by blast
  show ?thesis
  proof (cases rs)
    case Nil
    then show ?thesis using n o(2) by (simp add: newer_exists_def rs(3) limited_def)
  next
    case (Cons r rs')
    have c: "created q = CreatedAt (row_event q)" if "q \<in> set rs" for q
      using s that event_cells(6) [OF db_inv_event(1) [OF assms]] by blast
    have r: "r \<in> set rs" using Cons by simp
    obtain m where "cell r ''created_at'' = Integer m"
      using s r event_cells(4) [OF db_inv_event(1) [OF assms]] by blast
    then have "newer_exists E d e \<longleftrightarrow> CreatedAt e < CreatedAt (row_event r)"
      using o(2) by (simp add: newer_exists_def rs(3) limited_def Cons project_def)
    also have "\<dots> \<longleftrightarrow> (\<exists>q \<in> set rs. CreatedAt e < CreatedAt (row_event q))"
      using newest_head [OF rs(2) [unfolded Cons]] c r unfolding Cons [symmetric] by (metis order_less_le_trans)
    finally show ?thesis using n by simp
  qed
qed

lemma working_save:
  assumes "db_inv (tables d)" "\<not> sq_tomb (tables d) (ID e)"
  shows "succeeded (sq_SaveEvent E d e) \<and> tables (fst (sq_SaveEvent E d e)) =
    (if replaceable_kind (Kind e) \<and> newer_stored (tables d) e then tables d
     else fst (effect (put e) (if replaceable_kind (Kind e) then fst (effect (drop_older e) (tables d)) else tables d)))"
proof -
  obtain d1 where d1: "run_exec E d (drop_older e) = (d1, Inr (snd (effect (drop_older e) (tables d))))"
    "tables d1 = fst (effect (drop_older e) (tables d))"
    by (rule working_exec [of "drop_older e" d]) auto
  let ?d = "if replaceable_kind (Kind e) then d1 else d"
  obtain d2 where d2: "run_exec E ?d (put e) = (d2, Inr (snd (effect (put e) (tables ?d))))"
    "tables d2 = fst (effect (put e) (tables ?d))"
    by (rule working_exec [of "put e" ?d]) auto
  have "tables ?d = (if replaceable_kind (Kind e) then fst (effect (drop_older e) (tables d)) else tables d)"
    using d1(2) by simp
  then show ?thesis
    using d2 d1(1) assms
    by (cases "replaceable_kind (Kind e)")
      (simp_all add: sq_SaveEvent_def working_check working_newer isReplaceableKind_kind del: effect.simps)
qed

lemma working_contract:
  "healthy_storage (sqlite_if E now ties) (\<lambda>d. db_inv (tables d)) (\<lambda>d. sq_stored (tables d)) (\<lambda>d. sq_tomb (tables d)) read_back"
proof (unfold_locales, goal_cases)
  case (1 d i) then show ?case by (simp add: working_get)
next
  case (2 d e) then show ?case
    using working_save [OF 2(1,2)] stored_put [OF 2(1)] by (simp add: tomb_other del: effect.simps)
next
  case (3 d i e pk)
  obtain x where x: "QueryRow E d (Select [''pubkey''] ''events'' [Equals ''id'' (Text i)] False None) (scan_one scan_text) = Inr x"
  proof -
    obtain out where o: "answers (tables d) (Select [''pubkey''] ''events'' [Equals ''id'' (Text i)] False None) out"
      "QueryRow E d (Select [''pubkey''] ''events'' [Equals ''id'' (Text i)] False None) (scan_one scan_text) =
        (case out of [] \<Rightarrow> Inr None | r # _ \<Rightarrow> andthen (scan_one scan_text r) (\<lambda>x. Inr (Some x)))"
      by (rule working_row)
    then obtain rs where rs: "mset rs = mset (filter (\<lambda>r. holds_conds r [Equals ''id'' (Text i)]) (tables d ''events''))"
      "out = map (project [''pubkey'']) rs" by (auto simp: limited_def)
    have "\<exists>s. scan_one scan_text (project [''pubkey''] r) = Inr s" if "r \<in> set rs" for r
    proof -
      have "r \<in> set (tables d ''events'')" using mset_eq_setD [OF rs(1)] that by auto
      from db_inv_event(1) [OF 3(1) this] show ?thesis by (rule event_typedE) (simp add: project_def cell_def)
    qed
    then show thesis using that o(2) rs(2) by (cases rs) fastforce+
  qed
  obtain d' where "run_exec E d (mark_deleted now i pk) = (d', Inr (snd (effect (mark_deleted now i pk) (tables d))))"
    by (rule working_exec [of "mark_deleted now i pk" d]) (auto simp: mark_deleted_def)
  then have "succeeded (sq_DeleteEvent E now d i pk)"
    using x author_row [OF 3(1) x] 3(2,3) by (simp add: sq_DeleteEvent_def)
  then show ?case using sq_Delete_facts(3) [OF 3(1)] by simp
next
  case (4 d pk j e)
  have "\<exists>is. fetch E d (Select [''id''] ''events'' [Equals ''pubkey'' (Text pk)] False None) (scan_one scan_text)
        ''failed to query events for pubkey: '' ''failed to scan event ID: '' (wrap_err ''error iterating events: '') = Inr is"
  proof -
    let ?q = "Select [''id''] ''events'' [Equals ''pubkey'' (Text pk)] False None"
    obtain out where o: "run_select E d ?q = Inr (out, None)" using select_ok by blast
    then have "answers (tables d) ?q out" using select_sound [OF o] by simp
    then obtain rs where rs: "mset rs = mset (filter (\<lambda>r. holds_conds r [Equals ''pubkey'' (Text pk)]) (tables d ''events''))"
      "out = map (project [''id'']) rs" by (auto simp: limited_def)
    have "scan_one scan_text (project [''id''] r) = Inr (ID (row_event r))" if "r \<in> set rs" for r
    proof -
      have "r \<in> set (tables d ''events'')" using mset_eq_setD [OF rs(1)] that by auto
      from db_inv_event(1) [OF 4(1) this] show ?thesis
        by (rule event_typedE) (simp add: project_def cell_def row_event_def)
    qed
    then have "scan_rows (scan_one scan_text) out = Inr (map (\<lambda>r. ID (row_event r)) rs)"
      unfolding rs(2) by (rule scan_rows_map)
    then show ?thesis using o by (simp add: fetch_def)
  qed
  moreover have "succeeded (mark_all E now pk is d)" for "is"
  proof (induction "is" arbitrary: d)
    case (Cons i "is")
    obtain d' where "run_exec E d (mark_deleted now i pk) = (d', Inr (snd (effect (mark_deleted now i pk) (tables d))))"
      by (rule working_exec [of "mark_deleted now i pk" d]) (auto simp: mark_deleted_def)
    then show ?case using Cons by simp
  qed simp
  ultimately have "succeeded (sq_DeleteAllEventsByPubKey E now d pk)" by (auto simp: sq_DeleteAllEventsByPubKey_def)
  then show ?case using sq_DeleteAll_facts(5) [OF 4] by simp
qed

end

sublocale working_engine \<subseteq> healthy: healthy_storage "sqlite_if E now ties" "\<lambda>d. db_inv (tables d)"
    "\<lambda>d. sq_stored (tables d)" "\<lambda>d. sq_tomb (tables d)" read_back for now ties
  by (rule working_contract)

end
