(* ===== verification/SqliteQueries.thy ===== *)
theory SqliteQueries
  imports SqliteProps
begin

text \<open>
  What the SQLite store answers: queries and counts against the rows, what saving and pruning leave,
  batches, and the schema. Every theorem holds of any engine that keeps SQLite's promises, or of any
  that also does not fail; the witnesses run on the engine of the tables.
\<close>

section \<open>Filters\<close>

text \<open>What the \<^verbatim>\<open>WHERE\<close> clause tests: exact IDs and authors, no tags, no search text.\<close>

definition sql_matches :: "filt \<Rightarrow> event \<Rightarrow> bool" where
  "sql_matches f e \<longleftrightarrow>
     (case IDs f of None \<Rightarrow> True | Some is \<Rightarrow> ID e \<in> set is) \<and>
     (case Authors f of None \<Rightarrow> True | Some pks \<Rightarrow> PubKey e \<in> set pks) \<and>
     (case Kinds f of None \<Rightarrow> True | Some ks \<Rightarrow> Kind e \<in> set ks) \<and>
     (case Since f of None \<Rightarrow> True | Some t \<Rightarrow> t \<le> CreatedAt e) \<and>
     (case Until f of None \<Rightarrow> True | Some t \<Rightarrow> CreatedAt e \<le> t)"

lemma holds_where:
  assumes "typed_row event_columns r"
  shows "holds_conds r (where_clause f) \<longleftrightarrow> sql_matches f (row_event r)"
proof (rule event_typedE [OF assms])
  fix i pk t k tg c sg
  assume r: "r = [(''id'', Text i), (''pubkey'', Text pk), (''created_at'', Integer t), (''kind'', Integer k),
    (''tags'', Text tg), (''content'', Text c), (''sig'', Text sg)]"
  have i: "holds_conds r (cs @ ds) \<longleftrightarrow> holds_conds r cs \<and> holds_conds r ds" for cs ds
    by (simp add: holds_conds_def)
  have tx: "holds_conds r (where_in col Text xs) \<longleftrightarrow> (case xs of None \<Rightarrow> True | Some ys \<Rightarrow> text_of (cell r col) \<in> set ys)"
    if "is_text (cell r col)" for col xs
    using that by (cases "cell r col") (auto simp: holds_conds_def where_in_def list_ex_iff split: option.split)
  have nt: "holds_conds r (where_in col Integer xs) \<longleftrightarrow> (case xs of None \<Rightarrow> True | Some ys \<Rightarrow> int_of (cell r col) \<in> set ys)"
    if "is_int (cell r col)" for col xs
    using that by (cases "cell r col") (auto simp: holds_conds_def where_in_def list_ex_iff split: option.split)
  have c: "cell r ''id'' = Text i" "cell r ''pubkey'' = Text pk" "cell r ''created_at'' = Integer t" "cell r ''kind'' = Integer k"
    by (simp_all add: r cell_def)
  have "holds_conds r (case Since f of None \<Rightarrow> [] | Some t \<Rightarrow> [AtLeast ''created_at'' t]) \<longleftrightarrow>
      (case Since f of None \<Rightarrow> True | Some u \<Rightarrow> u \<le> t)"
    "holds_conds r (case Until f of None \<Rightarrow> [] | Some t \<Rightarrow> [AtMost ''created_at'' t]) \<longleftrightarrow>
      (case Until f of None \<Rightarrow> True | Some u \<Rightarrow> t \<le> u)"
    by (simp_all add: holds_conds_def c split: option.split)
  then show ?thesis
    using tx [of "''id''"] tx [of "''pubkey''"] nt [of "''kind''"]
    by (simp add: where_clause_def i sql_matches_def c cong: option.case_cong)
qed

lemma add_unseen_facts:
  assumes "\<And>i. mtrue seen i \<longleftrightarrow> i \<in> ID ` set results" "distinct (map ID results)"
    and "add_unseen es results seen = (results', seen')"
  shows "(\<forall>i. mtrue seen' i \<longleftrightarrow> i \<in> ID ` set results') \<and> distinct (map ID results') \<and>
    set results \<subseteq> set results' \<and> set results' \<subseteq> set results \<union> set es \<and> ID ` set results' = ID ` (set results \<union> set es)"
  using assms
proof (induction es results seen arbitrary: results' seen' rule: add_unseen.induct)
  case (2 e es results seen)
  show ?case
  proof (cases "mtrue seen (ID e)")
    case True
    then have i: "ID e \<in> ID ` set results" using 2(3) by blast
    have s: "add_unseen es results seen = (results', seen')" using 2(5) True by simp
    have "\<not> \<not> mtrue seen (ID e)" using True by simp
    from 2(2) [OF this 2(3,4) s] i show ?thesis by (auto simp: image_Un)
  next
    case False
    then have i: "ID e \<notin> ID ` set results" using 2(3) by blast
    have s: "add_unseen es (results @ [e]) (mput (ID e) True seen) = (results', seen')" using 2(5) False by simp
    have m: "mtrue (mput (ID e) True seen) i \<longleftrightarrow> i \<in> ID ` set (results @ [e])" for i
      using 2(3) by (auto simp: gomap)
    have d: "distinct (map ID (results @ [e]))" using 2(4) i by auto
    from 2(1) [OF False m d s] show ?thesis by (auto simp: image_Un)
  qed
qed simp

context sql_engine begin

lemma queryFilter_rows:
  assumes "db_inv (tables d)" "queryFilter E d f = Inr es"
  obtains rs where "mset rs = mset (filter (\<lambda>r. sql_matches f (row_event r)) (tables d ''events''))" "newest_first rs"
    "es = map row_event (limited (Limit f) rs)"
proof -
  obtain rs where rs: "mset rs = mset (filter (\<lambda>r. holds_conds r (where_clause f)) (tables d ''events''))" "newest_first rs"
    "scan_rows scan_event (map (project event_columns) (limited (Limit f) rs)) = Inr es"
    using fetch_Select [OF assms(2) [unfolded queryFilter_def]] by blast
  have t: "typed_row event_columns r" if "r \<in> set (tables d ''events'')" for r by (rule db_inv_event(1) [OF assms(1) that])
  have "filter (\<lambda>r. holds_conds r (where_clause f)) (tables d ''events'') =
      filter (\<lambda>r. sql_matches f (row_event r)) (tables d ''events'')"
    by (rule filter_cong) (simp_all add: t holds_where)
  moreover have "es = map row_event (limited (Limit f) rs)"
  proof -
    have "set (limited (Limit f) rs) \<subseteq> set rs" by (auto simp: limited_def dest: in_set_takeD split: option.splits)
    then have "scan_event (project event_columns r) = Inr (row_event r)" if "r \<in> set (limited (Limit f) rs)" for r
      using that mset_eq_setD [OF rs(1)] t by (intro scan_event_row) auto
    then show ?thesis using rs(3) scan_rows_map [of "limited (Limit f) rs" scan_event] by simp
  qed
  ultimately show thesis using that rs(1,2) by simp
qed

lemma queryFilter_set:
  assumes "db_inv (tables d)" "queryFilter E d f = Inr es"
  shows "e \<in> set es \<Longrightarrow> sq_stored (tables d) (ID e) = Some e \<and> sql_matches f e"
    and "Limit f = None \<Longrightarrow> sq_stored (tables d) (ID e) = Some e \<Longrightarrow> sql_matches f e \<Longrightarrow> e \<in> set es"
proof -
  obtain rs where rs: "mset rs = mset (filter (\<lambda>r. sql_matches f (row_event r)) (tables d ''events''))"
    "es = map row_event (limited (Limit f) rs)" by (rule queryFilter_rows [OF assms])
  have s: "set rs = {r \<in> set (tables d ''events''). sql_matches f (row_event r)}" using mset_eq_setD [OF rs(1)] by auto
  show "sq_stored (tables d) (ID e) = Some e \<and> sql_matches f e" if e: "e \<in> set es"
  proof -
    have "set (limited (Limit f) rs) \<subseteq> set rs" by (auto simp: limited_def dest: in_set_takeD split: option.splits)
    then obtain r where r: "r \<in> set (tables d ''events'')" "sql_matches f (row_event r)" "e = row_event r"
      using e [unfolded rs(2)] s by auto
    show ?thesis unfolding r(3) db_inv_event(3) [OF assms(1) r(1)] using r(2) by blast
  qed
  show "e \<in> set es" if "Limit f = None" "sq_stored (tables d) (ID e) = Some e" "sql_matches f e"
    using that(1,3) that(2) [unfolded sq_stored_iff [OF assms(1)]] s unfolding rs(2) by (auto simp: limited_def)
qed

lemma sq_query_loop_set:
  assumes "db_inv (tables d)" "sq_query_loop E d fs results seen = Inr es"
    and "\<And>i. mtrue seen i \<longleftrightarrow> i \<in> ID ` set results" "distinct (map ID results)"
    and "\<And>e. e \<in> set results \<Longrightarrow> sq_stored (tables d) (ID e) = Some e"
  shows "distinct (map ID es) \<and> set results \<subseteq> set es \<and>
    (\<forall>e \<in> set es. sq_stored (tables d) (ID e) = Some e \<and> (e \<in> set results \<or> list_ex (\<lambda>f. sql_matches f e) fs)) \<and>
    (\<forall>e. sq_stored (tables d) (ID e) = Some e \<longrightarrow> list_ex (\<lambda>f. Limit f = None \<and> sql_matches f e) fs \<longrightarrow> e \<in> set es)"
  using assms(2-5)
proof (induction fs arbitrary: results seen)
  case (Cons f fs)
  obtain qs where q: "queryFilter E d f = Inr qs" using Cons.prems(1) by (auto split: sum.splits)
  obtain results' seen' where a: "add_unseen qs results seen = (results', seen')" by fastforce
  note u = add_unseen_facts [OF Cons.prems(2,3) a]
  have l: "sq_query_loop E d fs results' seen' = Inr es" using Cons.prems(1) q a by simp
  have st: "sq_stored (tables d) (ID e) = Some e" if "e \<in> set results'" for e
    using u that Cons.prems(4) queryFilter_set(1) [OF assms(1) q] by blast
  have ih: "distinct (map ID es) \<and> set results' \<subseteq> set es \<and>
    (\<forall>e \<in> set es. sq_stored (tables d) (ID e) = Some e \<and> (e \<in> set results' \<or> list_ex (\<lambda>f. sql_matches f e) fs)) \<and>
    (\<forall>e. sq_stored (tables d) (ID e) = Some e \<longrightarrow> list_ex (\<lambda>f. Limit f = None \<and> sql_matches f e) fs \<longrightarrow> e \<in> set es)"
  proof (rule Cons.IH [OF l])
    show "mtrue seen' i \<longleftrightarrow> i \<in> ID ` set results'" for i using u by blast
    show "distinct (map ID results')" using u by blast
  qed (rule st)
  have new: "e \<in> set es" if e: "sq_stored (tables d) (ID e) = Some e" "Limit f = None" "sql_matches f e" for e
  proof -
    have "ID e \<in> ID ` set results'" using queryFilter_set(2) [OF assms(1) q e(2,1,3)] u by blast
    then obtain x where "x \<in> set results'" "ID x = ID e" by force
    then show ?thesis using st e(1) ih by (metis option.inject subsetD)
  qed
  have old: "e \<in> set results \<or> sql_matches f e" if "e \<in> set results'" for e
    using u that queryFilter_set(1) [OF assms(1) q] by blast
  have x: "list_ex P (f # fs) \<longleftrightarrow> P f \<or> list_ex P fs" for P by simp
  have "distinct (map ID es)" "set results \<subseteq> set es" using ih u by blast+
  moreover have "sq_stored (tables d) (ID e) = Some e \<and> (e \<in> set results \<or> list_ex (\<lambda>f. sql_matches f e) (f # fs))"
    if "e \<in> set es" for e
    unfolding x using ih old that by blast
  moreover have "e \<in> set es" if "sq_stored (tables d) (ID e) = Some e" "list_ex (\<lambda>f. Limit f = None \<and> sql_matches f e) (f # fs)" for e
    using ih new that unfolding x by blast
  ultimately show ?case by blast
qed simp

end


section \<open>A sample database\<close>

definition one_event :: "event \<Rightarrow> database \<times> database" where
  "one_event e = ((\<lambda>t. [])(''events'' := [event_row e]), (\<lambda>t. []))"

definition a_note :: "string \<Rightarrow> int \<Rightarrow> event" where
  "a_note i t = \<lparr>ID = i, PubKey = ''pk'', CreatedAt = t, Kind = 1, Tags = Some [], Content = ''hi'', Sig = ''00''\<rparr>"

definition id_filter :: "string \<Rightarrow> filt" where
  "id_filter i = \<lparr>IDs = Some [i], Authors = None, Kinds = None, FTags = [], Since = None, Until = None, Limit = None, Search = []\<rparr>"

lemma one_event_inv: "db_inv (fst (one_event e))"
  by (simp add: db_inv_def data_tables_def one_event_def schema_def typed_table_def typed_event_row)

lemma one_event_views:
  "sq_stored (fst (one_event e)) i = (if i = ID e then Some (read_back e) else None)" "\<not> sq_tomb (fst (one_event e)) i"
  by (simp_all add: sq_stored_def sq_tomb_def one_event_def row_event_row)

lemma read_back_a_note: "read_back (a_note i t) = a_note i t"
  by (simp add: read_back_def a_note_def column_tags_def tagsToJSON_def)

lemma table_engine_sql: "sql_engine table_engine fst snd"
  by (rule tables.sql_engine_axioms)

lemma table_engine_working: "working_engine table_engine fst snd"
  by (rule tables.working_engine_axioms)

text \<open>The answers of the engine of the tables to a query over one row.\<close>

lemma sample_query: "sq_QueryEvents table_engine length (one_event (a_note ''n1'' 5)) [id_filter ''n1''] = Ok [a_note ''n1'' 5]"
  by code_simp


section \<open>Deleted events\<close>

text \<open>C32: An event its author has deleted is still returned by queries: the deletion only adds a mark, which
  \<^verbatim>\<open>QueryEvents\<close> does not look at. Only \<^verbatim>\<open>GetEvent\<close> refuses it.\<close>

theorem deleted_still_returned:
  assumes "sql_engine E tables saved" "db_inv (tables d)" "sq_stored (tables d) i = Some e"
    and "sq_DeleteEvent E now d i pk = (d', None)" "sq_QueryEvents E ties d' [id_filter i] = Ok es"
  shows "es = [e] \<and> (\<exists>err. sq_GetEvent E d' i = Inl err)"
proof -
  note f = sql_engine.sq_Delete_facts [OF assms(1,2), of now i pk, unfolded assms(4) fst_conv snd_conv]
  have i: "ID e = i" by (rule sql_engine.sq_stored_ID [OF assms(1-3)])
  obtain results where l: "sq_query_loop E d' [id_filter i] [] [] = Inr results" "es = sort_newest ties results"
    using assms(5) by (auto simp: sq_QueryEvents_def apply_limit_def id_filter_def split: sum.splits)
  have s: "distinct (map ID results)" "set results = {x. sq_stored (tables d') (ID x) = Some x \<and> sql_matches (id_filter i) x}"
    using sql_engine.sq_query_loop_set [OF assms(1) f(1) l(1)] by (auto simp: id_filter_def)
  have m: "sql_matches (id_filter i) x \<longleftrightarrow> ID x = i" for x by (simp add: sql_matches_def id_filter_def)
  have "set results = {e}" unfolding s(2) f(2) m using assms(3) i by auto
  moreover from this s(1) have "results = [e]" by (cases results; cases "tl results") auto
  ultimately have "es = [e]" by (simp add: l(2) sort_newest_def)
  moreover have "sq_tomb (tables d') i" using f(3) by simp
  ultimately show ?thesis using sql_engine.sq_GetEvent_tomb [OF assms(1)] by blast
qed

lemma deleted_still_returned_witness:
  "let d = fst (sq_DeleteEvent table_engine 7 (one_event (a_note ''n1'' 5)) ''n1'' ''pk'')
   in sq_QueryEvents table_engine length d [id_filter ''n1''] = Ok [a_note ''n1'' 5] \<and> (\<exists>err. sq_GetEvent table_engine d ''n1'' = Inl err)"
proof -
  let ?d = "fst (sq_DeleteEvent table_engine 7 (one_event (a_note ''n1'' 5)) ''n1'' ''pk'')"
  have "snd (sq_DeleteEvent table_engine 7 (one_event (a_note ''n1'' 5)) ''n1'' ''pk'') = None" by code_simp
  then have d: "sq_DeleteEvent table_engine 7 (one_event (a_note ''n1'' 5)) ''n1'' ''pk'' = (?d, None)" by (simp add: prod_eq_iff)
  have q: "sq_QueryEvents table_engine length ?d [id_filter ''n1''] = Ok [a_note ''n1'' 5]" by code_simp
  have s: "sq_stored (fst (one_event (a_note ''n1'' 5))) ''n1'' = Some (a_note ''n1'' 5)"
    by (simp add: one_event_views read_back_a_note) (simp add: a_note_def)
  from deleted_still_returned [OF table_engine_sql one_event_inv s d q] q show ?thesis by (simp add: Let_def)
qed

lemma deleted_typedE:
  assumes "typed_row deleted_columns r"
  obtains i pk t where "r = [(''id'', Text i), (''deleter_pubkey'', Text pk), (''deleted_at'', Integer t)]"
  using assms by (auto simp: typed_row_def map_eq_Cons_conv integer_column_def elim!: is_textE is_intE)

text \<open>\<^verbatim>\<open>PruneDeletedEvents\<close> drops old deletion marks but not the events they mark: a deleted event can be
  read again.\<close>

theorem prune_resurrects:
  assumes "working_engine E tables saved" "db_inv (tables d)" "sq_stored (tables d) i = Some e"
    and "list_all (\<lambda>r. row_id r = Text i \<longrightarrow> int_of (cell r ''deleted_at'') < (now + wrap64 (- age)) div 10 ^ 9)
      (tables d ''deleted_events'')"
  shows "sq_GetEvent E (fst (PruneDeletedEvents E now d age)) i = Inr e"
proof -
  let ?c = "DeleteRows ''deleted_events'' [Below ''deleted_at'' ((now + wrap64 (- age)) div 10 ^ 9)]"
  obtain d' where d': "run_exec E d ?c = (d', Inr (snd (effect ?c (tables d))))" "tables d' = fst (effect ?c (tables d))"
    by (rule working_engine.working_exec [OF assms(1), of ?c d]) auto
  have "is_int (cell r ''deleted_at'')" if "r \<in> set (tables d ''deleted_events'')" for r
  proof -
    have "typed_row deleted_columns r" using db_inv_tables(2) [OF assms(2)] that by (simp add: typed_table_def list_all_iff)
    then show ?thesis by (rule deleted_typedE) (simp add: cell_def)
  qed
  then have "holds_cond r (Below ''deleted_at'' t) \<longleftrightarrow> int_of (cell r ''deleted_at'') < t" if "r \<in> set (tables d ''deleted_events'')" for r t
    using that by (cases "cell r ''deleted_at''") fastforce+
  then have "\<not> sq_tomb (tables d') i"
    using assms(4) by (auto simp: d'(2) sq_tomb_def list_ex_iff list_all_iff holds_conds_def simp del: holds_cond.simps)
  moreover have "db_inv (tables d')" "sq_stored (tables d') = sq_stored (tables d)"
    using effect_inv [OF assms(2), of ?c] d'(2) by (simp, simp add: sq_stored_def [abs_def])
  ultimately have "sq_GetEvent E d' i = Inr e"
    using working_engine.working_get [OF assms(1)] assms(3) by simp
  then show ?thesis using d'(1) by (simp add: PruneDeletedEvents_def)
qed

lemma prune_resurrects_witness:
  "let d = fst (sq_DeleteEvent table_engine 7 (one_event (a_note ''n1'' 5)) ''n1'' ''pk'')
   in (\<exists>err. sq_GetEvent table_engine d ''n1'' = Inl err) \<and>
     sq_GetEvent table_engine (fst (PruneDeletedEvents table_engine (100 * 10 ^ 9) d (10 ^ 9))) ''n1'' = Inr (a_note ''n1'' 5)"
proof -
  let ?d = "fst (sq_DeleteEvent table_engine 7 (one_event (a_note ''n1'' 5)) ''n1'' ''pk'')"
  have d: "snd (sq_DeleteEvent table_engine 7 (one_event (a_note ''n1'' 5)) ''n1'' ''pk'') = None" by code_simp
  have s: "sq_stored (fst (one_event (a_note ''n1'' 5))) ''n1'' = Some (a_note ''n1'' 5)"
    by (simp add: one_event_views read_back_a_note) (simp add: a_note_def)
  note f = tables.sq_Delete_facts [OF one_event_inv, where now = 7 and i = "''n1''" and pk = "''pk''"]
  have del: "fst ?d ''deleted_events'' = [[(''id'', Text ''n1''), (''deleter_pubkey'', Text ''pk''), (''deleted_at'', Integer 7)]]"
    by code_simp
  have r: "list_all (\<lambda>r. row_id r = Text ''n1'' \<longrightarrow>
      int_of (cell r ''deleted_at'') < (100 * 10 ^ 9 + wrap64 (- (10 ^ 9))) div 10 ^ 9) (fst ?d ''deleted_events'')"
    unfolding del by (simp add: cell_def wrap64_def)
  have st: "sq_stored (fst ?d) ''n1'' = Some (a_note ''n1'' 5)" unfolding f(2) by (rule s)
  have "sq_GetEvent table_engine (fst (PruneDeletedEvents table_engine (100 * 10 ^ 9) ?d (10 ^ 9))) ''n1'' = Inr (a_note ''n1'' 5)"
    by (rule prune_resurrects [where tables = fst and saved = snd, OF table_engine_working f(1) st r])
  moreover have "\<exists>err. sq_GetEvent table_engine ?d ''n1'' = Inl err"
    using tables.sq_GetEvent_tomb [of ?d "''n1''"] f(3) d by blast
  ultimately show ?thesis by (simp add: Let_def)
qed

section \<open>Counts\<close>

lemma card_filter_rows:
  assumes "db_inv db"
  shows "length (filter (\<lambda>r. sql_matches f (row_event r)) (db ''events'')) =
    card {e. sq_stored db (ID e) = Some e \<and> sql_matches f e}"
proof -
  let ?rs = "filter (\<lambda>r. sql_matches f (row_event r)) (db ''events'')"
  have "distinct (map row_id (db ''events''))" using db_inv_tables(1) [OF assms] by (simp add: typed_table_def)
  then have d: "distinct (map row_id ?rs)" by (rule distinct_map_filter)
  have "inj_on row_event (set ?rs)"
  proof (rule inj_onI)
    fix r q assume r: "r \<in> set ?rs" "q \<in> set ?rs" "row_event r = row_event q"
    then have rq: "r \<in> set (db ''events'')" "q \<in> set (db ''events'')" by simp_all
    have "row_id r = Text (ID (row_event r))" by (rule db_inv_event(2) [OF assms rq(1)])
    also have "\<dots> = row_id q" unfolding r(3) by (rule db_inv_event(2) [OF assms rq(2), symmetric])
    finally have "row_id r = row_id q" .
    moreover have "inj_on row_id (set ?rs)" using d unfolding distinct_map by (rule conjunct2)
    ultimately show "r = q" by (intro inj_onD [OF _ _ r(1,2)])
  qed
  then have "distinct (map row_event ?rs)" using d by (simp only: distinct_map)
  then have "card (set (map row_event ?rs)) = length ?rs" by (simp only: distinct_card length_map)
  moreover have "set (map row_event ?rs) = {e. sq_stored db (ID e) = Some e \<and> sql_matches f e}" (is "?l = ?r")
  proof
    show "?l \<subseteq> ?r"
    proof
      fix e assume "e \<in> ?l"
      then obtain r where r: "r \<in> set (db ''events'')" "sql_matches f (row_event r)" "e = row_event r" unfolding set_map set_filter by blast
      show "e \<in> ?r" unfolding r(3) mem_Collect_eq db_inv_event(3) [OF assms r(1)] using r(2) by blast
    qed
    show "?r \<subseteq> ?l"
    proof
      fix e assume "e \<in> ?r"
      then have "\<exists>r \<in> set (db ''events''). row_id r = Text (ID e) \<and> e = row_event r" and m: "sql_matches f e"
        by (simp_all only: mem_Collect_eq sq_stored_iff [OF assms])
      then obtain r where r: "r \<in> set (db ''events'')" "e = row_event r" by blast
      show "e \<in> ?l" using m r(1) unfolding r(2) by simp
    qed
  qed
  ultimately show ?thesis by (simp only:)
qed

context sql_engine begin

lemma countFilter_card:
  assumes "db_inv (tables d)" "countFilter E d f = Inr n"
  shows "n = int (card {e. sq_stored (tables d) (ID e) = Some e \<and> sql_matches f e})"
proof -
  have q: "QueryRow E d (Count ''events'' (where_clause f)) (scan_one scan_int) = Inr (Some n)"
    using assms(2) by (auto simp: countFilter_def split: sum.splits option.splits)
  have t: "typed_row event_columns r" if "r \<in> set (tables d ''events'')" for r by (rule db_inv_event(1) [OF assms(1) that])
  have "filter (\<lambda>r. holds_conds r (where_clause f)) (tables d ''events'') =
      filter (\<lambda>r. sql_matches f (row_event r)) (tables d ''events'')"
    by (rule filter_cong) (simp_all add: t holds_where)
  note w = this
  have "n = int (length (filter (\<lambda>r. sql_matches f (row_event r)) (tables d ''events'')))"
    by (rule QueryRow_cases [OF q]) (simp add: w split: list.splits)
  then show ?thesis unfolding card_filter_rows [OF assms(1)] .
qed

lemma count_loop_sum:
  assumes "db_inv (tables d)" "count_loop E d fs acc = Inr n"
  shows "n = acc + (\<Sum>f \<leftarrow> fs. int (card {e. sq_stored (tables d) (ID e) = Some e \<and> sql_matches f e}))"
  using assms(2)
proof (induction fs arbitrary: acc)
  case (Cons f fs)
  then obtain m where "countFilter E d f = Inr m" "count_loop E d fs (acc + m) = Inr n" by (auto split: sum.splits)
  from Cons.IH [OF this(2)] countFilter_card [OF assms(1) this(1)] show ?case by simp
qed simp

end

text \<open>A count is the sum over the filters of the stored events that satisfy each one's \<^verbatim>\<open>WHERE\<close> clause:
  an event that satisfies two is counted twice, and a deleted one is counted too.\<close>

theorem sq_CountEvents_sum:
  assumes "sql_engine E tables saved" "db_inv (tables d)" "sq_CountEvents E d fs = Inr n"
  shows "n = (\<Sum>f \<leftarrow> fs. int (card {e. sq_stored (tables d) (ID e) = Some e \<and> sql_matches f e}))"
proof (cases fs)
  case (Cons f fs')
  then show ?thesis using assms(3) sql_engine.count_loop_sum [OF assms(1,2), of fs 0 n] by (simp add: sq_CountEvents_def del: count_loop.simps)
qed (use assms(3) in \<open>simp add: sq_CountEvents_def\<close>)

lemma sq_CountEvents_sum_witness:
  "2 = (\<Sum>f \<leftarrow> [id_filter ''n1'', id_filter ''n1'']. int (card {e. sq_stored (fst (one_event (a_note ''n1'' 5))) (ID e) = Some e \<and> sql_matches f e}))"
proof -
  have "sq_CountEvents table_engine (one_event (a_note ''n1'' 5)) [id_filter ''n1'', id_filter ''n1''] = Inr 2" by code_simp
  from sq_CountEvents_sum [OF table_engine_sql one_event_inv this] show ?thesis .
qed

section \<open>Saving\<close>

text \<open>Saving a new replaceable event, if the engine does not fail, changes nothing when a newer one of the
  author and kind is stored; otherwise the event takes the place of every other one of them. No event
  of another author or kind is touched. The event reads back with its tags as the column carries them.\<close>

theorem sq_newest_wins:
  assumes "working_engine E tables saved" "db_inv (tables d)" "\<not> sq_tomb (tables d) (ID e)" "replaceable_kind (Kind e)"
  shows "sq_stored (tables (fst (sq_SaveEvent E d e))) i =
    (if newer_stored (tables d) e then sq_stored (tables d) i
     else if i = ID e then Some (read_back e)
     else (case sq_stored (tables d) i of
       None \<Rightarrow> None | Some x \<Rightarrow> if PubKey x = PubKey e \<and> Kind x = Kind e then None else Some x))"
proof -
  let ?drop = "DeleteRows ''events'' [Equals ''pubkey'' (Text (PubKey e)), Equals ''kind'' (Integer (Kind e)),
      Differs ''id'' (Text (ID e))]"
  have i: "db_inv (fst (effect ?drop (tables d)))" by (rule effect_inv [OF assms(2)]) simp
  show ?thesis
    using working_engine.working_save [OF assms(1-3)] assms(4) stored_put [OF i, of e]
      stored_drop_older [OF assms(2), of "PubKey e" "Kind e" "ID e" i]
    by (simp del: effect.simps split: option.split)
qed

lemma sq_newest_wins_witness:
  "sq_stored (fst (fst (sq_SaveEvent table_engine (one_event ((a_note ''n1'' 5)\<lparr>Kind := 0\<rparr>)) ((a_note ''n2'' 6)\<lparr>Kind := 0\<rparr>)))) ''n1'' = None"
proof -
  let ?o = "(a_note ''n1'' 5)\<lparr>Kind := 0\<rparr>" and ?e = "(a_note ''n2'' 6)\<lparr>Kind := 0\<rparr>"
  have k: "replaceable_kind (Kind ?e)" by (simp add: replaceable_kind_def)
  have n: "\<not> newer_stored (fst (one_event ?o)) ?e" by code_simp
  have s: "sq_stored (fst (one_event ?o)) ''n1'' = Some (read_back ?o)" unfolding one_event_views by (simp add: a_note_def)
  have d: "''n1'' \<noteq> ID ?e" "PubKey ?o = PubKey ?e" "Kind ?o = Kind ?e" by (simp_all add: a_note_def)
  show ?thesis
    using sq_newest_wins [OF table_engine_working one_event_inv one_event_views(2) k, of ?o "''n1''"] n d
    unfolding s by simp
qed

section \<open>Batches\<close>

definition put_live :: "event \<Rightarrow> database \<Rightarrow> database" where
  "put_live e db = (if sq_tomb db (ID e) then db else fst (effect (InsertReplace ''events'' (event_row e)) db))"

context sql_engine begin

lemma save_batch_tables:
  "save_batch E es d = (d', res) \<Longrightarrow> saved d' = saved d \<and> (res = None \<longrightarrow> tables d' = fold put_live es (tables d))"
proof (induction es arbitrary: d)
  case (Cons e es)
  show ?case
  proof (cases "check_deleted E d (ID e)")
    case (Inl err)
    then show ?thesis using Cons.prems by auto
  next
    case (Inr b)
    note b = check_deleted_sound [OF Inr]
    show ?thesis
    proof (cases b)
      case True
      then show ?thesis using Cons Inr b by (simp add: put_live_def)
    next
      case False
      show ?thesis
      proof (cases rule: exec_cases [of d "put e"])
        case (failed d1 err)
        then show ?thesis using Cons.prems Inr False exec_saved [of d "put e"] by auto
      next
        case (finished d1)
        have p: "tables d1 = put_live e (tables d)" "saved d1 = saved d"
          using finished b False exec_saved [of d "put e"] by (auto simp: put_live_def)
        have "save_batch E es d1 = (d', res)" using Cons.prems Inr False finished(1) by (simp del: effect.simps)
        from Cons.IH [OF this] show ?thesis using p by simp
      qed
    qed
  qed
qed simp

end

lemma SaveEvents_tables:
  assumes "sql_engine E tables saved" "SaveEvents E d es = (d', res)"
  shows "tables d' = (case res of Some err \<Rightarrow> tables d | None \<Rightarrow> fold put_live es (tables d))"
proof (cases "es = []")
  case False
  obtain d1 b where b: "begin_tx E d = (d1, b)" by (cases "begin_tx E d")
  have t1: "tables d1 = tables d" using sql_engine.begin_tables [OF assms(1), of d] b by simp
  show ?thesis
  proof (cases b)
    case (Some err)
    then show ?thesis using assms(2) False b t1 by (auto simp: SaveEvents_def)
  next
    case None
    have s1: "saved d1 = tables d" using sql_engine.begin_saved [OF assms(1), of d] b None by simp
    obtain d2 r2 where l: "save_batch E es d1 = (d2, r2)" by (cases "save_batch E es d1")
    note t2 = sql_engine.save_batch_tables [OF assms(1) l]
    note u = sql_engine.rollback_tables [OF assms(1)] sql_engine.commit_done [OF assms(1), of d2] sql_engine.commit_failed [OF assms(1), of d2]
    show ?thesis
      using assms(2) False b None l t1 s1 t2 u
      by (cases "prepare E d1"; cases r2; cases "snd (commit E d2)") (auto simp: SaveEvents_def split: prod.splits)
  qed
qed (use assms(2) in \<open>simp add: SaveEvents_def\<close>)

text \<open>C25: A batch is saved as a whole or not at all: when it fails, at whatever step, the tables are as before;
  when it succeeds they hold every event of it that is not marked as deleted.\<close>

theorem SaveEvents_atomic:
  assumes "sql_engine E tables saved" "SaveEvents E d es = (d', res)"
  shows "tables d' = (case res of Some err \<Rightarrow> tables d | None \<Rightarrow> fold put_live es (tables d))"
  by (rule SaveEvents_tables [OF assms])

lemma SaveEvents_atomic_witness:
  "let r = SaveEvents table_engine (one_event (a_note ''n1'' 5)) [a_note ''n2'' 6, a_note ''n1'' 7]
   in snd r = None \<and> fst (fst r) = fold put_live [a_note ''n2'' 6, a_note ''n1'' 7] (fst (one_event (a_note ''n1'' 5)))"
proof -
  let ?r = "SaveEvents table_engine (one_event (a_note ''n1'' 5)) [a_note ''n2'' 6, a_note ''n1'' 7]"
  have n: "snd ?r = None" by code_simp
  then have "?r = (fst ?r, None)" by (simp add: prod_eq_iff)
  from SaveEvents_atomic [OF table_engine_sql this] n show ?thesis by (simp add: Let_def)
qed

section \<open>Retention\<close>

text \<open>A successful retention run removes from the table exactly the rows older than the cutoff whose kind is
  not exempt, and reports how many they were.\<close>

theorem sq_retention_exact:
  assumes "sql_engine E tables saved" "db_inv (tables d)" "sq_DeleteEventsOlderThan E d t ks = (d', Inr n)"
  shows "sq_stored (tables d') i =
      (case sq_stored (tables d) i of None \<Rightarrow> None | Some x \<Rightarrow> if CreatedAt x < t \<and> Kind x \<notin> set ks then None else Some x)
    \<and> int (length (tables d ''events'')) = n + int (length (tables d' ''events''))"
proof (cases rule: sql_engine.sq_Older_cases [OF assms(1), of d t ks])
  case 2
  have "tables d' = fst (effect (DeleteRows ''events'' (older_conds t ks)) (tables d))"
    "n = snd (effect (DeleteRows ''events'' (older_conds t ks)) (tables d))"
    using 2 assms(3) by (simp_all del: effect.simps)
  then show ?thesis
    using stored_older [OF assms(2), where t = t and ks = ks and i = i] sum_length_filter_compl [of "\<lambda>r. holds_conds r (older_conds t ks)" "tables d ''events''"]
    by simp
qed (use assms(3) in simp)

lemma sq_retention_exact_witness:
  "sq_stored (fst (fst (sq_DeleteEventsOlderThan table_engine (one_event (a_note ''n1'' 5)) 6 [0, 3]))) ''n1'' = None"
proof -
  let ?r = "sq_DeleteEventsOlderThan table_engine (one_event (a_note ''n1'' 5)) 6 [0, 3]"
  have "snd ?r = Inr 1" by code_simp
  then have "?r = (fst ?r, Inr 1)" by (simp add: prod_eq_iff)
  from sq_retention_exact [OF table_engine_sql one_event_inv this, of "''n1''"] show ?thesis
    by (simp add: one_event_views) (simp add: a_note_def)
qed

section \<open>The schema\<close>

definition applied :: "database \<Rightarrow> int \<Rightarrow> bool" where
  "applied db v \<longleftrightarrow> list_ex (\<lambda>r. cell r ''version'' = Integer v) (db ''schema_migrations'')"

definition record_of :: "int \<Rightarrow> int \<Rightarrow> row" where
  "record_of now v = [(''version'', Integer v), (''applied_at'', Integer now)]"

definition is_script :: "command \<Rightarrow> bool" where
  "is_script c = (case c of CreateTables ts \<Rightarrow> True | _ \<Rightarrow> False)"

lemma script_effect: "is_script c \<Longrightarrow> effect c db = (db, 0)"
  by (cases c) (simp_all add: is_script_def)

context sql_engine begin

lemma applied_count:
  assumes "QueryRow E d (Count ''schema_migrations'' [Equals ''version'' (Integer v)]) (scan_one scan_int) = Inr (Some n)"
  shows "n > 0 \<longleftrightarrow> applied (tables d) v"
proof -
  have "n = int (length (filter (\<lambda>r. cell r ''version'' = Integer v) (tables d ''schema_migrations'')))"
    by (rule QueryRow_cases [OF assms]) (simp add: holds_conds_def split: list.splits)
  then have "n > 0 \<longleftrightarrow> filter (\<lambda>r. cell r ''version'' = Integer v) (tables d ''schema_migrations'') \<noteq> []" by simp
  then show ?thesis unfolding applied_def list_ex_iff filter_empty_conv by blast
qed

lemma migration_loop_tables:
  assumes "list_all is_script (map snd ms)" "distinct (map fst ms)" "migration_loop E now ms d = (d', None)"
  shows "tables d' = (tables d)(''schema_migrations'' := tables d ''schema_migrations'' @
    map (record_of now) (filter (\<lambda>v. \<not> applied (tables d) v) (map fst ms)))"
  using assms
proof (induction ms arbitrary: d)
  case (Cons m ms)
  obtain v c where m: "m = (v, c)" by (cases m)
  obtain n where n: "QueryRow E d (Count ''schema_migrations'' [Equals ''version'' (Integer v)]) (scan_one scan_int) = Inr (Some n)"
    using Cons.prems(3) m by (auto split: sum.splits option.splits)
  show ?case
  proof (cases "n > 0")
    case True
    then show ?thesis using Cons m n applied_count [OF n] by simp
  next
    case False
    obtain d1 d2 k1 k2 where x: "run_exec E d c = (d1, Inr k1)"
      "run_exec E d1 (Insert ''schema_migrations'' (record_of now v)) = (d2, Inr k2)" "migration_loop E now ms d2 = (d', None)"
      using Cons.prems(3) m n False by (auto simp: record_of_def split: prod.splits sum.splits)
    have "tables d1 = tables d" using exec_done [OF x(1)] script_effect [of c] Cons.prems(1) m by simp
    then have t: "tables d2 = (tables d)(''schema_migrations'' := tables d ''schema_migrations'' @ [record_of now v])"
      using exec_done [OF x(2)] by simp
    have "applied (tables d2) w \<longleftrightarrow> applied (tables d) w \<or> w = v" for w
      unfolding t by (auto simp: applied_def record_of_def cell_def)
    then have f: "filter (\<lambda>v. \<not> applied (tables d2) v) (map fst ms) = filter (\<lambda>v. \<not> applied (tables d) v) (map fst ms)"
      using Cons.prems(2) m by (intro filter_cong) auto
    have ih: "tables d' = (tables d2)(''schema_migrations'' := tables d2 ''schema_migrations'' @
        map (record_of now) (filter (\<lambda>v. \<not> applied (tables d2) v) (map fst ms)))"
      using Cons.prems(1,2) m by (intro Cons.IH [OF _ _ x(3)]) simp_all
    have "\<not> applied (tables d) v" using applied_count [OF n] False by simp
    then show ?thesis unfolding ih f unfolding t m by simp
  qed
qed simp

lemma initSchema_tables:
  assumes "initSchema E now d = (d', None)"
  shows "tables d' = (tables d)(''schema_migrations'' := tables d ''schema_migrations'' @
    map (record_of now) (filter (\<lambda>v. \<not> applied (tables d) v) [1, 2, 3]))"
proof -
  let ?c = "CreateTables [(''schema_migrations'', [''version'', ''applied_at''])]"
  obtain d1 k where x: "run_exec E d ?c = (d1, Inr k)" "migration_loop E now migrations d1 = (d', None)"
    using assms by (auto simp: initSchema_def runMigrations_def split: prod.splits sum.splits option.splits)
  have "tables d1 = tables d" using exec_done [OF x(1)] by simp
  moreover have "map fst migrations = [1, 2, 3]" "list_all is_script (map snd migrations)"
    by (simp_all add: migrations_def is_script_def)
  ultimately show ?thesis using migration_loop_tables [OF _ _ x(2)] by simp
qed

end

text \<open>Opening a database records each of the three migrations that it lacks and leaves every other table
  alone; opening it again changes nothing.\<close>

theorem initSchema_once:
  assumes "sql_engine E tables saved" "initSchema E now d = (d1, None)" "initSchema E now' d1 = (d2, None)"
  shows "tables d1 = (tables d)(''schema_migrations'' := tables d ''schema_migrations'' @
      map (record_of now) (filter (\<lambda>v. \<not> applied (tables d) v) [1, 2, 3]))
    \<and> tables d2 = tables d1"
proof -
  note t = sql_engine.initSchema_tables [OF assms(1,2)]
  have "applied (tables d1) v" if "v \<in> set [1, 2, 3]" for v
    unfolding t using that by (cases "applied (tables d) v") (auto simp: applied_def record_of_def cell_def list_ex_iff)
  then have "filter (\<lambda>v. \<not> applied (tables d1) v) [1, 2, 3] = []" by (simp del: filter.simps add: filter_empty_conv)
  then have "tables d2 = tables d1" using sql_engine.initSchema_tables [OF assms(1,3)] by (simp del: filter.simps)
  with t show ?thesis by blast
qed

lemma initSchema_once_witness:
  "let d1 = fst (initSchema table_engine 7 ((\<lambda>t. []), (\<lambda>t. [])))
   in fst (fst (initSchema table_engine 8 d1)) = fst d1 \<and> length (fst d1 ''schema_migrations'') = 3"
proof -
  let ?a = "initSchema table_engine 7 ((\<lambda>t. []), (\<lambda>t. []))"
  let ?b = "initSchema table_engine 8 (fst ?a)"
  have "snd ?a = None" "snd ?b = None" by code_simp+
  then have "?a = (fst ?a, None)" "?b = (fst ?b, None)" by (simp_all add: prod_eq_iff)
  from initSchema_once [OF table_engine_sql this] show ?thesis by (simp add: Let_def applied_def)
qed

section \<open>Every operation keeps the tables typed\<close>

text \<open>The operations of the store, in any order, over any engine.\<close>

inductive sq_step :: "'d engine \<Rightarrow> 'd \<Rightarrow> 'd \<Rightarrow> bool" for E where
  "sq_step E d (fst (sq_SaveEvent E d e))"
| "sq_step E d (fst (SaveEvents E d es))"
| "sq_step E d (fst (sq_DeleteEvent E now d i pk))"
| "sq_step E d (fst (sq_DeleteAllEventsByPubKey E now d pk))"
| "sq_step E d (fst (sq_DeleteEventsOlderThan E d t ks))"
| "sq_step E d (fst (PruneDeletedEvents E now d age))"
| "sq_step E d (fst (Vacuum E d))"
| "sq_step E d (fst (sq_SaveChannelEvent E d e))"
| "sq_step E d (fst (sq_DeleteChannelEvents E d c))"
| "sq_step E d (fst (configurePerformance E opts d))"
| "sq_step E d d'" if "initSchema E now d = (d', None)"

lemma put_live_inv: "db_inv db \<Longrightarrow> db_inv (fold put_live es db)"
  by (induction es arbitrary: db) (simp_all add: put_live_def effect_inv del: effect.simps)

context sql_engine begin

lemma run_all_inv:
  "db_inv (tables d) \<Longrightarrow> list_all well_formed (map fst cs) \<Longrightarrow> db_inv (tables (fst (run_all E cs d)))"
proof (induction cs arbitrary: d)
  case (Cons x cs)
  obtain c msg where x: "x = (c, msg)" by (cases x)
  have i: "db_inv (tables (fst (run_exec E d c)))" using Cons.prems x by (intro exec_inv) auto
  show ?case
  proof (cases "run_exec E d c")
    case (Pair d' r)
    then show ?thesis using Cons.IH [of d'] Cons.prems i x by (cases r) simp_all
  qed
qed simp

lemma well_formed_others [simp]: "well_formed (SetPragma p)" "well_formed VacuumAll" "well_formed (CreateTables ts)"
  by (simp_all add: well_formed_def)

lemma one_exec_inv:
  assumes "db_inv (tables d)" "well_formed c"
  shows "db_inv (tables (fst (case run_exec E d c of (d', Inl err) \<Rightarrow> (d', f err) | (d', Inr n) \<Rightarrow> (d', g n))))"
  using exec_inv [OF assms] by (cases "run_exec E d c"; cases "snd (run_exec E d c)") auto

lemma sq_step_inv:
  assumes "db_inv (tables d)" "sq_step E d d'"
  shows "db_inv (tables d')"
  using assms(2)
proof cases
  case (2 es)
  obtain r where "SaveEvents E d es = (d', r)" using 2 by (cases "SaveEvents E d es") simp
  from SaveEvents_tables [OF sql_engine_axioms this] assms(1) show ?thesis
    by (simp add: put_live_inv split: option.splits)
next
  case (6 now age)
  then show ?thesis unfolding PruneDeletedEvents_def by (simp add: one_exec_inv [OF assms(1)])
next
  case 7
  then show ?thesis unfolding Vacuum_def by (simp add: one_exec_inv [OF assms(1)])
next
  case (8 e)
  then show ?thesis unfolding sq_SaveChannelEvent_def by (simp add: one_exec_inv [OF assms(1)])
next
  case (10 opts)
  then show ?thesis unfolding configurePerformance_def by (simp add: run_all_inv [OF assms(1)])
next
  case (11 now)
  then show ?thesis using db_inv_other [OF assms(1), of "''schema_migrations''"] initSchema_tables [OF 11]
    by (simp add: data_tables_def)
qed (simp_all add: assms(1) sq_Save_facts sq_Delete_facts(1) sq_DeleteAll_facts(1) sq_Older_facts(1) sq_Channel_facts(1))

end

text \<open>C24: Whatever operations run, in whatever order, and however often the engine fails, every row has the
  columns and the types of its table and the IDs of a table stay distinct.\<close>

theorem sq_tables_typed:
  assumes "sql_engine E tables saved" "db_inv (tables d)" "(sq_step E)\<^sup>*\<^sup>* d d'"
  shows "db_inv (tables d')"
  using assms(3,2) by (induction rule: rtranclp_induct) (auto intro: sql_engine.sq_step_inv [OF assms(1)])

lemma sq_tables_typed_witness:
  "db_inv (fst (fst (sq_DeleteEvent table_engine 7 (fst (sq_SaveEvent table_engine (one_event (a_note ''n1'' 5)) (a_note ''n2'' 6))) ''n2'' ''pk'')))"
proof -
  let ?d = "one_event (a_note ''n1'' 5)"
  let ?s = "fst (sq_SaveEvent table_engine ?d (a_note ''n2'' 6))"
  have "(sq_step table_engine)\<^sup>*\<^sup>* ?d ?s" by (rule r_into_rtranclp) (rule sq_step.intros(1))
  then have "(sq_step table_engine)\<^sup>*\<^sup>* ?d (fst (sq_DeleteEvent table_engine 7 ?s ''n2'' ''pk''))"
    by (rule rtranclp.rtrancl_into_rtrancl) (rule sq_step.intros(3))
  from sq_tables_typed [OF table_engine_sql one_event_inv this] show ?thesis .
qed



end
