(* ===== verification/SqliteSystem.thy ===== *)
theory SqliteSystem
  imports System SqliteQueries
begin

text \<open>
  The relay over the SQLite store, as the relay command runs it: the store as a backend of the system,
  over any engine that keeps SQLite's promises, whenever it fails. The columns carry the tags of an
  event only as text, so what is read back is an event that passed validation up to its tags.
\<close>

section \<open>The backend\<close>

definition sqlite_channels :: "'d engine \<Rightarrow> 'd channel_if" where
  "sqlite_channels E = \<lparr>SaveChannelEvent = sq_SaveChannelEvent E, QueryChannelEvents = sq_QueryChannelEvents E\<rparr>"

definition sqlite_backends :: "'d engine \<Rightarrow> 'd backends" where
  "sqlite_backends E = {(sqlite_if E now ties, Some (sqlite_channels E)) | now ties. True}"

lemma sqlite_backendsE:
  assumes "(S, CS) \<in> sqlite_backends E"
  obtains now ties where "S = sqlite_if E now ties" "CS = Some (sqlite_channels E)"
  using assms by (auto simp: sqlite_backends_def)

lemma sqlite_channels_sel [simp]:
  "SaveChannelEvent (sqlite_channels E) = sq_SaveChannelEvent E"
  "QueryChannelEvents (sqlite_channels E) = sq_QueryChannelEvents E"
  by (simp_all add: sqlite_channels_def)

text \<open>Every row of the two tables of events satisfies \<open>P\<close>.\<close>

definition good_rows :: "(event \<Rightarrow> bool) \<Rightarrow> database \<Rightarrow> bool" where
  "good_rows P db \<longleftrightarrow> (\<forall>r \<in> set (db ''events'') \<union> set (db ''channel_events''). P (row_event r))"

text \<open>A command whose rows do.\<close>

definition good_command :: "(event \<Rightarrow> bool) \<Rightarrow> command \<Rightarrow> bool" where
  "good_command P c \<longleftrightarrow> (case c of
      InsertReplace t r \<Rightarrow> P (row_event r) | InsertIgnore t r \<Rightarrow> t = ''deleted_events'' | Insert t r \<Rightarrow> False | _ \<Rightarrow> True)"

lemma effect_rows: "good_rows P db \<Longrightarrow> good_command P c \<Longrightarrow> good_rows P (fst (effect c db))"
  by (cases c) (auto simp: good_rows_def good_command_def)

lemma good_command_simps [simp]: "good_command P (DeleteRows t cs)" "good_command P (mark_deleted now i pk)"
  by (simp_all add: good_command_def mark_deleted_def)

definition upto_tags :: "(event \<Rightarrow> bool) \<Rightarrow> event \<Rightarrow> bool" where
  "upto_tags good e \<longleftrightarrow> (\<exists>ts. good (e\<lparr>Tags := ts\<rparr>))"

lemma upto_tags_good: "good e \<Longrightarrow> upto_tags good e"
  unfolding upto_tags_def by (rule exI [of _ "Tags e"]) simp

lemma upto_tags_Tags [simp]: "upto_tags good (e\<lparr>Tags := ts\<rparr>) = upto_tags good e"
  by (simp add: upto_tags_def)

lemma good_put: "good e \<Longrightarrow> good_command (upto_tags good) (InsertReplace ''events'' (event_row e))"
  by (simp add: good_command_def row_event_row read_back_def upto_tags_good)

lemma row_event_channel: "row_event (channel_row e) = read_back e"
  by (simp add: row_event_def channel_row_def event_row_def cell_def read_back_def)

lemma good_put_channel: "good e \<Longrightarrow> good_command (upto_tags good) (InsertReplace ''channel_events'' (channel_row e))"
  by (simp add: good_command_def row_event_channel read_back_def upto_tags_good)

lemma apply_limit_set: "apply_limit fs xs = Ok es \<Longrightarrow> set es \<subseteq> set xs"
  by (auto simp: apply_limit_def dest: in_set_takeD split: list.splits option.splits if_splits)

context sql_engine begin

definition sql_inv :: "(event \<Rightarrow> bool) \<Rightarrow> 'd \<Rightarrow> bool" where
  "sql_inv P d \<longleftrightarrow> db_inv (tables d) \<and> good_rows P (tables d)"

lemma exec_rows: "good_rows P (tables d) \<Longrightarrow> good_command P c \<Longrightarrow> good_rows P (tables (fst (run_exec E d c)))"
  by (rule exec_cases [of d c]) (simp_all add: effect_rows)

lemma one_exec_rows:
  assumes "good_rows P (tables d)" "good_command P c"
  shows "good_rows P (tables (fst (case run_exec E d c of (d', Inl err) \<Rightarrow> (d', f err) | (d', Inr n) \<Rightarrow> (d', g n))))"
  using exec_rows [OF assms] by (cases "run_exec E d c"; cases "snd (run_exec E d c)") auto

lemma mark_all_rows: "good_rows P (tables d) \<Longrightarrow> good_rows P (tables (fst (mark_all E now pk is d)))"
proof (induction "is" arbitrary: d)
  case (Cons i "is")
  have "good_rows P (tables (fst (run_exec E d (mark_deleted now i pk))))" using Cons.prems by (intro exec_rows) simp_all
  then show ?case using Cons.IH by (cases "run_exec E d (mark_deleted now i pk)"; cases "snd (run_exec E d (mark_deleted now i pk))") auto
qed simp

lemma stored_good: "sql_inv P d \<Longrightarrow> sq_stored (tables d) i = Some e \<Longrightarrow> P e"
  by (auto simp: sql_inv_def good_rows_def sq_stored_iff)

lemma query_good:
  assumes "sql_inv P d" "sq_QueryEvents E ties d fs = Ok es" "e \<in> set es"
  shows "P e"
proof (cases fs)
  case (Cons f fs')
  obtain results where l: "sq_query_loop E d fs [] [] = Inr results" "apply_limit fs (sort_newest ties results) = Ok es"
    using assms(2) Cons by (auto simp: sq_QueryEvents_def simp del: sq_query_loop.simps split: sum.splits)
  have "e \<in> set results" using apply_limit_set [OF l(2)] assms(3) sort_newest_facts(1) by blast
  moreover have "db_inv (tables d)" using assms(1) by (simp add: sql_inv_def)
  ultimately have "sq_stored (tables d) (ID e) = Some e"
    using sq_query_loop_set [OF _ l(1)] by simp
  then show ?thesis by (rule stored_good [OF assms(1)])
qed (use assms(2,3) in \<open>simp add: sq_QueryEvents_def\<close>)

lemma channel_query_good:
  assumes "sql_inv (upto_tags good) d" "sq_QueryChannelEvents E d c since until mx = Inr es" "e \<in> set es"
  shows "upto_tags good e"
proof -
  let ?cs = "Equals ''channel_id'' (Text c) #
      (case since of None \<Rightarrow> [] | Some t \<Rightarrow> [AtLeast ''created_at'' t]) @
      (case until of None \<Rightarrow> [] | Some t \<Rightarrow> [AtMost ''created_at'' t])"
  let ?l = "case mx of Some n \<Rightarrow> if n > 0 then Some n else None | None \<Rightarrow> None"
  obtain rs where rs: "mset rs = mset (filter (\<lambda>r. holds_conds r ?cs) (tables d ''channel_events''))"
    "scan_rows scan_channel_event (map (project channel_columns) (limited ?l rs)) = Inr es"
    using fetch_Select [OF assms(2) [unfolded sq_QueryChannelEvents_def]] by blast
  have sub: "set (limited ?l rs) \<subseteq> set (tables d ''channel_events'')"
    using mset_eq_setD [OF rs(1)] by (auto simp: limited_def dest: in_set_takeD split: option.splits)
  have "typed_table channel_columns (tables d ''channel_events'')"
    using assms(1) db_inv_tables(3) by (simp add: sql_inv_def)
  then have "scan_channel_event (project channel_columns r) = Inr (row_channel_event r)" if "r \<in> set (limited ?l rs)" for r
    using that sub by (intro scan_channel_row) (auto simp: typed_table_def list_all_iff)
  then have "es = map row_channel_event (limited ?l rs)"
    using rs(2) scan_rows_map [of "limited ?l rs" scan_channel_event] by simp
  then obtain r where r: "r \<in> set (tables d ''channel_events'')" "e = row_channel_event r"
    using assms(3) sub by auto
  then show ?thesis using assms(1) by (simp add: sql_inv_def good_rows_def row_channel_event_def)
qed

lemma sqlite_backend:
  "backend (sqlite_backends E) good (upto_tags good) (sql_inv (upto_tags good))"
proof (unfold_locales, goal_cases)
  case (1 e) then show ?case using upto_tags_good by blast
next
  case (2 S CS d e)
  then obtain now ties where S: "S = sqlite_if E now ties" by (auto elim: sqlite_backendsE)
  have "good_rows (upto_tags good) (tables (fst (sq_SaveEvent E d e)))"
    by (cases rule: sq_SaveEvent_tables [of d e])
      (use 2(2,3) good_put in \<open>simp_all add: sql_inv_def effect_rows del: effect.simps\<close>)
  then show ?case using 2(2) sq_Save_facts(1) by (simp add: S sql_inv_def)
next
  case (3 S CS d i pk)
  then obtain now ties where S: "S = sqlite_if E now ties" by (auto elim: sqlite_backendsE)
  have d: "db_inv (tables d)" "good_rows (upto_tags good) (tables d)" using 3(2) by (simp_all add: sql_inv_def)
  have "good_rows (upto_tags good) (tables (fst (sq_DeleteEvent E now d i pk)))"
    using d(1)
  proof (cases rule: sq_DeleteEvent_cases [where d = d and now = now and i = i and pk = pk])
    case unchanged
    then show ?thesis using d(2) by simp
  next
    case (marked e)
    show ?thesis unfolding marked(4) by (rule effect_rows [OF d(2)]) simp
  qed
  then show ?case using sq_Delete_facts(1) [OF d(1)] by (simp add: S sql_inv_def)
next
  case (4 S CS d pk)
  then obtain now ties where S: "S = sqlite_if E now ties" by (auto elim: sqlite_backendsE)
  have d: "db_inv (tables d)" "good_rows (upto_tags good) (tables d)" using 4(2) by (simp_all add: sql_inv_def)
  have "good_rows (upto_tags good) (tables (fst (sq_DeleteAllEventsByPubKey E now d pk)))"
    using d(2) by (auto simp: sq_DeleteAllEventsByPubKey_def mark_all_rows split: sum.split)
  then show ?case using sq_DeleteAll_facts(1) [OF d(1)] by (simp add: S sql_inv_def)
next
  case (5 S CS d t ks)
  then obtain now ties where S: "S = sqlite_if E now ties" by (auto elim: sqlite_backendsE)
  have d: "db_inv (tables d)" "good_rows (upto_tags good) (tables d)" using 5(2) by (simp_all add: sql_inv_def)
  have "good_rows (upto_tags good) (tables (fst (sq_DeleteEventsOlderThan E d t ks)))"
    unfolding sq_DeleteEventsOlderThan_def by (rule one_exec_rows [OF d(2)]) simp
  then show ?case using sq_Older_facts(1) [OF d(1)] by (simp add: S sql_inv_def)
next
  case (6 S CS d c)
  then obtain now ties where S: "S = sqlite_if E now ties" by (auto elim: sqlite_backendsE)
  have d: "db_inv (tables d)" "good_rows (upto_tags good) (tables d)" using 6(2) by (simp_all add: sql_inv_def)
  have "good_rows (upto_tags good) (tables (fst (sq_DeleteChannelEvents E d c)))"
    unfolding sq_DeleteChannelEvents_def by (rule one_exec_rows [OF d(2)]) simp
  then show ?case using sq_Channel_facts(1) [OF d(1)] by (simp add: S sql_inv_def)
next
  case (7 S cs d e)
  then have S: "cs = sqlite_channels E" by (auto elim: sqlite_backendsE)
  have d: "db_inv (tables d)" "good_rows (upto_tags good) (tables d)" using 7(2) by (simp_all add: sql_inv_def)
  have "good_rows (upto_tags good) (tables (fst (sq_SaveChannelEvent E d e)))"
    unfolding sq_SaveChannelEvent_def by (intro one_exec_rows [OF d(2)] good_put_channel 7(3))
  moreover have "db_inv (tables (fst (sq_SaveChannelEvent E d e)))"
    unfolding sq_SaveChannelEvent_def by (rule one_exec_inv [OF d(1)]) simp
  ultimately show ?case by (simp add: S sql_inv_def)
next
  case (8 S CS d fs es e)
  then obtain now ties where S: "S = sqlite_if E now ties" by (auto elim: sqlite_backendsE)
  then show ?case using query_good [OF 8(2) _ 8(4)] 8(3) by simp
next
  case (9 S cs d c since until mx es e)
  then have S: "cs = sqlite_channels E" by (auto elim: sqlite_backendsE)
  then show ?case using channel_query_good [OF 9(2) _ 9(4)] 9(3) by simp
qed

end

section \<open>What clients are sent\<close>

text \<open>C2: Over the SQLite store, started with a database of events that passed validation, every event the
  relay ever sends to a client, stored or live, has passed validation up to its tags, however the engine
  fails.\<close>

theorem sqlite_sent_events:
  fixes D :: "('pk, 'sg) codec"
  assumes "sql_engine E tables saved" "db_inv (tables d)"
    and "good_rows (upto_tags (\<lambda>e. Validate (cd_crypto D) e = None)) (tables d)"
    and "reachable D rnd (sqlite_backends E) d (Some r)" "MEvent sub e \<in> set (sent (conns r cid))"
  shows "\<exists>ts. Validate (cd_crypto D) (e\<lparr>Tags := ts\<rparr>) = None"
proof -
  let ?good = "\<lambda>e. Validate (cd_crypto D) e = None"
  have b: "backend (sqlite_backends E) ?good (upto_tags ?good) (sql_engine.sql_inv tables (upto_tags ?good))"
    by (rule sql_engine.sqlite_backend [OF assms(1)])
  have "system (sqlite_backends E) ?good (upto_tags ?good) (sql_engine.sql_inv tables (upto_tags ?good)) D (only_shown (upto_tags ?good))"
    by (rule backend.only_shown_system [OF b]) simp
  from system.reachable_P [OF this assms(4), of cid] have "only_shown (upto_tags ?good) (conns r cid)"
    using assms(2,3) sql_engine.sql_inv_def [OF assms(1)] by simp
  then show ?thesis using assms(5) unfolding only_shown_def upto_tags_def by blast
qed

lemma sample_row_query:
  "sq_QueryEvents table_engine length (one_event valid_sample) [zero_filter] = Ok [read_back valid_sample]"
  by code_simp

lemma sqlite_sample_req:
  "req_events sample_env (sqlite_if table_engine 0 length) (Some (sqlite_channels table_engine)) (one_event valid_sample) [zero_filter] =
    Ok [read_back valid_sample]"
proof -
  have "getChannelIDFromFilters [zero_filter] = None" "hasSearchField [zero_filter] = False"
    by (simp_all add: zero_filter_def hasSearchField_def)
  then show ?thesis by (simp add: req_events_def sample_row_query)
qed

lemma sqlite_backend_in: "(sqlite_if E now ties, Some (sqlite_channels E)) \<in> sqlite_backends E"
  by (auto simp: sqlite_backends_def)

lemma sqlite_sent_events_witness:
  "let m = client_message sample_env (sqlite_if table_engine 0 length) (Some (sqlite_channels table_engine)) 0 (Inr (sample_req []))
     (open_relay (one_event valid_sample))
   in MEvent ''s'' (read_back valid_sample) \<in> set (sent (conns (fst m) 0)) \<and>
     (\<exists>ts. Validate sample_crypto (read_back valid_sample\<lparr>Tags := ts\<rparr>) = None)"
proof -
  let ?s = "one_event valid_sample"
  let ?m = "client_message sample_env (sqlite_if table_engine 0 length) (Some (sqlite_channels table_engine)) 0 (Inr (sample_req []))
     (open_relay ?s)"
  have c: "\<not> ShouldFilterEvent (en_clock sample_env) (read_back valid_sample)" by code_simp
  have u: "UnmarshalJSON (en_unicode sample_env) (JObject []) = Some zero_filter"
    by (simp add: UnmarshalJSON_def zero_filter_def)
  have m: "snd ?m = Ok () \<and> MEvent ''s'' (read_back valid_sample) \<in> set (sent (conns (fst ?m) 0))"
    unfolding sample_req_def client_message_req [OF open_relay_through u open_relay_room]
    using sqlite_sample_req c
    by (simp add: HandleReq_def Let_def open_relay_sel SendEOSE_def SendEvent_def sent_open NewClient_def
      split: prod.split outcome.split)
  then have "?m = (fst ?m, Ok ())" by (simp add: prod_eq_iff)
  moreover have "0 \<in> fst ` set (clients (open_relay ?s))" "\<not> client.closed (conns (open_relay ?s) 0)"
    by (simp_all add: open_relay_sel NewClient_def)
  ultimately have "sys_step (en_codec sample_env) (\<lambda>x. x) (sqlite_backends table_engine) (open_relay ?s) (Some (fst ?m))"
    by (intro message [OF sqlite_backend_in refl]) (simp_all add: sample_env_def)
  then have r: "reachable (en_codec sample_env) (\<lambda>x. x) (sqlite_backends table_engine) ?s (Some (fst ?m))"
    by (rule reachable.step [OF open_relay_reachable])
  have "good_rows (upto_tags (\<lambda>e. Validate (cd_crypto (en_codec sample_env)) e = None)) (fst ?s)"
    using sample_validates by (simp add: good_rows_def one_event_def row_event_row read_back_def upto_tags_good sample_env_def)
  from sqlite_sent_events [OF table_engine_sql one_event_inv this r conjunct2 [OF m]] m show ?thesis
    by (simp add: Let_def sample_env_def)
qed

section \<open>A negative limit\<close>

context working_engine begin

lemma working_queryFilter:
  assumes "db_inv (tables d)"
  obtains es where "queryFilter E d f = Inr es"
proof -
  let ?q = "Select event_columns ''events'' (where_clause f) True (Limit f)"
  obtain out where o: "run_select E d ?q = Inr (out, None)" using select_ok by blast
  then have "answers (tables d) ?q out" using select_sound [OF o] by simp
  then obtain rs where rs: "mset rs = mset (filter (\<lambda>r. holds_conds r (where_clause f)) (tables d ''events''))"
    "out = map (project event_columns) (limited (Limit f) rs)" by auto
  have "set (limited (Limit f) rs) \<subseteq> set (tables d ''events'')"
    using mset_eq_setD [OF rs(1)] by (auto simp: limited_def dest: in_set_takeD split: option.splits)
  then have "scan_event (project event_columns r) = Inr (row_event r)" if "r \<in> set (limited (Limit f) rs)" for r
    using that db_inv_event(1) [OF assms] by (intro scan_event_row) blast
  then have "scan_rows scan_event out = Inr (map row_event (limited (Limit f) rs))"
    unfolding rs(2) by (rule scan_rows_map)
  then show thesis using that o by (simp add: queryFilter_def fetch_def)
qed

end

text \<open>C31: A REQ whose filter has a negative limit, from any client that may subscribe, stops the whole relay over
  the SQLite store as well: SQLite reads the limit as none, and \<^verbatim>\<open>results[:limit]\<close> panics.\<close>

theorem sqlite_negative_limit_crashes:
  assumes "working_engine E tables saved" "db_inv (tables (store r))"
    and "let_through W cid r = Some l" "cid \<in> fst ` set (clients r)" "\<not> client.closed (conns r cid)"
    and "UnmarshalJSON (en_unicode W) j = Some f" "Limit f = Some n" "n < 0" "Search f = []"
    and "mget (FTags f) ''channel_id'' = None" "mlen (subscriptions (conns r cid)) < 20"
  shows "sys_step (en_codec W) (en_rnd W) (sqlite_backends E) r None"
proof -
  let ?S = "sqlite_if E 0 length" and ?CS = "Some (sqlite_channels E)"
  have room: "\<not> (mget (subscriptions (conns r cid)) ''s'' = None \<and>
      mlen (subscriptions (conns r cid)) \<ge> MaxSubscriptionsPerClient)"
    using assms(11) by (simp add: MaxSubscriptionsPerClient_def)
  obtain es where "queryFilter E (store r) f = Inr es" by (rule working_engine.working_queryFilter [OF assms(1,2)])
  then have "sq_QueryEvents E length (store r) [f] = Panic"
    using assms(7,8) by (simp add: sq_QueryEvents_def apply_limit_def split: prod.split)
  then have q: "req_events W ?S ?CS (store r) [f] = Panic"
    using assms(9,10) by (simp add: req_events_def hasSearchField_def)
  let ?w = "on_conn cid (\<lambda>c. c\<lparr>subscriptions := mput ''s'' [f] (subscriptions c)\<rparr>) (r\<lparr>limits := l\<rparr>)"
  have "snd (HandleReq W ?S ?CS cid ''s'' [f] ?w) = Panic" using q by (simp add: HandleReq_def Let_def)
  then have w: "HandleReq W ?S ?CS cid ''s'' [f] ?w = (fst (HandleReq W ?S ?CS cid ''s'' [f] ?w), Panic)"
    by (simp add: prod_eq_iff)
  have "client_message W ?S ?CS cid (Inr (JArray [JString ''REQ'', JString ''s'', j])) r =
      (fst (HandleReq W ?S ?CS cid ''s'' [f] ?w), Panic)"
    by (subst client_message_req [OF assms(3,6) room], subst w) (simp only: prod.case outcome.case)
  then show ?thesis by (intro crash [OF sqlite_backend_in refl refl assms(4,5)])
qed

lemma sqlite_negative_limit_crashes_witness:
  "sys_step (en_codec sample_env) (en_rnd sample_env) (sqlite_backends table_engine) (open_relay (one_event valid_sample)) None"
  by (rule sqlite_negative_limit_crashes [OF table_engine_working _ open_relay_through _ _ negative_limit_decodes, where n = "-1"])
    (simp_all add: open_relay_sel NewClient_def zero_filter_def mlen_def one_event_inv)

section \<open>The two stores\<close>


definition no_events :: "database \<times> database" where
  "no_events = ((\<lambda>t. []), (\<lambda>t. []))"

lemma no_events_facts:
  "db_inv (fst no_events)" "sq_stored (fst no_events) = (\<lambda>i. None)" "sq_tomb (fst no_events) = (\<lambda>i. False)"
  by (simp_all add: no_events_def db_inv_def data_tables_def typed_table_def sq_stored_def sq_tomb_def fun_eq_iff)


section \<open>Queries return\<close>

context working_engine begin

lemma working_query_loop:
  assumes "db_inv (tables d)"
  obtains es where "sq_query_loop E d fs results seen = Inr es"
  using assms
proof (induction fs arbitrary: results seen thesis)
  case (Cons f fs)
  obtain es where es: "queryFilter E d f = Inr es" by (rule working_queryFilter [OF Cons.prems(2)])
  obtain rs sn where "add_unseen es results seen = (rs, sn)" by force
  with es have q: "sq_query_loop E d (f # fs) results seen = sq_query_loop E d fs rs sn" by simp
  show ?case by (rule Cons.IH [OF _ Cons.prems(2), of rs sn]) (rule Cons.prems(1), simp only: q)
qed simp

end

text \<open>C30: Over an engine that does not fail, a query none of whose filters has a negative limit returns: it
  reports no error and does not panic.\<close>

theorem sq_QueryEvents_returns:
  assumes "working_engine E tables saved" "db_inv (tables d)"
    and "list_all (\<lambda>f. case Limit f of None \<Rightarrow> True | Some n \<Rightarrow> 0 \<le> n) fs"
  shows "\<exists>es. sq_QueryEvents E ties d fs = Ok es"
proof -
  obtain es where "sq_query_loop E d fs [] [] = Inr es"
    by (rule working_engine.working_query_loop [OF assms(1,2)])
  then show ?thesis using assms(3)
    by (cases fs) (auto simp: sq_QueryEvents_def apply_limit_def split: option.splits)
qed

lemma sq_QueryEvents_returns_witness:
  "\<exists>es. sq_QueryEvents table_engine length (one_event (a_note ''n1'' 5)) [zero_filter, zero_filter\<lparr>Limit := Some 0\<rparr>] = Ok es"
  by (rule sq_QueryEvents_returns [OF table_engine_working one_event_inv]) (simp add: zero_filter_def)

end
