(* ===== verification/Config.thy ===== *)
theory Config
  imports GoStrings
begin

text \<open>
  Configuration, \<^verbatim>\<open>pkg/config/config.go\<close>: defaults, then the YAML file, then environment
  variables, then command-line flags, then validation. Reading the file and \<^verbatim>\<open>yaml.Unmarshal\<close> are
  an argument, the environment a function; \<^verbatim>\<open>flag.Parse\<close> is written out for the four string flags
  (its error is ignored by the code: what was parsed before it stays). Defining a flag twice
  panics, so a loader can load once.

  Proved: precedence of the sources, and what a loaded configuration satisfies.
\<close>

record NetworkConfig =
  Address :: string
  TLSCert :: string
  TLSKey :: string
  ReadTimeout :: int
  WriteTimeout :: int

record DatabaseConfig =
  Path :: string
  MaxOpenConns :: int
  MaxIdleConns :: int
  ConnMaxLifetime :: int

record RateLimitConfig =
  Enabled :: bool
  EventsPerSec :: int
  ReqPerSec :: int
  MaxConnections :: int
  MaxEventSize :: int

record LoggingConfig =
  Level :: string
  Format :: string

record FeaturesConfig =
  NIP11 :: bool
  NIP42 :: bool
  NIP28 :: bool

record Config =
  Network :: NetworkConfig
  Database :: DatabaseConfig
  RateLimit :: RateLimitConfig
  Logging :: LoggingConfig
  Features :: FeaturesConfig

definition DefaultConfig :: Config where
  "DefaultConfig = \<lparr>
     Network = \<lparr>Address = '':8080'', TLSCert = [], TLSKey = [], ReadTimeout = 30, WriteTimeout = 30\<rparr>,
     Database = \<lparr>Path = ''relay.db'', MaxOpenConns = 25, MaxIdleConns = 5, ConnMaxLifetime = 300\<rparr>,
     RateLimit = \<lparr>Enabled = True, EventsPerSec = 10, ReqPerSec = 10, MaxConnections = 100, MaxEventSize = 65536\<rparr>,
     Logging = \<lparr>Level = ''info'', Format = ''text''\<rparr>,
     Features = \<lparr>NIP11 = True, NIP42 = True, NIP28 = False\<rparr>\<rparr>"

definition config_Validate :: "Config \<Rightarrow> error option" where
  "config_Validate c =
    (if Address (Network c) = [] then Errorf ''network address cannot be empty''
     else if Path (Database c) = [] then Errorf ''database path cannot be empty''
     else if TLSCert (Network c) \<noteq> [] \<and> TLSKey (Network c) = [] then
       Errorf ''TLS key is required when TLS cert is provided''
     else if TLSKey (Network c) \<noteq> [] \<and> TLSCert (Network c) = [] then
       Errorf ''TLS cert is required when TLS key is provided''
     else None)"

text \<open>Nanoseconds.\<close>

definition ConnMaxLifetimeDuration :: "DatabaseConfig \<Rightarrow> int" where
  "ConnMaxLifetimeDuration d = wrap64 (ConnMaxLifetime d * 1000000000)"

definition set_address :: "string \<Rightarrow> Config \<Rightarrow> Config" where
  "set_address v c = c\<lparr>Network := (Network c)\<lparr>Address := v\<rparr>\<rparr>"

definition set_cert :: "string \<Rightarrow> Config \<Rightarrow> Config" where
  "set_cert v c = c\<lparr>Network := (Network c)\<lparr>TLSCert := v\<rparr>\<rparr>"

definition set_key :: "string \<Rightarrow> Config \<Rightarrow> Config" where
  "set_key v c = c\<lparr>Network := (Network c)\<lparr>TLSKey := v\<rparr>\<rparr>"

definition set_db :: "string \<Rightarrow> Config \<Rightarrow> Config" where
  "set_db v c = c\<lparr>Database := (Database c)\<lparr>Path := v\<rparr>\<rparr>"

lemmas setter_defs = set_address_def set_cert_def set_key_def set_db_def

definition flag_true :: "string \<Rightarrow> bool" where
  "flag_true v = (v = ''true'' \<or> v = ''1'')"

definition applyIfSet :: "(string \<Rightarrow> string) \<Rightarrow> string \<Rightarrow> (string \<Rightarrow> Config \<Rightarrow> Config) \<Rightarrow> Config \<Rightarrow> Config" where
  "applyIfSet env var setter c = (if env var \<noteq> [] then setter (env var) c else c)"

definition applyEnvironmentVariables :: "(string \<Rightarrow> string) \<Rightarrow> Config \<Rightarrow> Config" where
  "applyEnvironmentVariables env c =
    (let c = applyIfSet env ''GLIENICKE_ADDRESS'' set_address c;
         c = applyIfSet env ''GLIENICKE_TLS_CERT'' set_cert c;
         c = applyIfSet env ''GLIENICKE_TLS_KEY'' set_key c;
         c = applyIfSet env ''GLIENICKE_DB_PATH'' set_db c;
         c = applyIfSet env ''GLIENICKE_LOG_LEVEL'' (\<lambda>v c. c\<lparr>Logging := (Logging c)\<lparr>Level := v\<rparr>\<rparr>) c;
         c = applyIfSet env ''GLIENICKE_LOG_FORMAT'' (\<lambda>v c. c\<lparr>Logging := (Logging c)\<lparr>Format := v\<rparr>\<rparr>) c;
         c = applyIfSet env ''GLIENICKE_RATE_LIMIT_ENABLED''
               (\<lambda>v c. c\<lparr>RateLimit := (RateLimit c)\<lparr>Enabled := flag_true v\<rparr>\<rparr>) c;
         c = applyIfSet env ''GLIENICKE_FEATURE_NIP11'' (\<lambda>v c. c\<lparr>Features := (Features c)\<lparr>NIP11 := flag_true v\<rparr>\<rparr>) c;
         c = applyIfSet env ''GLIENICKE_FEATURE_NIP42'' (\<lambda>v c. c\<lparr>Features := (Features c)\<lparr>NIP42 := flag_true v\<rparr>\<rparr>) c;
         c = applyIfSet env ''GLIENICKE_FEATURE_NIP28'' (\<lambda>v c. c\<lparr>Features := (Features c)\<lparr>NIP28 := flag_true v\<rparr>\<rparr>) c
     in c)"

section \<open>Flags\<close>

definition set_flag :: "string \<Rightarrow> (string \<Rightarrow> Config \<Rightarrow> Config) option" where
  "set_flag name =
    (if name = ''addr'' then Some set_address else if name = ''db'' then Some set_db
     else if name = ''cert'' then Some set_cert else if name = ''key'' then Some set_key else None)"

text \<open>The text after the dashes: name, and value after an equals sign that is not the first character.\<close>

definition flag_parts :: "string \<Rightarrow> string \<times> string option" where
  "flag_parts name = (let n = takeWhile (\<lambda>c. c \<noteq> CHR ''='') (tl name) in
     if length n < length (tl name) then (hd name # n, Some (drop (length n + 1) (tl name)))
     else (name, None))"

fun parse_flags :: "string list \<Rightarrow> Config \<Rightarrow> Config" where
  "parse_flags [] c = c"
| "parse_flags (s # args) c =
     (if length s < 2 \<or> s ! 0 \<noteq> CHR ''-'' then c
      else if s ! 1 = CHR ''-'' \<and> length s = 2 then c
      else
        let text = (if s ! 1 = CHR ''-'' then drop 2 s else drop 1 s) in
        if text = [] \<or> hd text = CHR ''-'' \<or> hd text = CHR ''='' then c
        else let (name, val) = flag_parts text in
          (case set_flag name of
             None \<Rightarrow> c
           | Some setter \<Rightarrow>
               (case val of
                  Some v \<Rightarrow> parse_flags args (setter v c)
                | None \<Rightarrow> (case args of [] \<Rightarrow> c | v # args' \<Rightarrow> parse_flags args' (setter v c)))))"

text \<open>\<open>defined\<close>: the loader's flag set already has the four flags; defining them again panics.\<close>

definition applyFlags :: "bool \<Rightarrow> string list \<Rightarrow> Config \<Rightarrow> Config outcome" where
  "applyFlags defined args c = (if defined then Panic else Ok (parse_flags args c))"

section \<open>Loading\<close>

record Loader =
  configFile :: string
  flags_defined :: bool

definition NewLoader :: "string \<Rightarrow> Loader" where
  "NewLoader f = \<lparr>configFile = f, flags_defined = False\<rparr>"

datatype file_read = NotExist | ReadError error | Data string

definition loadFromFile :: "(string \<Rightarrow> file_read) \<Rightarrow> (Config \<Rightarrow> string \<Rightarrow> error + Config) \<Rightarrow> Config \<Rightarrow> string \<Rightarrow> error + Config" where
  "loadFromFile readf yaml c f = (case readf f of
      NotExist \<Rightarrow> Inr c
    | ReadError err \<Rightarrow> Inl err
    | Data d \<Rightarrow> (case yaml c d of
        Inl err \<Rightarrow> Inl (wrap_err ''failed to parse config file: '' err)
      | Inr c' \<Rightarrow> Inr c'))"

definition LoadWithArgs ::
  "(string \<Rightarrow> file_read) \<Rightarrow> (Config \<Rightarrow> string \<Rightarrow> error + Config) \<Rightarrow> (string \<Rightarrow> string) \<Rightarrow>
    Loader \<Rightarrow> string list \<Rightarrow> Loader \<times> Config outcome" where
  "LoadWithArgs readf yaml env l args =
    (case (if configFile l \<noteq> [] then loadFromFile readf yaml DefaultConfig (configFile l) else Inr DefaultConfig) of
       Inl err \<Rightarrow> (l, Err (wrap_err (''failed to load config from file '' @ configFile l @ '': '') err))
     | Inr c \<Rightarrow>
         let c = applyEnvironmentVariables env c in
         (case applyFlags (flags_defined l) args c of
            Ok c \<Rightarrow> (l\<lparr>flags_defined := True\<rparr>,
              (case config_Validate c of
                 Some err \<Rightarrow> Err (wrap_err ''invalid configuration: '' err)
               | None \<Rightarrow> Ok c))
          | Err err \<Rightarrow> (l, Err err)
          | Panic \<Rightarrow> (l, Panic)))"

text \<open>\<open>os_args\<close>: the arguments of the process, the first its name.\<close>

definition Load ::
  "(string \<Rightarrow> file_read) \<Rightarrow> (Config \<Rightarrow> string \<Rightarrow> error + Config) \<Rightarrow> (string \<Rightarrow> string) \<Rightarrow>
    string list \<Rightarrow> Loader \<Rightarrow> Loader \<times> Config outcome" where
  "Load readf yaml env os_args l = LoadWithArgs readf yaml env l (tl os_args)"

text \<open>\<open>marshal\<close> is the YAML encoder and \<open>write\<close> what comes of writing the file; what is written is the
  second result.\<close>

definition SaveExampleConfig ::
  "(Config \<Rightarrow> error + string) \<Rightarrow> (string \<Rightarrow> string \<Rightarrow> error option) \<Rightarrow> string \<Rightarrow> error option \<times> string option" where
  "SaveExampleConfig marshal write f =
    (case marshal DefaultConfig of
       Inl err \<Rightarrow> (Some (wrap_err ''failed to marshal default config: '' err), None)
     | Inr data \<Rightarrow>
         let example = ''# Glienicke Nostr Relay Configuration'' @ [CHR 0x0A] @
               ''# Copy this to relay.yaml and modify as needed'' @ [CHR 0x0A, CHR 0x0A] @ data
         in (write f example, Some example))"

lemma applyIfSet_address:
  "(\<And>v c. Address (Network (f v c)) = Address (Network c)) \<Longrightarrow>
    Address (Network (applyIfSet env x f c)) = Address (Network c)"
  by (simp add: applyIfSet_def)

lemma applyIfSet_path:
  "(\<And>v c. Path (Database (f v c)) = Path (Database c)) \<Longrightarrow>
    Path (Database (applyIfSet env x f c)) = Path (Database c)"
  by (simp add: applyIfSet_def)

lemma applyEnv_address:
  "Address (Network (applyEnvironmentVariables env c)) =
    (if env ''GLIENICKE_ADDRESS'' \<noteq> [] then env ''GLIENICKE_ADDRESS'' else Address (Network c))"
  by (simp add: applyEnvironmentVariables_def Let_def applyIfSet_address set_cert_def set_key_def set_db_def)
    (simp add: applyIfSet_def set_address_def)

lemma applyEnv_path:
  "Path (Database (applyEnvironmentVariables env c)) =
    (if env ''GLIENICKE_DB_PATH'' \<noteq> [] then env ''GLIENICKE_DB_PATH'' else Path (Database c))"
  by (simp add: applyEnvironmentVariables_def Let_def applyIfSet_path)
    (simp add: applyIfSet_def setter_defs)

lemma applyEnv_unset: "applyEnvironmentVariables (\<lambda>_. []) c = c"
  by (simp add: applyEnvironmentVariables_def applyIfSet_def)

text \<open>A configuration that loads listens somewhere, has a database, and has a TLS certificate exactly when
  it has a TLS key, whatever the file, the environment and the flags say.\<close>

theorem loaded_config_valid:
  assumes "snd (LoadWithArgs readf yaml env l args) = Ok c"
  shows "Address (Network c) \<noteq> [] \<and> Path (Database c) \<noteq> [] \<and>
    (TLSCert (Network c) = [] \<longleftrightarrow> TLSKey (Network c) = [])"
proof -
  have "config_Validate c = None"
    using assms
    by (auto simp: LoadWithArgs_def Let_def split: sum.splits outcome.splits option.splits if_splits)
  then show ?thesis
    by (auto simp: config_Validate_def split: if_splits)
qed

lemma loaded_config_valid_witness:
  "\<exists>c. snd (LoadWithArgs (\<lambda>_. NotExist) (\<lambda>c _. Inr c) (\<lambda>_. []) (NewLoader ''f'') [''-addr'', ''x'']) = Ok c
    \<and> Address (Network c) \<noteq> []"
proof -
  have "flag_parts ''addr'' = (''addr'', None)" by code_simp
  then have "\<exists>c. snd (LoadWithArgs (\<lambda>_. NotExist) (\<lambda>c _. Inr c) (\<lambda>_. []) (NewLoader ''f'') [''-addr'', ''x'']) = Ok c"
    by (simp add: LoadWithArgs_def NewLoader_def loadFromFile_def applyFlags_def set_flag_def setter_defs
      applyEnv_unset config_Validate_def DefaultConfig_def)
  then show ?thesis using loaded_config_valid by blast
qed

text \<open>Precedence of the listen address: an \<open>-addr\<close> flag given first wins over the environment variable,
  which wins over the file, which wins over the default.\<close>

theorem address_precedence:
  assumes "snd (LoadWithArgs readf yaml env l args) = Ok c"
  shows "(\<forall>v. args = [''-addr'', v] \<longrightarrow> Address (Network c) = v) \<and>
    (args = [] \<longrightarrow> Address (Network c) =
      (if env ''GLIENICKE_ADDRESS'' \<noteq> [] then env ''GLIENICKE_ADDRESS''
       else if configFile l = [] then '':8080''
       else (case readf (configFile l) of
           Data d \<Rightarrow> (case yaml DefaultConfig d of Inr c' \<Rightarrow> Address (Network c') | Inl _ \<Rightarrow> [])
         | _ \<Rightarrow> '':8080'')))"
proof -
  obtain b where b: "(if configFile l \<noteq> [] then loadFromFile readf yaml DefaultConfig (configFile l) else Inr DefaultConfig) = Inr b"
    and c: "c = parse_flags args (applyEnvironmentVariables env b)"
    using assms by (auto simp: LoadWithArgs_def applyFlags_def Let_def split: sum.splits outcome.splits option.splits if_splits)
  have d: "Address (Network DefaultConfig) = '':8080''"
    by (simp add: DefaultConfig_def)
  have "Address (Network b) = (if configFile l = [] then '':8080''
       else (case readf (configFile l) of
           Data d \<Rightarrow> (case yaml DefaultConfig d of Inr c' \<Rightarrow> Address (Network c') | Inl _ \<Rightarrow> [])
         | _ \<Rightarrow> '':8080''))"
    using b d by (auto simp: loadFromFile_def split: file_read.splits sum.splits if_splits)
  moreover have "flag_parts ''addr'' = (''addr'', None)" by code_simp
  then have "Address (Network (parse_flags [''-addr'', v] b')) = v" for v b'
    by (simp add: set_flag_def setter_defs)
  ultimately show ?thesis
    unfolding c by (auto simp: applyEnv_address)
qed

lemma address_precedence_witness:
  "\<exists>c. snd (LoadWithArgs (\<lambda>_. NotExist) (\<lambda>c _. Inr c) (\<lambda>_. []) (NewLoader '''') []) = Ok c
    \<and> Address (Network c) = '':8080''"
proof -
  have "\<exists>c. snd (LoadWithArgs (\<lambda>_. NotExist) (\<lambda>c _. Inr c) (\<lambda>_. []) (NewLoader '''') []) = Ok c"
    by (simp add: LoadWithArgs_def NewLoader_def applyFlags_def
      applyEnv_unset config_Validate_def DefaultConfig_def)
  then obtain c where c: "snd (LoadWithArgs (\<lambda>_. NotExist) (\<lambda>c _. Inr c) (\<lambda>_. []) (NewLoader '''') []) = Ok c" ..
  from address_precedence [OF this] show ?thesis
    using c by (simp add: NewLoader_def)
qed

text \<open>Loading a second time with one loader panics: its flags are already defined.\<close>

lemma second_load_panics:
  assumes "snd (LoadWithArgs readf yaml env l args) = Ok c"
    and "configFile l = []"
  shows "snd (LoadWithArgs readf yaml env (fst (LoadWithArgs readf yaml env l args)) args') = Panic"
  using assms by (auto simp: LoadWithArgs_def applyFlags_def Let_def split: option.splits outcome.splits if_splits)

end
