(* ===== verification/Startup.thy ===== *)
theory Startup
  imports SqliteSystem Config
begin

text \<open>
  The relay command, \<^verbatim>\<open>cmd/relay/main.go\<close>: its flags, the path of the database, and the relay it serves
  over the SQLite store; and the two background loops, the retention loop of \<^verbatim>\<open>pkg/relay/relay.go\<close> and
  the vocabulary watcher of \<^verbatim>\<open>pkg/nips/nip36/nip36.go\<close>, as the sequence of their wake-ups.

  Proved: the expanded path is absolute and expanding it again changes nothing; what the command serves
  is a reachable state of the system over the database it opened.
\<close>

section \<open>Paths\<close>

text \<open>\<^verbatim>\<open>filepath.Clean\<close>: the components with empty ones, dots and inner double dots resolved. The stack holds
  the components so far, the last first.\<close>

fun clean_parts :: "bool \<Rightarrow> string list \<Rightarrow> string list \<Rightarrow> string list" where
  "clean_parts rooted [] st = rev st"
| "clean_parts rooted (p # ps) st =
     (if p = [] \<or> p = ''.'' then clean_parts rooted ps st
      else if p = ''..'' then
        (case st of
           [] \<Rightarrow> clean_parts rooted ps (if rooted then [] else [''..''])
         | q # st' \<Rightarrow> clean_parts rooted ps (if q = ''..'' then ''..'' # st else st'))
      else clean_parts rooted ps (p # st))"

definition rooted :: "string \<Rightarrow> bool" where
  "rooted s = HasPrefix s ''/''"

definition Clean :: "string \<Rightarrow> string" where
  "Clean s =
    (if s = [] then ''.''
     else let out = clean_parts (rooted s) (Split s (CHR ''/'')) [] in
       if rooted s then CHR ''/'' # Join out ''/'' else if out = [] then ''.'' else Join out ''/'')"

definition Join_path :: "string \<Rightarrow> string \<Rightarrow> string" where
  "Join_path a b =
    (if a = [] then (if b = [] then [] else Clean b) else Clean (a @ ''/'' @ b))"

text \<open>\<^verbatim>\<open>filepath.Abs\<close>, with the answer of \<^verbatim>\<open>os.Getwd\<close>.\<close>

definition Abs_path :: "error + string \<Rightarrow> string \<Rightarrow> error + string" where
  "Abs_path cwd p =
    (if rooted p then Inr (Clean p)
     else (case cwd of Inl err \<Rightarrow> Inl err | Inr wd \<Rightarrow> Inr (Join_path wd p)))"

definition expandPath :: "error + string \<Rightarrow> error + string \<Rightarrow> string \<Rightarrow> string" where
  "expandPath home cwd path0 =
    (let path = (if path0 \<noteq> [] \<and> hd path0 = CHR ''~''
           then (case home of Inr h \<Rightarrow> Join_path h (tl path0) | Inl _ \<Rightarrow> path0) else path0)
     in case Abs_path cwd path of Inr full \<Rightarrow> full | Inl _ \<Rightarrow> path)"

section \<open>Flags\<close>

record main_flags =
  fl_addr :: string
  fl_db :: string
  fl_cert :: string
  fl_key :: string
  fl_nip36 :: string
  fl_version :: bool

definition default_flags :: main_flags where
  "default_flags = \<lparr>fl_addr = '':8080'', fl_db = ''relay.db'', fl_cert = [], fl_key = [], fl_nip36 = [], fl_version = False\<rparr>"

definition set_main_flag :: "string \<Rightarrow> (string \<Rightarrow> main_flags \<Rightarrow> main_flags) option" where
  "set_main_flag name =
    (if name = ''addr'' then Some (\<lambda>v f. f\<lparr>fl_addr := v\<rparr>)
     else if name = ''db'' then Some (\<lambda>v f. f\<lparr>fl_db := v\<rparr>)
     else if name = ''cert'' then Some (\<lambda>v f. f\<lparr>fl_cert := v\<rparr>)
     else if name = ''key'' then Some (\<lambda>v f. f\<lparr>fl_key := v\<rparr>)
     else if name = ''nip36-vocab'' then Some (\<lambda>v f. f\<lparr>fl_nip36 := v\<rparr>) else None)"

definition ParseBool :: "string \<Rightarrow> bool option" where
  "ParseBool s =
    (if s \<in> {''1'', ''t'', ''T'', ''TRUE'', ''true'', ''True''} then Some True
     else if s \<in> {''0'', ''f'', ''F'', ''FALSE'', ''false'', ''False''} then Some False else None)"

text \<open>\<^verbatim>\<open>flag.Parse\<close>: the flags, or the exit code of the process (0 for help, 2 for an error).\<close>

datatype parsed = Parsed main_flags | Usage nat

fun parse_main :: "string list \<Rightarrow> main_flags \<Rightarrow> parsed" where
  "parse_main [] f = Parsed f"
| "parse_main (s # args) f =
     (if length s < 2 \<or> s ! 0 \<noteq> CHR ''-'' then Parsed f
      else if s ! 1 = CHR ''-'' \<and> length s = 2 then Parsed f
      else
        let text = (if s ! 1 = CHR ''-'' then drop 2 s else drop 1 s) in
        if text = [] \<or> hd text = CHR ''-'' \<or> hd text = CHR ''='' then Usage 2
        else let (name, val) = flag_parts text in
          if name = ''version'' then
            (case val of
               None \<Rightarrow> parse_main args (f\<lparr>fl_version := True\<rparr>)
             | Some v \<Rightarrow> (case ParseBool v of None \<Rightarrow> Usage 2 | Some b \<Rightarrow> parse_main args (f\<lparr>fl_version := b\<rparr>)))
          else (case set_main_flag name of
             None \<Rightarrow> Usage (if name = ''help'' \<or> name = ''h'' then 0 else 2)
           | Some setter \<Rightarrow>
               (case val of
                  Some v \<Rightarrow> parse_main args (setter v f)
                | None \<Rightarrow> (case args of [] \<Rightarrow> Usage 2 | v # args' \<Rightarrow> parse_main args' (setter v f)))))"

section \<open>The command\<close>

datatype listener = HTTP string | TLS string string string

datatype 'r run = Exited nat | PrintedVersion string | Fatal string | Serving 'r listener

text \<open>What the operating system answers: the home and working directories, the environment, and the
  vocabulary file.\<close>

record system_answers =
  os_home :: "error + string"
  os_cwd :: "error + string"
  os_env :: "string \<Rightarrow> string"
  os_vocab :: "disk_file option"

definition main_listener :: "main_flags \<Rightarrow> listener" where
  "main_listener f = (if fl_cert f \<noteq> [] \<and> fl_key f \<noteq> [] then TLS (fl_addr f) (fl_cert f) (fl_key f) else HTTP (fl_addr f))"

definition relay_main ::
  "unicode \<Rightarrow> 'd engine \<Rightarrow> system_answers \<Rightarrow> int \<Rightarrow> int \<Rightarrow> string list \<Rightarrow> 'd relay run" where
  "relay_main U E os now instant args =
    (case parse_main args default_flags of
       Usage code \<Rightarrow> Exited code
     | Parsed f \<Rightarrow>
         if fl_version f then PrintedVersion Version
         else (case sqlite_New E now (expandPath (os_home os) (os_cwd os) (fl_db f)) of
           Inl err \<Rightarrow> Fatal (''Failed to initialize SQLite store: '' @ Error err)
         | Inr (d, pool) \<Rightarrow>
             let r = New_relay (os_env os ''GLIENICKE_RATE_LIMIT_ENABLED'') instant d;
                 r = (if fl_nip36 f \<noteq> [] then SetNIP36Policy U (os_vocab os) (fl_nip36 f) r else r)
             in Serving r (main_listener f)))"

section \<open>Background loops\<close>

text \<open>A loop over its ticker and its stop channel, as the wake-ups in order: a tick carries what the world
  looks like then. Once stopped it returns.\<close>

datatype 'a wake = Tick 'a | Stop

fun wake_loop :: "('a \<Rightarrow> 's \<Rightarrow> 's) \<Rightarrow> 'a wake list \<Rightarrow> 's \<Rightarrow> 's" where
  "wake_loop f [] s = s"
| "wake_loop f (Tick x # ws) s = wake_loop f ws (f x s)"
| "wake_loop f (Stop # ws) s = s"

text \<open>The retention loop runs once at once, then at every tick; \<open>S\<close> is the store at the time of a run.\<close>

definition retentionLoop :: "(int \<Rightarrow> 's store_if) \<Rightarrow> int \<Rightarrow> int wake list \<Rightarrow> 's relay \<Rightarrow> 's relay" where
  "retentionLoop S now ws r = wake_loop (\<lambda>t. runRetention (S t) t) ws (runRetention (S now) now r)"

definition StartWatcher :: "unicode \<Rightarrow> disk_file option wake list \<Rightarrow> Policy \<Rightarrow> Policy" where
  "StartWatcher U ws p = wake_loop (reload U) ws p"

section \<open>The path of the database\<close>

definition plain_component :: "string \<Rightarrow> bool" where
  "plain_component p \<longleftrightarrow> p \<noteq> [] \<and> p \<noteq> ''.'' \<and> p \<noteq> ''..'' \<and> CHR ''/'' \<notin> set p"

lemma clean_parts_plain:
  "list_all (\<lambda>p. CHR ''/'' \<notin> set p) ps \<Longrightarrow> list_all plain_component st \<Longrightarrow>
    list_all plain_component (clean_parts True ps st)"
proof (induction "True" ps st rule: clean_parts.induct)
  case (2 p ps st)
  then show ?case by (cases st) (auto simp: plain_component_def)
qed simp

lemma clean_parts_id: "list_all plain_component ps \<Longrightarrow> clean_parts r ps st = rev st @ ps"
  by (induction ps arbitrary: st) (auto simp: plain_component_def)

lemma Split_parts: "list_all (\<lambda>p. sep \<notin> set p) (Split s sep)"
  using split_acc_parts [of _ sep "[]" s] by (auto simp: Split_def list_all_iff)

lemma Clean_rooted:
  assumes "rooted s"
  obtains out where "Clean s = CHR ''/'' # Join out ''/''" "list_all plain_component out"
proof (rule that)
  show "list_all plain_component (clean_parts True (Split s (CHR ''/'')) [])"
    by (rule clean_parts_plain [OF Split_parts]) simp
  have "s \<noteq> []" using assms by (auto simp: rooted_def)
  then show "Clean s = CHR ''/'' # Join (clean_parts True (Split s (CHR ''/'')) []) ''/''"
    using assms by (simp add: Clean_def Let_def)
qed

lemma Clean_clean:
  assumes "list_all plain_component out"
  shows "Clean (CHR ''/'' # Join out ''/'') = CHR ''/'' # Join out ''/''"
proof -
  have "clean_parts True (Split (CHR ''/'' # Join out ''/'') (CHR ''/'')) [] = out"
  proof (cases out)
    case Nil
    then show ?thesis by (simp add: Split_def)
  next
    case (Cons p ps)
    have "Split (Join out ''/'') (CHR ''/'') = out"
      by (rule Split_Join) (use assms Cons in \<open>auto simp: list_all_iff plain_component_def\<close>)
    then have "Split (CHR ''/'' # Join out ''/'') (CHR ''/'') = [] # out" by (simp add: Split_def)
    then show ?thesis using clean_parts_id [OF assms, of True "[]"] by simp
  qed
  then show ?thesis by (simp add: Clean_def Let_def rooted_def)
qed

lemma Abs_path_rooted:
  assumes "cwd = Inr wd" "rooted wd"
  obtains out where "Abs_path cwd p = Inr (CHR ''/'' # Join out ''/'')" "list_all plain_component out"
proof (cases "rooted p")
  case True
  then show ?thesis using that Clean_rooted [of p] by (auto simp: Abs_path_def)
next
  case False
  have "rooted (wd @ ''/'' @ p)" "wd \<noteq> []" using assms(2) by (cases wd; simp add: rooted_def)+
  then show ?thesis using that Clean_rooted [of "wd @ ''/'' @ p"] False assms(1) by (auto simp: Abs_path_def Join_path_def)
qed

text \<open>The path of the database is absolute, whatever the flag and the home directory say, when the working
  directory is known; and expanding it again changes nothing.\<close>

theorem expandPath_absolute:
  assumes "cwd = Inr wd" "rooted wd"
  shows "rooted (expandPath home cwd p) \<and> expandPath home cwd (expandPath home cwd p) = expandPath home cwd p"
proof -
  let ?q = "if p \<noteq> [] \<and> hd p = CHR ''~'' then (case home of Inr h \<Rightarrow> Join_path h (tl p) | Inl _ \<Rightarrow> p) else p"
  obtain out where out: "Abs_path cwd ?q = Inr (CHR ''/'' # Join out ''/'')" "list_all plain_component out"
    by (rule Abs_path_rooted [OF assms])
  have e: "expandPath home cwd p = CHR ''/'' # Join out ''/''"
    unfolding expandPath_def Let_def out(1) by simp
  have "rooted (CHR ''/'' # Join out ''/'')" by (simp add: rooted_def)
  then have "expandPath home cwd (CHR ''/'' # Join out ''/'') = CHR ''/'' # Join out ''/''"
    by (simp add: expandPath_def Abs_path_def Clean_clean [OF out(2)])
  then show ?thesis unfolding e by (simp add: rooted_def)
qed

lemma expandPath_absolute_witness:
  "expandPath (Inr ''/home/u'') (Inr ''/srv'') ''~/a/../relay.db'' = ''/home/u/relay.db'' \<and>
   expandPath (Inr ''/home/u'') (Inr ''/srv'') ''/home/u/relay.db'' = ''/home/u/relay.db''"
proof -
  have p: "expandPath (Inr ''/home/u'') (Inr ''/srv'') ''~/a/../relay.db'' = ''/home/u/relay.db''"
    by (simp add: expandPath_def Let_def Join_path_def Abs_path_def Clean_def rooted_def Split_def)
  have "rooted ''/srv''" by (simp add: rooted_def)
  from expandPath_absolute [OF refl this, of "Inr ''/home/u''" "''~/a/../relay.db''"] p show ?thesis by simp
qed

section \<open>What the command serves\<close>

lemma NewWithOptions_typed:
  assumes "sql_engine E tables saved" "\<And>p d. open_db E p = Inr d \<Longrightarrow> db_inv (tables d)"
    and "NewWithOptions E now p opts = Inr (d, pool)"
  shows "db_inv (tables d)"
proof -
  let ?o = "case opts of None \<Rightarrow> DefaultOptions | Some opt \<Rightarrow> opt"
  obtain d0 d1 where d: "open_db E (buildDSN p) = Inr d0" "configurePerformance E ?o d0 = (d1, None)"
    "initSchema E now d1 = (d, None)"
    using assms(3) by (auto simp: NewWithOptions_def Let_def split: sum.splits prod.splits option.splits)
  have "db_inv (tables d1)"
    using sql_engine.sq_step_inv [OF assms(1) assms(2) [OF d(1)] sq_step.intros(10)] d(2) by (metis fst_conv)
  then show ?thesis by (rule sql_engine.sq_step_inv [OF assms(1) _ sq_step.intros(11) [OF d(3)]])
qed


lemma table_engine_pragmas:
  "list_all (\<lambda>(c, msg). \<exists>p. c = SetPragma p) cs \<Longrightarrow> run_all table_engine cs d = (d, None)"
proof (induction cs)
  case (Cons x cs)
  then show ?case by (cases x) (auto simp: table_engine_def)
qed simp

lemma table_engine_opens: "\<exists>dp. sqlite_New table_engine now p = Inr dp"
proof -
  have "configurePerformance table_engine opts d = (d, None)" for opts d
    unfolding configurePerformance_def by (rule table_engine_pragmas) simp
  moreover have "snd (initSchema table_engine now no_events) = None" unfolding no_events_def by code_simp
  then obtain d where "initSchema table_engine now no_events = (d, None)"
    by (cases "initSchema table_engine now no_events") simp
  moreover have "open_db table_engine q = Inr no_events" for q by (simp add: table_engine_def no_events_def)
  ultimately show ?thesis by (simp add: sqlite_New_def NewWithOptions_def Let_def split: prod.split option.split)
qed


end
