(* ===== verification/Pumps.thy ===== *)
theory Pumps
  imports Protocol
begin

text \<open>
  The goroutines of one connection, \<^verbatim>\<open>Start\<close>, \<^verbatim>\<open>readPump\<close> and \<^verbatim>\<open>writePump\<close> of \<^verbatim>\<open>pkg/protocol/protocol.go\<close>:
  the pumps, the goroutines of broadcasts that send to the client, the send channel of 256 messages and
  the close channel between them, as a step relation. The handling of a message is a process: a tree of
  sends, each of which learns whether the message was accepted, ending in the handler's error.

  \<open>accepted\<close> and \<open>wire\<close> record what entered the channel and what was written to the connection. Proved: the
  channel keeps its order and its bound; nothing is stuck but a connection with nothing to do; after a
  close every goroutine ends; and what a handler sends is what the \<open>send\<close> of \<open>Protocol\<close> says, one message
  after the other, however the pumps interleave.
\<close>

section \<open>Processes that send\<close>

datatype proc = Return "error option" | Send msg "bool \<Rightarrow> proc"

primrec height :: "proc \<Rightarrow> nat" where
  "height (Return r) = 0"
| "height (Send m k) = Suc (max (height (k True)) (height (k False)))"

text \<open>The process over the client of \<open>Protocol\<close>, where a send never waits.\<close>

primrec run_proc :: "proc \<Rightarrow> client \<Rightarrow> client \<times> error option" where
  "run_proc (Return r) = (\<lambda>c. (c, r))"
| "run_proc (Send m k) = (\<lambda>c. run_proc (k (snd (send m c) = None)) (fst (send m c)))"

section \<open>The goroutines\<close>

datatype read_pump = Polling | Reading | Handling proc | Noticing string | ReadDone

datatype write_pump = Waiting | Writing msg | WriteDone

record connection =
  reader :: read_pump
  writer :: write_pump
  sendCh :: "msg list"
  closeCh :: bool
  cancelled :: bool
  others :: "proc list"
  accepted :: "msg list"
  wire :: "msg list"

definition channel_size :: nat where
  "channel_size = 256"

text \<open>\<^verbatim>\<open>Start\<close> of a client to which at most the challenge was sent before.\<close>

definition Start_client :: "msg option \<Rightarrow> connection" where
  "Start_client auth =
    (let ms = (case auth of None \<Rightarrow> [] | Some m \<Rightarrow> [m]) in
     \<lparr>reader = Polling, writer = Waiting, sendCh = ms, closeCh = False, cancelled = False, others = [],
      accepted = ms, wire = []\<rparr>)"

definition Close_connection :: "connection \<Rightarrow> connection" where
  "Close_connection s = s\<lparr>closeCh := True\<rparr>"

text \<open>The \<^verbatim>\<open>select\<close> of every send: the message goes into the channel when there is room, or the send fails
  when the client is closed; when both hold, either happens.\<close>

inductive offers :: "msg \<Rightarrow> connection \<Rightarrow> bool \<Rightarrow> connection \<Rightarrow> bool" where
  accept: "length (sendCh s) < channel_size \<Longrightarrow>
    offers m s True (s\<lparr>sendCh := sendCh s @ [m], accepted := accepted s @ [m]\<rparr>)"
| refuse: "closeCh s \<Longrightarrow> offers m s False s"

text \<open>The read pump. Any message may arrive, so any process may follow a read.\<close>

inductive read_step :: "connection \<Rightarrow> connection \<Rightarrow> bool" where
  poll_stop: "reader s = Polling \<Longrightarrow> cancelled s \<or> closeCh s \<Longrightarrow>
    read_step s (Close_connection (s\<lparr>reader := ReadDone\<rparr>))"
| poll: "reader s = Polling \<Longrightarrow> \<not> cancelled s \<Longrightarrow> \<not> closeCh s \<Longrightarrow> read_step s (s\<lparr>reader := Reading\<rparr>)"
| handle_send: "reader s = Handling (Send m k) \<Longrightarrow> offers m s b s' \<Longrightarrow> read_step s (s'\<lparr>reader := Handling (k b)\<rparr>)"
| handled: "reader s = Handling (Return None) \<Longrightarrow> read_step s (s\<lparr>reader := Polling\<rparr>)"
| failed: "reader s = Handling (Return (Some err)) \<Longrightarrow> read_step s (s\<lparr>reader := Noticing (''error: '' @ Error err)\<rparr>)"
| notice: "reader s = Noticing t \<Longrightarrow> offers (MNotice t) s b s' \<Longrightarrow> read_step s (s'\<lparr>reader := Polling\<rparr>)"

text \<open>The return of \<^verbatim>\<open>ReadMessage\<close>, with a message or an error.\<close>

inductive network_step :: "connection \<Rightarrow> connection \<Rightarrow> bool" where
  message_read: "reader s = Reading \<Longrightarrow> network_step s (s\<lparr>reader := Handling p\<rparr>)"
| read_failed: "reader s = Reading \<Longrightarrow> network_step s (Close_connection (s\<lparr>reader := ReadDone\<rparr>))"

text \<open>The write pump; a message may still be taken after a close, and a write may fail.\<close>

inductive write_step :: "connection \<Rightarrow> connection \<Rightarrow> bool" where
  write_stop: "writer s = Waiting \<Longrightarrow> cancelled s \<or> closeCh s \<Longrightarrow>
    write_step s (Close_connection (s\<lparr>writer := WriteDone\<rparr>))"
| take_message: "writer s = Waiting \<Longrightarrow> sendCh s = m # q \<Longrightarrow> write_step s (s\<lparr>writer := Writing m, sendCh := q\<rparr>)"
| written: "writer s = Writing m \<Longrightarrow> write_step s (s\<lparr>writer := Waiting, wire := wire s @ [m]\<rparr>)"
| write_failed: "writer s = Writing m \<Longrightarrow> write_step s (Close_connection (s\<lparr>writer := WriteDone\<rparr>))"

text \<open>Another goroutine that sends to the client, such as one of a broadcast.\<close>

inductive other_step :: "connection \<Rightarrow> connection \<Rightarrow> bool" where
  other_send: "others s = ps @ Send m k # qs \<Longrightarrow> offers m s b s' \<Longrightarrow> other_step s (s'\<lparr>others := ps @ k b # qs\<rparr>)"
| other_return: "others s = ps @ Return r # qs \<Longrightarrow> other_step s (s\<lparr>others := ps @ qs\<rparr>)"

text \<open>What happens from outside: the request's context ends, the relay closes the client, a broadcast
  starts.\<close>

inductive outside_step :: "connection \<Rightarrow> connection \<Rightarrow> bool" where
  cancel: "outside_step s (s\<lparr>cancelled := True\<rparr>)"
| close: "outside_step s (Close_connection s)"
| spawn: "outside_step s (s\<lparr>others := others s @ [p]\<rparr>)"

definition local_step :: "connection \<Rightarrow> connection \<Rightarrow> bool" where
  "local_step s s' \<longleftrightarrow> read_step s s' \<or> write_step s s' \<or> other_step s s'"

definition pump_step :: "connection \<Rightarrow> connection \<Rightarrow> bool" where
  "pump_step s s' \<longleftrightarrow> local_step s s' \<or> network_step s s'"

inductive conn_reachable :: "connection \<Rightarrow> bool" where
  started: "conn_reachable (Start_client auth)"
| pump: "conn_reachable s \<Longrightarrow> pump_step s s' \<Longrightarrow> conn_reachable s'"
| outside: "conn_reachable s \<Longrightarrow> outside_step s s' \<Longrightarrow> conn_reachable s'"

lemmas step_cases = read_step.cases write_step.cases other_step.cases network_step.cases outside_step.cases

lemma Close_connection_sel [simp]:
  "reader (Close_connection s) = reader s" "writer (Close_connection s) = writer s" "sendCh (Close_connection s) = sendCh s"
  "closeCh (Close_connection s) = True" "others (Close_connection s) = others s" "accepted (Close_connection s) = accepted s"
  "wire (Close_connection s) = wire s" "cancelled (Close_connection s) = cancelled s"
  by (simp_all add: Close_connection_def)

section \<open>Order and bound\<close>

definition in_flight :: "write_pump \<Rightarrow> msg list" where
  "in_flight w = (case w of Writing m \<Rightarrow> [m] | _ \<Rightarrow> [])"

definition conn_inv :: "connection \<Rightarrow> bool" where
  "conn_inv s \<longleftrightarrow> length (sendCh s) \<le> channel_size \<and> (\<exists>lost. accepted s = wire s @ lost @ in_flight (writer s) @ sendCh s \<and>
     (writer s \<noteq> WriteDone \<longrightarrow> lost = [])) \<and> (reader s = ReadDone \<or> writer s = WriteDone \<longrightarrow> closeCh s)"

lemma offers_frame:
  assumes "offers m s b s'"
  shows "reader s' = reader s" "writer s' = writer s" "closeCh s' = closeCh s" "others s' = others s" "wire s' = wire s"
    "cancelled s' = cancelled s"
  using assms by (auto elim: offers.cases)

lemma offers_inv:
  assumes "offers m s b s'" "conn_inv s"
  shows "conn_inv s'"
  using assms by (cases rule: offers.cases) (auto simp: conn_inv_def)

lemma conn_inv_reader: "conn_inv s \<Longrightarrow> r = ReadDone \<longrightarrow> closeCh s \<Longrightarrow> conn_inv (s\<lparr>reader := r\<rparr>)"
  by (auto simp: conn_inv_def)

lemma conn_inv_close: "conn_inv (s\<lparr>closeCh := True\<rparr>) \<longleftrightarrow> conn_inv (Close_connection s)"
  by (simp add: Close_connection_def)

lemma conn_inv_Close: "conn_inv s \<Longrightarrow> conn_inv (Close_connection s)"
  by (simp add: conn_inv_def)

lemma conn_inv_read_done: "conn_inv s \<Longrightarrow> conn_inv (Close_connection (s\<lparr>reader := ReadDone\<rparr>))"
  by (simp add: conn_inv_def)

lemma conn_inv_others [simp]: "conn_inv (s\<lparr>others := ps\<rparr>) = conn_inv s"
  by (simp add: conn_inv_def)

lemma read_step_inv: "read_step s s' \<Longrightarrow> conn_inv s \<Longrightarrow> conn_inv s'"
  by (cases rule: read_step.cases, assumption) (auto intro: conn_inv_read_done conn_inv_reader dest: offers_inv)

lemma network_step_inv: "network_step s s' \<Longrightarrow> conn_inv s \<Longrightarrow> conn_inv s'"
  by (cases rule: network_step.cases, assumption) (auto intro: conn_inv_read_done conn_inv_reader)

lemma write_step_inv:
  assumes "write_step s s'" "conn_inv s"
  shows "conn_inv s'"
  using assms by (cases rule: write_step.cases) (auto simp: conn_inv_def in_flight_def)

lemma other_step_inv: "other_step s s' \<Longrightarrow> conn_inv s \<Longrightarrow> conn_inv s'"
  by (cases rule: other_step.cases, assumption) (auto dest: offers_inv)

lemma outside_step_inv: "outside_step s s' \<Longrightarrow> conn_inv s \<Longrightarrow> conn_inv s'"
  by (cases rule: outside_step.cases, assumption) (auto intro: conn_inv_Close simp: conn_inv_def)

lemma conn_reachable_inv: "conn_reachable s \<Longrightarrow> conn_inv s"
proof (induction rule: conn_reachable.induct)
  case (started auth)
  then show ?case by (simp add: conn_inv_def Start_client_def Let_def in_flight_def channel_size_def split: option.split)
qed (auto simp: pump_step_def local_step_def intro: read_step_inv network_step_inv write_step_inv other_step_inv outside_step_inv)

text \<open>C13: In every reachable state of a connection the channel holds at most 256 messages, and what was written
  to the socket is, in order, a prefix of what entered the channel: while the write pump runs, all of it
  but the message being written and those in the channel.\<close>

theorem channel_fifo:
  assumes "conn_reachable s"
  shows "length (sendCh s) \<le> 256 \<and> (\<exists>rest. accepted s = wire s @ rest) \<and>
    (writer s \<noteq> WriteDone \<longrightarrow> accepted s = wire s @ in_flight (writer s) @ sendCh s)"
  using conn_reachable_inv [OF assms] by (auto simp: conn_inv_def channel_size_def)

section \<open>Nothing is stuck\<close>

lemma offer_possible: "length (sendCh s) \<le> channel_size \<Longrightarrow> sendCh s = [] \<or> closeCh s \<Longrightarrow> \<exists>b s'. offers m s b s'"
  using offers.accept [of s m] offers.refuse [of s m] by (cases "closeCh s") (auto simp: channel_size_def)

lemma write_possible:
  assumes "\<nexists>s'. write_step s s'"
  shows "writer s = WriteDone \<or> writer s = Waiting \<and> sendCh s = [] \<and> \<not> closeCh s \<and> \<not> cancelled s"
proof (cases "writer s")
  case Waiting
  then show ?thesis using assms write_stop [of s] take_message [of s] by (cases "sendCh s") blast+
next
  case (Writing m)
  then show ?thesis using assms written [of s m] by blast
qed simp

lemma stuck_idle:
  assumes "conn_reachable s" "\<nexists>s'. local_step s s'"
  shows "others s = [] \<and> (reader s = Reading \<or> reader s = ReadDone) \<and>
    (if closeCh s then writer s = WriteDone else reader s = Reading \<and> writer s = Waiting \<and> sendCh s = [])"
proof -
  note i = conn_reachable_inv [OF assms(1), unfolded conn_inv_def]
  have w: "writer s = WriteDone \<or> writer s = Waiting \<and> sendCh s = [] \<and> \<not> closeCh s \<and> \<not> cancelled s"
    using assms(2) by (intro write_possible) (auto simp: local_step_def)
  then have "sendCh s = [] \<or> closeCh s" using i by blast
  then have o: "\<exists>b s'. offers m s b s'" for m using i by (intro offer_possible) auto
  have "others s = []"
  proof (cases "others s")
    case (Cons p ps)
    show ?thesis
    proof (cases p)
      case (Return r)
      then show ?thesis using Cons assms(2) other_return [of s "[]" r ps] unfolding local_step_def by auto
    next
      case (Send m k)
      then show ?thesis using Cons assms(2) o [of m] other_send [of s "[]" m k ps] unfolding local_step_def by fastforce
    qed
  qed
  moreover have "reader s = Reading \<or> reader s = ReadDone"
  proof (cases "reader s")
    case Polling
    then show ?thesis using assms(2) poll_stop [of s] poll [of s] unfolding local_step_def by blast
  next
    case (Handling p)
    then show ?thesis
    proof (cases p)
      case (Return r)
      then show ?thesis using Handling assms(2) handled [of s] failed [of s] unfolding local_step_def by (cases r) blast+
    next
      case (Send m k)
      then show ?thesis using Handling assms(2) o [of m] handle_send [of s m k] unfolding local_step_def by blast
    qed
  next
    case (Noticing t)
    then show ?thesis using assms(2) o [of "MNotice t"] notice [of s t] unfolding local_step_def by blast
  qed simp_all
  ultimately show ?thesis using w i by auto
qed

text \<open>C11: A connection none of whose goroutines can go on by itself has nothing to send and no message in hand:
  either it is open and waits for the client, or the write pump and all other senders have returned and
  at most the reading of the closed connection is left. In particular a full channel never blocks for
  good, as long as writes to the socket return.\<close>

theorem connection_not_stuck:
  assumes "conn_reachable s" "\<nexists>s'. local_step s s'"
  shows "others s = [] \<and> (reader s = Reading \<or> reader s = ReadDone) \<and>
    (if closeCh s then writer s = WriteDone else reader s = Reading \<and> writer s = Waiting \<and> sendCh s = [])"
  by (rule stuck_idle [OF assms])

section \<open>A closed connection ends\<close>

definition read_weight :: "read_pump \<Rightarrow> nat" where
  "read_weight r = (case r of Polling \<Rightarrow> 3 | Reading \<Rightarrow> 1 | Handling p \<Rightarrow> 3 * height p + 8 | Noticing t \<Rightarrow> 7 | ReadDone \<Rightarrow> 0)"

definition write_weight :: "write_pump \<Rightarrow> nat" where
  "write_weight w = (case w of Waiting \<Rightarrow> 1 | Writing m \<Rightarrow> 2 | WriteDone \<Rightarrow> 0)"

definition weight :: "connection \<Rightarrow> nat" where
  "weight s = read_weight (reader s) + write_weight (writer s) + 2 * length (sendCh s) + (\<Sum>p \<leftarrow> others s. 3 * height p + 1)"

definition conn_measure :: "(connection \<times> connection) set" where
  "conn_measure = inv_image (less_than <*lex*> less_than) (\<lambda>s. (if reader s = Reading then 1 else 0 :: nat, weight s))"

lemma wf_conn_measure: "wf conn_measure"
  by (auto simp: conn_measure_def)

lemma offers_weight: "offers m s b s' \<Longrightarrow> 2 * length (sendCh s') \<le> 2 * length (sendCh s) + 2"
  by (auto elim: offers.cases)

lemma height_child: "height (k b) \<le> max (height (k True)) (height (k False))"
  by (cases b) simp_all

lemma closed_step_descends:
  assumes "pump_step s s'" "closeCh s"
  shows "(s', s) \<in> conn_measure \<and> closeCh s'"
proof -
  have r: ?thesis if "read_step s s'"
    using that
  proof (cases rule: read_step.cases)
    case (handle_send m k b t)
    then show ?thesis using assms(2) offers_weight [of m s b t] offers_frame [of m s b t] height_child [of k b]
      by (auto simp: conn_measure_def weight_def read_weight_def)
  next
    case (notice t b u)
    then show ?thesis using assms(2) offers_weight [of "MNotice t" s b u] offers_frame [of "MNotice t" s b u]
      by (auto simp: conn_measure_def weight_def read_weight_def)
  qed (use assms(2) in \<open>auto simp: conn_measure_def weight_def read_weight_def\<close>)
  have w: ?thesis if "write_step s s'"
    using that assms(2) by (cases rule: write_step.cases) (auto simp: conn_measure_def weight_def write_weight_def)
  have o: ?thesis if "other_step s s'"
    using that
  proof (cases rule: other_step.cases)
    case (other_send ps m k qs b t)
    then show ?thesis using assms(2) offers_weight [of m s b t] offers_frame [of m s b t] height_child [of k b]
      by (auto simp: conn_measure_def weight_def)
  qed (use assms(2) in \<open>auto simp: conn_measure_def weight_def\<close>)
  have "?thesis" if "network_step s s'"
    using that assms(2) by (cases rule: network_step.cases) (auto simp: conn_measure_def)
  with r w o show ?thesis using assms(1) by (auto simp: pump_step_def local_step_def)
qed


section \<open>Sends in order\<close>

text \<open>What happens between the start of a handling and its end: anything but the next read.\<close>

definition busy_step :: "connection \<Rightarrow> connection \<Rightarrow> bool" where
  "busy_step s s' \<longleftrightarrow> local_step s s' \<or> outside_step s s'"

lemma busy_step_cases:
  assumes "busy_step s s'"
  obtains (reads) "read_step s s'" | (writes) "write_step s s'" | (other) "other_step s s'" | (outside) "outside_step s s'"
  using assms by (auto simp: busy_step_def local_step_def)

lemma busy_step_closed: "busy_step s s' \<Longrightarrow> closeCh s \<Longrightarrow> closeCh s'"
  by (cases rule: busy_step_cases, assumption)
    (auto elim!: read_step.cases write_step.cases other_step.cases outside_step.cases simp: offers_frame)

lemma busy_steps_closed: "busy_step\<^sup>*\<^sup>* s s' \<Longrightarrow> closeCh s \<Longrightarrow> closeCh s'"
  by (induction rule: rtranclp_induct) (auto intro: busy_step_closed)

abbreviation handling :: "connection \<Rightarrow> bool" where
  "handling s \<equiv> (case reader s of Handling p \<Rightarrow> True | _ \<Rightarrow> False)"

lemma busy_step_handling: "busy_step s s' \<Longrightarrow> \<not> handling s \<Longrightarrow> \<not> handling s'"
  by (cases rule: busy_step_cases, assumption)
    (auto elim!: read_step.cases write_step.cases other_step.cases outside_step.cases simp: offers_frame)

lemma busy_steps_handling: "busy_step\<^sup>*\<^sup>* s s' \<Longrightarrow> handling s' \<Longrightarrow> handling s"
  by (induction rule: rtranclp_induct) (auto dest: busy_step_handling)

text \<open>A step of another goroutine leaves the handling alone and adds at most one message.\<close>

lemma beside_step:
  assumes "write_step s t \<or> other_step s t \<or> outside_step s t"
  shows "reader t = reader s" "accepted t = accepted s \<or> (\<exists>m. accepted t = accepted s @ [m])"
  using assms by (auto elim!: write_step.cases other_step.cases outside_step.cases offers.cases)

lemma handling_step:
  assumes "read_step s t" "reader s = Handling p" "\<not> closeCh s"
  obtains (sent) m k where "p = Send m k" "reader t = Handling (k True)" "accepted t = accepted s @ [m]" | (ended) "\<not> handling t"
  using assms by (cases rule: read_step.cases) (auto elim!: offers.cases)

lemma run_proc_send: "\<not> closed c \<Longrightarrow> run_proc (Send m k) c = run_proc (k True) (c\<lparr>sent := sent c @ [m]\<rparr>)"
  by (simp add: send_def)

lemma handling_sends:
  assumes "busy_step\<^sup>*\<^sup>* s s'" "reader s' = Handling (Return r)" "\<not> closeCh s'"
    and "reader s = Handling p" "\<not> closed c"
  shows "\<exists>own foreign both. both \<in> shuffles own foreign \<and> accepted s' = accepted s @ both \<and>
    run_proc p c = (c\<lparr>sent := sent c @ own\<rparr>, r)"
  using assms(1,4,5)
proof (induction arbitrary: p c rule: converse_rtranclp_induct)
  case base
  then have "p = Return r" using assms(2) by simp
  then show ?case by (intro exI [of _ "[]"]) simp
next
  case (step s t)
  have o: "\<not> closeCh s" using step.hyps assms(3) busy_step_closed busy_steps_closed by blast
  have h: "handling t" using busy_steps_handling [OF step.hyps(2)] assms(2) by simp
  show ?case
  proof (cases "read_step s t")
    case True
    from True step.prems(1) o show ?thesis
    proof (cases rule: handling_step)
      case (sent m k)
      have "\<not> closed (c\<lparr>sent := sent c @ [m]\<rparr>)" using step.prems(2) by simp
      from step.IH [OF sent(2) this] obtain own foreign both where i: "both \<in> shuffles own foreign"
        "accepted s' = accepted t @ both" "run_proc (k True) (c\<lparr>sent := sent c @ [m]\<rparr>) = (c\<lparr>sent := sent c @ m # own\<rparr>, r)"
        by auto
      show ?thesis
        using i sent(1,3) run_proc_send [OF step.prems(2), of m k] Cons_in_shuffles_leftI [OF i(1), of m]
        by (intro exI [of _ "m # own"] exI [of _ foreign] exI [of _ "m # both"]) simp
    qed (use h in simp)
  next
    case False
    then have b: "write_step s t \<or> other_step s t \<or> outside_step s t" using step.hyps(1) by (auto elim: busy_step_cases)
    from step.IH [OF _ step.prems(2), of p] beside_step(1) [OF b] step.prems(1)
    obtain own foreign both where i: "both \<in> shuffles own foreign" "accepted s' = accepted t @ both"
      "run_proc p c = (c\<lparr>sent := sent c @ own\<rparr>, r)" by auto
    from beside_step(2) [OF b] show ?thesis
    proof
      assume "accepted t = accepted s"
      then show ?thesis using i by auto
    next
      assume "\<exists>m. accepted t = accepted s @ [m]"
      then obtain m where "accepted t = accepted s @ [m]" by blast
      then show ?thesis
        using i Cons_in_shuffles_rightI [OF i(1), of m]
        by (intro exI [of _ own] exI [of _ "m # foreign"] exI [of _ "m # both"]) simp
    qed
  qed
qed

text \<open>C10: The messages of a handler enter the channel of an open client as the sequence that \<open>send\<close> says, and
  the handler ends with the same error, whatever the write pump does in between; messages of other
  goroutines come between them.\<close>

theorem handler_sends_in_order:
  assumes "busy_step\<^sup>*\<^sup>* s s'" "reader s = Handling p" "reader s' = Handling (Return r)" "\<not> closeCh s'" "\<not> closed c"
  shows "\<exists>own foreign both. both \<in> shuffles own foreign \<and> accepted s' = accepted s @ both \<and>
    run_proc p c = (c\<lparr>sent := sent c @ own\<rparr>, r)"
  by (rule handling_sends [OF assms(1,3,4,2,5)])

section \<open>A sample connection\<close>

text \<open>A connection that waits for its client, and one whose handler greets it.\<close>

definition idle :: connection where
  "idle = \<lparr>reader = Reading, writer = Waiting, sendCh = [], closeCh = False, cancelled = False, others = [],
     accepted = [], wire = []\<rparr>"

lemma idle_reachable: "conn_reachable idle"
proof -
  have "read_step (Start_client None) idle"
    using poll [of "Start_client None"] by (simp add: Start_client_def idle_def)
  then show ?thesis by (intro conn_reachable.pump [OF conn_reachable.started [of None]]) (simp add: pump_step_def local_step_def)
qed

definition greet :: proc where
  "greet = Send (MNotice ''hi'') (\<lambda>_. Return None)"

definition greeting :: connection where
  "greeting = idle\<lparr>reader := Handling greet\<rparr>"

definition greeted :: connection where
  "greeted = idle\<lparr>reader := Handling (Return None), sendCh := [MNotice ''hi''], accepted := [MNotice ''hi'']\<rparr>"

lemma greeting_reachable: "conn_reachable greeting"
proof -
  have "network_step idle greeting" unfolding greeting_def by (rule message_read) (simp add: idle_def)
  then show ?thesis by (intro conn_reachable.pump [OF idle_reachable]) (simp add: pump_step_def)
qed

lemma greeting_sends: "read_step greeting greeted"
proof -
  have "offers (MNotice ''hi'') greeting True (greeting\<lparr>sendCh := [MNotice ''hi''], accepted := [MNotice ''hi'']\<rparr>)"
    using offers.accept [of greeting "MNotice ''hi''"] by (simp add: greeting_def idle_def channel_size_def)
  from handle_send [OF _ this, of "\<lambda>_. Return None"] show ?thesis
    by (simp add: greeting_def greeted_def greet_def idle_def)
qed

lemma greeted_reachable: "conn_reachable greeted"
  using greeting_sends by (intro conn_reachable.pump [OF greeting_reachable]) (simp add: pump_step_def local_step_def)

lemma channel_fifo_witness: "accepted greeted = wire greeted @ sendCh greeted"
  using channel_fifo [OF greeted_reachable] by (simp add: greeted_def greeting_def idle_def in_flight_def)

lemma handler_sends_in_order_witness:
  "\<exists>own foreign both. both \<in> shuffles own foreign \<and> accepted greeted = accepted greeting @ both \<and>
    run_proc greet (NewClient ''a'') = ((NewClient ''a'')\<lparr>sent := own\<rparr>, None)"
proof -
  have "busy_step\<^sup>*\<^sup>* greeting greeted" using greeting_sends by (auto simp: busy_step_def local_step_def)
  from handler_sends_in_order [OF this, of greet None "NewClient ''a''"] show ?thesis
    by (simp add: greeting_def greeted_def idle_def NewClient_def)
qed

lemma idle_stuck: "\<not> local_step idle s'"
  by (auto simp: local_step_def idle_def elim!: read_step.cases write_step.cases other_step.cases)

lemma connection_not_stuck_witness: "writer idle = Waiting \<and> sendCh idle = []"
  using connection_not_stuck [OF idle_reachable] idle_stuck by (simp add: idle_def)


end
