(* ===== verification/Base64.thy ===== *)
theory Base64
  imports GoStrings
begin

text \<open>
  \<^verbatim>\<open>base64.StdEncoding\<close> of Go's library: encoding with padding, and the decoder, which skips
  carriage returns and newlines, wants the padding, and reports the offset of the first bad byte.
  The decoder works a quantum of four characters at a time. Proved: decoding inverts encoding.
\<close>

definition b64_char :: "nat \<Rightarrow> char" where
  "b64_char n = (if n < 26 then char_of (65 + n) else if n < 52 then char_of (71 + n)
     else if n < 62 then char_of (n - 4) else if n = 62 then CHR ''+'' else CHR ''/'')"

definition b64_val :: "char \<Rightarrow> nat option" where
  "b64_val c = (let b = byte c in
     if 65 \<le> b \<and> b \<le> 90 then Some (b - 65)
     else if 97 \<le> b \<and> b \<le> 122 then Some (b - 71)
     else if 48 \<le> b \<and> b \<le> 57 then Some (b + 4)
     else if b = 43 then Some 62 else if b = 47 then Some 63 else None)"

fun b64_encode :: "string \<Rightarrow> string" where
  "b64_encode [] = []"
| "b64_encode [a] = [b64_char (byte a div 4), b64_char (byte a mod 4 * 16), CHR ''='', CHR ''='']"
| "b64_encode [a, b] =
     [b64_char (byte a div 4), b64_char (byte a mod 4 * 16 + byte b div 16),
      b64_char (byte b mod 16 * 4), CHR ''='']"
| "b64_encode (a # b # c # s) =
     b64_char (byte a div 4) # b64_char (byte a mod 4 * 16 + byte b div 16) #
     b64_char (byte b mod 16 * 4 + byte c div 64) # b64_char (byte c mod 64) # b64_encode s"

definition newline :: "char \<Rightarrow> bool" where
  "newline c \<longleftrightarrow> c = CHR 0x0A \<or> c = CHR 0x0D"

fun skip_newlines :: "string \<Rightarrow> nat \<Rightarrow> string \<times> nat" where
  "skip_newlines [] si = ([], si)"
| "skip_newlines (c # s) si = (if newline c then skip_newlines s (si + 1) else (c # s, si))"

datatype quantum = QEnd | QCorrupt nat | QFull "nat list" string nat | QLast "nat list"

text \<open>The characters after the padding of the last quantum.\<close>

definition finish_quantum :: "nat list \<Rightarrow> string \<Rightarrow> nat \<Rightarrow> quantum" where
  "finish_quantum vs s si = (case skip_newlines s si of
      ([], _) \<Rightarrow> QLast vs
    | (_, si') \<Rightarrow> QCorrupt si')"

fun decodeQuantum :: "nat list \<Rightarrow> string \<Rightarrow> nat \<Rightarrow> quantum" where
  "decodeQuantum vs [] si = (if vs = [] then QEnd else QCorrupt (si - length vs))"
| "decodeQuantum vs (c # s) si = (case b64_val c of
      Some v \<Rightarrow> if length vs = 3 then QFull (vs @ [v]) s (si + 1) else decodeQuantum (vs @ [v]) s (si + 1)
    | None \<Rightarrow>
        if newline c then decodeQuantum vs s (si + 1)
        else if c \<noteq> CHR ''='' then QCorrupt si
        else if length vs < 2 then QCorrupt si
        else if length vs = 2 then
          (case skip_newlines s (si + 1) of
             ([], si') \<Rightarrow> QCorrupt si'
           | (d # s', si') \<Rightarrow>
               if d \<noteq> CHR ''='' then QCorrupt (si' - 1) else finish_quantum vs s' (si' + 1))
        else finish_quantum vs s (si + 1))"

definition quantum_bytes :: "nat list \<Rightarrow> string" where
  "quantum_bytes vs = (case vs of
      [a, b, c, d] \<Rightarrow> [char_of (a * 4 + b div 16), char_of (b mod 16 * 16 + c div 4), char_of (c mod 4 * 64 + d)]
    | [a, b, c] \<Rightarrow> [char_of (a * 4 + b div 16), char_of (b mod 16 * 16 + c div 4)]
    | [a, b] \<Rightarrow> [char_of (a * 4 + b div 16)]
    | _ \<Rightarrow> [])"

lemma finish_not_full [simp]: "finish_quantum vs s si \<noteq> QFull ws t n"
  by (auto simp: finish_quantum_def split: prod.splits list.splits)

lemma decodeQuantum_shorter: "decodeQuantum vs s si = QFull ws s' si' \<Longrightarrow> length s' < length s"
proof (induction vs s si rule: decodeQuantum.induct)
  case (2 vs c s si)
  show ?case
  proof (cases "b64_val c")
    case None
    with 2 show ?thesis by (auto split: if_splits prod.splits list.splits)
  next
    case (Some v)
    with 2 show ?thesis by (auto split: if_splits)
  qed
qed (simp split: if_splits)

function b64_decode_from :: "string \<Rightarrow> nat \<Rightarrow> error + string" where
  "b64_decode_from s si = (case decodeQuantum [] s si of
      QEnd \<Rightarrow> Inr []
    | QCorrupt n \<Rightarrow> Inl (ErrorString (''illegal base64 data at input byte '' @ show_int (int n)))
    | QLast vs \<Rightarrow> Inr (quantum_bytes vs)
    | QFull vs s' si' \<Rightarrow> (case b64_decode_from s' si' of
        Inl err \<Rightarrow> Inl err | Inr bs \<Rightarrow> Inr (quantum_bytes vs @ bs)))"
  by pat_completeness auto
termination
  by (relation "measure (\<lambda>(s, si). length s)") (auto dest: decodeQuantum_shorter)

declare b64_decode_from.simps [simp del]

definition b64_decode :: "string \<Rightarrow> error + string" where
  "b64_decode s = b64_decode_from s 0"

lemma b64_val_char: "n < 64 \<Longrightarrow> b64_val (b64_char n) = Some n"
  by (cases "n < 26"; cases "n < 52"; cases "n < 62"; cases "n = 62")
    (auto simp: b64_val_def b64_char_def Let_def)

lemma b64_val_pad: "b64_val (CHR ''='') = None"
  by (simp add: b64_val_def Let_def)

lemma pad_not_newline: "\<not> newline (CHR ''='')"
  by (simp add: newline_def)

lemma four_sixteen:
  fixes q r s t :: nat
  assumes "r < 4" "s < 16" "t < 16" "u < 4" "v < 64"
  shows "(r * 16 + s) div 16 = r" "(r * 16 + s) mod 16 = s" "(t * 4 + u) div 4 = t" "(t * 4 + u) mod 4 = u"
    "(r * 16) div 16 = r" "(r * 16) mod 16 = 0" "(t * 4) div 4 = t"
  using assms by simp_all

lemma small_parts:
  fixes a :: nat
  assumes "a < 256"
  shows "a div 4 < 64" "a mod 4 < 4" "a div 16 < 16" "a mod 16 < 16" "a div 64 < 4" "a mod 64 < 64"
  using assms by (simp_all add: less_mult_imp_div_less)

lemma six_bits:
  fixes a b c :: nat
  assumes "a < 256" "b < 256" "c < 256"
  shows "a div 4 < 64" "a mod 4 * 16 + b div 16 < 64" "b mod 16 * 4 + c div 64 < 64" "c mod 64 < 64"
    "a mod 4 * 16 < 64" "b mod 16 * 4 < 64"
    "a div 4 * 4 + (a mod 4 * 16 + b div 16) div 16 = a"
    "(a mod 4 * 16 + b div 16) mod 16 * 16 + (b mod 16 * 4 + c div 64) div 4 = b"
    "(b mod 16 * 4 + c div 64) mod 4 * 64 + c mod 64 = c"
    "a div 4 * 4 + (a mod 4 * 16) div 16 = a"
    "(a mod 4 * 16 + b div 16) mod 16 * 16 + (b mod 16 * 4) div 4 = b"
    "(a mod 4 * 16 + b div 16) mod 16 * 16 + b mod 16 = b"
proof -
  note p = small_parts [OF assms(1)] small_parts [OF assms(2)] small_parts [OF assms(3)]
  note f = four_sixteen [of "a mod 4" "b div 16" "b mod 16" "c div 64" "c mod 64"]
  show "a div 4 < 64" "a mod 4 * 16 + b div 16 < 64" "b mod 16 * 4 + c div 64 < 64" "c mod 64 < 64"
    "a mod 4 * 16 < 64" "b mod 16 * 4 < 64"
    using p by linarith+
  show "a div 4 * 4 + (a mod 4 * 16 + b div 16) div 16 = a"
    "(a mod 4 * 16 + b div 16) mod 16 * 16 + (b mod 16 * 4 + c div 64) div 4 = b"
    "(b mod 16 * 4 + c div 64) mod 4 * 64 + c mod 64 = c"
    "a div 4 * 4 + (a mod 4 * 16) div 16 = a"
    "(a mod 4 * 16 + b div 16) mod 16 * 16 + (b mod 16 * 4) div 4 = b"
    "(a mod 4 * 16 + b div 16) mod 16 * 16 + b mod 16 = b"
    using p by (simp_all only: f div_mult_mod_eq)
qed

theorem b64_roundtrip: "b64_decode_from (b64_encode s) si = Inr s"
proof (induction s arbitrary: si rule: b64_encode.induct)
  case 1
  show ?case by (subst b64_decode_from.simps) simp
next
  case (2 a)
  note six = six_bits [OF byte_less [of a] byte_less [of a] byte_less [of a]]
  show ?case
    by (subst b64_decode_from.simps)
      (simp add: b64_val_char b64_val_pad pad_not_newline six finish_quantum_def quantum_bytes_def
        del: div_mult_self1 div_mult_self2 div_mult_self3 div_mult_self4 mod_mult_self1 mod_mult_self2 mod_mult_self3 mod_mult_self4)
next
  case (3 a b)
  note six = six_bits [OF byte_less [of a] byte_less [of b] byte_less [of a]]
  show ?case
    by (subst b64_decode_from.simps)
      (simp add: b64_val_char b64_val_pad pad_not_newline six finish_quantum_def quantum_bytes_def
        del: div_mult_self1 div_mult_self2 div_mult_self3 div_mult_self4 mod_mult_self1 mod_mult_self2 mod_mult_self3 mod_mult_self4)
next
  case (4 a b c s)
  note six = six_bits [OF byte_less [of a] byte_less [of b] byte_less [of c]]
  show ?case
    by (subst b64_decode_from.simps)
      (simp add: b64_val_char six quantum_bytes_def 4
        del: div_mult_self1 div_mult_self2 div_mult_self3 div_mult_self4 mod_mult_self1 mod_mult_self2 mod_mult_self3 mod_mult_self4)
qed

end
