(* ===== verification/Nip04.thy ===== *)
theory Nip04
  imports Storage Base64
begin

text \<open>
  Encrypted direct messages, \<^verbatim>\<open>pkg/nips/nip04/nip04.go\<close>: the content format, AES-256-CBC with PKCS7
  padding, and the accessors. The chaining is written out; the block cipher itself is an argument
  (an \<open>aes\<close> record), as are the random bytes of the initialisation vector.

  Proved: decryption inverts encryption under the same key, for any cipher whose block decryption
  inverts its block encryption on blocks of 16 bytes.
\<close>

definition nip04_IsEncryptedDirectMessage :: "int \<Rightarrow> bool" where
  "nip04_IsEncryptedDirectMessage k = (k = 4)"

definition nip04_GetRecipientPubKey :: "string list list \<Rightarrow> string option" where
  "nip04_GetRecipientPubKey ts = map_option (\<lambda>t. t ! 1) (find (\<lambda>t. 2 \<le> length t \<and> t ! 0 = ''p'') ts)"

definition ErrInvalidContentFormat :: error where
  "ErrInvalidContentFormat =
     ErrorString (''invalid content format, expected '' @ [CHR 0x27] @ ''?iv='' @ [CHR 0x27] @ '' separator'')"

definition ErrInvalidIVLength :: error where
  "ErrInvalidIVLength = ErrorString ''invalid IV length''"

definition ErrDecryptionFailed :: error where
  "ErrDecryptionFailed = ErrorString ''decryption failed''"

definition ParseContent :: "string \<Rightarrow> error + string \<times> string" where
  "ParseContent content =
    (let parts = SplitN2 content ''?iv='' in
     if length parts \<noteq> 2 then Inl ErrInvalidContentFormat
     else let ciphertext = parts ! 0; iv = parts ! 1 in
       if length iv = 0 then Inl ErrInvalidIVLength else Inr (ciphertext, iv))"

definition nip04_ValidateContent :: "string \<Rightarrow> error option" where
  "nip04_ValidateContent content = (case ParseContent content of Inl err \<Rightarrow> Some err | Inr _ \<Rightarrow> None)"

section \<open>Cipher block chaining\<close>

record 'b aes =
  NewCipher :: "string \<Rightarrow> error + 'b"
  EncryptBlock :: "'b \<Rightarrow> string \<Rightarrow> string"
  DecryptBlock :: "'b \<Rightarrow> string \<Rightarrow> string"

definition xor_char :: "char \<Rightarrow> char \<Rightarrow> char" where
  "xor_char a b = char_of (Bit_Operations.xor (byte a :: nat) (byte b))"

definition xor_block :: "string \<Rightarrow> string \<Rightarrow> string" where
  "xor_block a b = map2 xor_char a b"

text \<open>\<^verbatim>\<open>CryptBlocks\<close> over whole blocks of 16 bytes, each mixed with the previous ciphertext block.\<close>

function cbc_encrypt :: "(string \<Rightarrow> string) \<Rightarrow> string \<Rightarrow> string \<Rightarrow> string" where
  "cbc_encrypt E iv s =
     (if s = [] then []
      else let c = E (xor_block (take 16 s) iv) in c @ cbc_encrypt E c (drop 16 s))"
  by pat_completeness auto
termination by (relation "measure (\<lambda>(E, iv, s). length s)") auto

function cbc_decrypt :: "(string \<Rightarrow> string) \<Rightarrow> string \<Rightarrow> string \<Rightarrow> string" where
  "cbc_decrypt D iv s =
     (if s = [] then []
      else let c = take 16 s in xor_block (D c) iv @ cbc_decrypt D c (drop 16 s))"
  by pat_completeness auto
termination by (relation "measure (\<lambda>(D, iv, s). length s)") auto

declare cbc_encrypt.simps [simp del] cbc_decrypt.simps [simp del]

definition pad :: "string \<Rightarrow> string" where
  "pad s = (let padding = 16 - length s mod 16 in s @ replicate padding (char_of padding))"

definition unpad :: "string \<Rightarrow> error + string" where
  "unpad s =
    (if length s = 0 then Inl ErrDecryptionFailed
     else let padding = byte (s ! (length s - 1)) in
       if padding = 0 \<or> 16 < padding \<or> length s < padding then Inl ErrDecryptionFailed
       else if list_ex (\<lambda>c. c \<noteq> char_of padding) (drop (length s - padding) s) then Inl ErrDecryptionFailed
       else Inr (take (length s - padding) s))"

text \<open>\<open>rnd\<close> is the outcome of reading 16 random bytes.\<close>

definition Encrypt :: "'b aes \<Rightarrow> error + string \<Rightarrow> string \<Rightarrow> string \<Rightarrow> error + string" where
  "Encrypt A rnd plaintext key =
    (if length key \<noteq> 32 then Inl (ErrorString ''key must be 32 bytes for AES-256'')
     else (case NewCipher A key of
       Inl err \<Rightarrow> Inl (wrap_err ''failed to create cipher: '' err)
     | Inr block \<Rightarrow>
         let ciphertext = pad plaintext in
         (case rnd of
            Inl err \<Rightarrow> Inl (wrap_err ''failed to generate IV: '' err)
          | Inr iv \<Rightarrow> Inr (b64_encode (cbc_encrypt (EncryptBlock A block) iv ciphertext) @ ''?iv='' @ b64_encode iv))))"

definition Decrypt :: "'b aes \<Rightarrow> string \<Rightarrow> string \<Rightarrow> error + string" where
  "Decrypt A content key =
    (if length key \<noteq> 32 then Inl (ErrorString ''key must be 32 bytes for AES-256'')
     else (case ParseContent content of
       Inl err \<Rightarrow> Inl (wrap_err ''failed to parse content: '' err)
     | Inr (ciphertextB64, ivB64) \<Rightarrow>
       (case b64_decode ciphertextB64 of
          Inl err \<Rightarrow> Inl (wrap_err ''failed to decode ciphertext: '' err)
        | Inr ciphertext \<Rightarrow>
          (case b64_decode ivB64 of
             Inl err \<Rightarrow> Inl (wrap_err ''failed to decode IV: '' err)
           | Inr iv \<Rightarrow>
             if length iv \<noteq> 16 then Inl ErrInvalidIVLength
             else if length ciphertext mod 16 \<noteq> 0 then
               Inl (ErrorString ''ciphertext is not a multiple of block size'')
             else (case NewCipher A key of
               Inl err \<Rightarrow> Inl (wrap_err ''failed to create cipher: '' err)
             | Inr block \<Rightarrow> unpad (cbc_decrypt (DecryptBlock A block) iv ciphertext))))))"

section \<open>Round trip\<close>

text \<open>A block cipher that keeps the length of a block and is undone by its decryption.\<close>

definition block_cipher :: "(string \<Rightarrow> string) \<Rightarrow> (string \<Rightarrow> string) \<Rightarrow> bool" where
  "block_cipher E D \<longleftrightarrow> (\<forall>b. length b = 16 \<longrightarrow> length (E b) = 16 \<and> D (E b) = b)"

lemma xor_char_cancel: "xor_char (xor_char a b) b = a"
proof -
  have m: "Bit_Operations.xor (byte a :: nat) (byte b) mod 256 = Bit_Operations.xor (byte a) (byte b)"
  proof -
    have "take_bit 8 (Bit_Operations.xor (byte a :: nat) (byte b)) =
        Bit_Operations.xor (take_bit 8 (byte a)) (take_bit 8 (byte b))"
      by (rule take_bit_xor)
    also have "\<dots> = Bit_Operations.xor (byte a) (byte b)"
      using byte_less by (simp add: take_bit_eq_mod)
    finally show ?thesis by (simp add: take_bit_eq_mod)
  qed
  show ?thesis
    by (simp add: xor_char_def m xor.assoc)
qed

lemma xor_block_length [simp]: "length (xor_block a b) = min (length a) (length b)"
  by (simp add: xor_block_def)

lemma xor_block_cancel: "length a = length b \<Longrightarrow> xor_block (xor_block a b) b = a"
  by (rule nth_equalityI) (simp_all add: xor_block_def xor_char_cancel)

lemma cbc_roundtrip:
  assumes "block_cipher E D"
  shows "length iv = 16 \<Longrightarrow> length s mod 16 = 0 \<Longrightarrow>
    cbc_decrypt D iv (cbc_encrypt E iv s) = s \<and> length (cbc_encrypt E iv s) = length s"
proof (induction E\<equiv>E iv s rule: cbc_encrypt.induct)
  case (1 iv s)
  show ?case
  proof (cases "s = []")
    case True
    then show ?thesis by (simp add: cbc_encrypt.simps cbc_decrypt.simps)
  next
    case False
    define c where "c = E (xor_block (take 16 s) iv)"
    have l: "16 \<le> length s"
      using False 1(3) by (metis length_greater_0_conv mod_less not_le not_less_zero)
    then have x: "length (xor_block (take 16 s) iv) = 16" "length (take 16 s) = length iv"
      using 1(2) by simp_all
    then have c: "length c = 16" "D c = xor_block (take 16 s) iv"
      using assms by (simp_all add: c_def block_cipher_def)
    have "length (drop 16 s) mod 16 = 0"
      using l 1(3) by (metis le_mod_geq length_drop)
    from 1(1) [OF False refl] c(1) this
    have ih: "cbc_decrypt D c (cbc_encrypt E c (drop 16 s)) = drop 16 s"
      "length (cbc_encrypt E c (drop 16 s)) = length s - 16"
      by (simp_all add: c_def)
    have e: "cbc_encrypt E iv s = c @ cbc_encrypt E c (drop 16 s)"
      using False by (subst cbc_encrypt.simps) (simp add: c_def Let_def)
    have "c \<noteq> []" using c(1) by auto
    then have "cbc_decrypt D iv (c @ cbc_encrypt E c (drop 16 s)) = take 16 s @ drop 16 s"
      using c ih(1) x(2) by (subst cbc_decrypt.simps) (simp add: Let_def xor_block_cancel)
    then show ?thesis
      using e ih(2) c(1) l by simp
  qed
qed

lemma pad_unpad: "unpad (pad s) = Inr s" and pad_length: "length (pad s) mod 16 = 0" "pad s \<noteq> []"
proof -
  define p where "p = 16 - length s mod 16"
  have p: "1 \<le> p" "p \<le> 16"
    by (simp_all add: p_def Suc_le_eq)
  have d: "pad s = s @ replicate p (char_of p)"
    by (simp add: pad_def p_def Let_def)
  have "byte (pad s ! (length (pad s) - 1)) = p"
  proof -
    have "\<not> length s + p - 1 < length s" "length s + p - 1 - length s < p" using p by linarith+
    then show ?thesis using p by (simp add: d nth_append)
  qed
  then show "unpad (pad s) = Inr s"
    using p by (simp add: unpad_def d list_ex_iff Let_def)
  define q r where "q = length s div 16" and "r = length s mod 16"
  have "p + r = 16" "length s = 16 * q + r"
    by (simp_all add: p_def q_def r_def)
  then have "length s + p = 16 * (q + 1)"
    by (simp add: algebra_simps)
  then have "length (pad s) = 16 * (q + 1)"
    by (simp add: d)
  then show "length (pad s) mod 16 = 0"
    by (simp only: mod_mult_self1_is_0)
  show "pad s \<noteq> []" using p by (simp add: d)
qed

lemma b64_alphabet: "c \<in> set (b64_encode s) \<Longrightarrow> b64_val c \<noteq> None \<or> c = CHR ''=''"
proof (induction s rule: b64_encode.induct)
  case (2 a)
  note six = six_bits [OF byte_less [of a] byte_less [of a] byte_less [of a]]
  show ?case using 2 six(1-6) by (auto simp: b64_val_char)
next
  case (3 a b)
  note six = six_bits [OF byte_less [of a] byte_less [of b] byte_less [of a]]
  show ?case using 3 six(1-6) by (auto simp: b64_val_char)
next
  case (4 a b c s)
  note six = six_bits [OF byte_less [of a] byte_less [of b] byte_less [of c]]
  show ?case using 4 six(1-6) by (auto simp: b64_val_char)
qed simp

lemma b64_no_question: "c \<in> set (b64_encode s) \<Longrightarrow> c \<noteq> CHR ''?''"
  using b64_alphabet [of c s] by (auto simp: b64_val_def Let_def)

lemma split_first_marker:
  "\<forall>c \<in> set a. c \<noteq> CHR ''?'' \<Longrightarrow> split_first ''?iv='' (a @ ''?iv='' @ b) = Some (a, b)"
  by (induction a) auto

lemma b64_encode_nonempty: "s \<noteq> [] \<Longrightarrow> b64_encode s \<noteq> []"
  by (cases s rule: b64_encode.cases) auto

text \<open>C38: Decrypting an encrypted message with the same key gives the message back, for every text, every
  16-byte initialisation vector and every block cipher that decrypts what it encrypts; and the
  encrypted content is in the format the content check accepts.\<close>

theorem nip04_roundtrip:
  assumes "length key = 32" "NewCipher A key = Inr block" "length iv = 16"
    and "block_cipher (EncryptBlock A block) (DecryptBlock A block)"
  shows "\<exists>content. Encrypt A (Inr iv) plaintext key = Inr content
    \<and> Decrypt A content key = Inr plaintext \<and> nip04_ValidateContent content = None"
proof -
  define ct where "ct = cbc_encrypt (EncryptBlock A block) iv (pad plaintext)"
  define content where "content = b64_encode ct @ ''?iv='' @ b64_encode iv"
  have "iv \<noteq> []" using assms(3) by auto
  then have "b64_encode iv \<noteq> []" by (rule b64_encode_nonempty)
  then have parse: "ParseContent content = Inr (b64_encode ct, b64_encode iv)"
    using split_first_marker [of "b64_encode ct" "b64_encode iv"] b64_no_question
    by (auto simp: ParseContent_def SplitN2_def content_def)
  note cbc = cbc_roundtrip [OF assms(4,3) pad_length(1), of plaintext, folded ct_def]
  have "length ct mod 16 = 0" using cbc pad_length(1) by metis
  then have "Decrypt A content key = Inr plaintext"
    using assms parse cbc by (simp add: Decrypt_def b64_decode_def b64_roundtrip pad_unpad)
  moreover have "Encrypt A (Inr iv) plaintext key = Inr content"
    using assms by (simp add: Encrypt_def content_def ct_def Let_def)
  ultimately show ?thesis
    using parse by (simp add: nip04_ValidateContent_def)
qed

text \<open>A cipher that swaps the halves of a block.\<close>

definition swap_block :: "string \<Rightarrow> string" where
  "swap_block b = drop 8 b @ take 8 b"

definition swap_aes :: "unit aes" where
  "swap_aes = \<lparr>NewCipher = (\<lambda>_. Inr ()), EncryptBlock = (\<lambda>_. swap_block), DecryptBlock = (\<lambda>_. swap_block)\<rparr>"

lemma nip04_roundtrip_witness:
  "\<exists>content. Encrypt swap_aes (Inr (replicate 16 (CHR ''v''))) ''hi'' (replicate 32 (CHR ''k'')) = Inr content
    \<and> Decrypt swap_aes content (replicate 32 (CHR ''k'')) = Inr ''hi''"
proof -
  have "block_cipher swap_block swap_block"
    by (simp add: block_cipher_def swap_block_def)
  then show ?thesis
    using nip04_roundtrip [of "replicate 32 (CHR ''k'')" swap_aes "()" "replicate 16 (CHR ''v'')" "''hi''"]
    by (auto simp: swap_aes_def)
qed

end
