(* ===== verification/Nip17.thy ===== *)
theory Nip17
  imports JsonText
begin

text \<open>
  Private direct messages, \<^verbatim>\<open>pkg/nips/nip17/nip17.go\<close>: the accessors and the validation of unsigned
  rumors (kinds 14 and 15) and their construction. The export and import use the
  printer and parser of \<open>JsonText\<close>.

  Proved: a constructed rumor validates when it has a recipient (and a text), and reads back as it
  was built; an exported rumor is imported unchanged.
\<close>

definition IsPrivateDirectMessage :: "event \<Rightarrow> bool" where
  "IsPrivateDirectMessage e = (Kind e = 14)"

definition IsFileMessage :: "event \<Rightarrow> bool" where
  "IsFileMessage e = (Kind e = 15)"

definition GetRecipients :: "event \<Rightarrow> string list" where
  "GetRecipients e = GetTagValues e ''p''"

definition GetReplyTo :: "event \<Rightarrow> string option" where
  "GetReplyTo e = first_tag ''e'' e"

definition GetSubject :: "event \<Rightarrow> string option" where
  "GetSubject e = first_tag ''subject'' e"

record ValidationError =
  ve_Kind :: string
  ve_Message :: string

definition ValidateRumor :: "event \<Rightarrow> ValidationError option" where
  "ValidateRumor e =
    (if Kind e \<noteq> 14 \<and> Kind e \<noteq> 15 then
       Some \<lparr>ve_Kind = ''invalid_kind'', ve_Message = ''invalid event kind for NIP-17''\<rparr>
     else if GetRecipients e = [] then
       Some \<lparr>ve_Kind = ''missing_recipient'',
         ve_Message = ''NIP-17 event must have at least one '' @ [CHR 0x27, CHR ''p'', CHR 0x27] @ '' tag''\<rparr>
     else if Kind e = 14 \<and> Content e = [] then
       Some \<lparr>ve_Kind = ''empty_content'', ve_Message = ''NIP-17 private message content cannot be empty''\<rparr>
     else if Sig e \<noteq> [] then
       Some \<lparr>ve_Kind = ''signed_rumor'', ve_Message = ''NIP-17 rumors must not be signed''\<rparr>
     else None)"

definition CreatePrivateDirectMessage :: "string \<Rightarrow> string \<Rightarrow> string list \<Rightarrow> string option \<Rightarrow> event" where
  "CreatePrivateDirectMessage senderPubKey content recipients replyTo =
    \<lparr>ID = [], PubKey = senderPubKey, CreatedAt = 0, Kind = 14,
     Tags = Some (map (\<lambda>r. Some [''p'', r]) recipients
       @ (case replyTo of None \<Rightarrow> [] | Some i \<Rightarrow> [Some [''e'', i]])),
     Content = content, Sig = []\<rparr>"

definition CreateFileMessage :: "string \<Rightarrow> string \<Rightarrow> string \<Rightarrow> string \<Rightarrow> string list \<Rightarrow> event" where
  "CreateFileMessage senderPubKey content fileName mimeType recipients =
    \<lparr>ID = [], PubKey = senderPubKey, CreatedAt = 0, Kind = 15,
     Tags = Some (map (\<lambda>r. Some [''p'', r]) recipients
       @ (if fileName \<noteq> [] then [Some [''filename'', fileName]] else [])
       @ (if mimeType \<noteq> [] then [Some [''mimetype'', mimeType]] else [])),
     Content = content, Sig = []\<rparr>"

lemma GetTagValues_filter:
  "GetTagValues e n = map (\<lambda>t. t ! 1) (filter (\<lambda>t. 2 \<le> length t \<and> t ! 0 = n) (tags e))"
  by (simp add: GetTagValues_eq)

lemma p_tags_recipients:
  "map ((\<lambda>t. t ! Suc 0) \<circ> (elems \<circ> (\<lambda>r. Some [''p'', r]))) rs = rs"
  by (induction rs) simp_all

lemma find_p_tags:
  "find (\<lambda>t. 2 \<le> length t \<and> t ! 0 = ''e'') (map (elems \<circ> (\<lambda>r. Some [''p'', r])) rs @ ts)
    = find (\<lambda>t. 2 \<le> length t \<and> t ! 0 = ''e'') ts"
  by (induction rs) simp_all

text \<open>A constructed direct message reads back as it was built: its recipients in order and its reply
  target; and it validates exactly when it has a recipient and a text.\<close>

theorem CreatePrivateDirectMessage_roundtrip:
  "GetRecipients (CreatePrivateDirectMessage pk c rs re) = rs
    \<and> GetReplyTo (CreatePrivateDirectMessage pk c rs re) = re
    \<and> (ValidateRumor (CreatePrivateDirectMessage pk c rs re) = None \<longleftrightarrow> rs \<noteq> [] \<and> c \<noteq> [])"
proof -
  let ?e = "CreatePrivateDirectMessage pk c rs re"
  have r: "GetRecipients ?e = rs"
    by (cases re) (simp_all add: GetRecipients_def GetTagValues_filter CreatePrivateDirectMessage_def tags_def
      p_tags_recipients)
  have "GetReplyTo ?e = re"
    by (cases re) (simp_all add: GetReplyTo_def first_tag_def CreatePrivateDirectMessage_def tags_def find_p_tags
      find_p_tags [where ts = "[]", simplified])
  moreover have "ValidateRumor ?e = None \<longleftrightarrow> rs \<noteq> [] \<and> c \<noteq> []"
    unfolding ValidateRumor_def r by (simp add: CreatePrivateDirectMessage_def)
  ultimately show ?thesis using r by blast
qed

lemma CreateFileMessage_recipients:
  "GetRecipients (CreateFileMessage pk c fn mt rs) = rs"
  by (simp add: GetRecipients_def GetTagValues_filter CreateFileMessage_def tags_def p_tags_recipients)

section \<open>Export and import\<close>

definition ExportRumor :: "event \<Rightarrow> ValidationError + string" where
  "ExportRumor rumor = (case ValidateRumor rumor of Some err \<Rightarrow> Inl err | None \<Rightarrow> Inr (event_json rumor))"

text \<open>\<open>json_error\<close> is the text of the decoder's error.\<close>

definition ImportRumor :: "unicode \<Rightarrow> (string \<Rightarrow> string) \<Rightarrow> string \<Rightarrow> ValidationError + event" where
  "ImportRumor U json_error data =
    (case (case parse_json data of None \<Rightarrow> None | Some j \<Rightarrow> as_event U j) of
       None \<Rightarrow> Inl \<lparr>ve_Kind = ''invalid_json'', ve_Message = ''failed to unmarshal rumor: '' @ json_error data\<rparr>
     | Some rumor \<Rightarrow> (case ValidateRumor rumor of Some err \<Rightarrow> Inl err | None \<Rightarrow> Inr rumor))"

text \<open>A rumor that is exported is imported unchanged, and what is imported is a valid rumor.\<close>

theorem rumor_roundtrip:
  assumes "wire_event rumor" "ExportRumor rumor = Inr data"
  shows "ImportRumor U json_error data = Inr rumor \<and> (\<forall>data' r. ImportRumor U json_error data' = Inr r \<longrightarrow> ValidateRumor r = None)"
proof -
  have "ValidateRumor rumor = None" "data = event_json rumor"
    using assms(2) by (simp_all add: ExportRumor_def split: option.splits)
  moreover have "ValidateRumor r = None" if "ImportRumor U json_error data' = Inr r" for data' r
    using that by (simp add: ImportRumor_def split: option.splits)
  ultimately show ?thesis
    using parse_event_json [OF assms(1)] as_event_value [OF assms(1), of U] by (simp add: ImportRumor_def)
qed

lemma rumor_roundtrip_witness:
  "\<exists>data. ExportRumor (CreatePrivateDirectMessage ''aa'' ''hi'' [''bb''] None) = Inr data \<and>
    ImportRumor plain_case (\<lambda>_. []) data = Inr (CreatePrivateDirectMessage ''aa'' ''hi'' [''bb''] None)"
proof -
  let ?r = "CreatePrivateDirectMessage ''aa'' ''hi'' [''bb''] None"
  have w: "wire_event ?r"
    by (simp add: CreatePrivateDirectMessage_def wire_event_def utf8_event_def utf8_tags_def in64_def ascii_valid_utf8
      ascii_def del: valid_utf8.simps)
  have "ValidateRumor ?r = None"
    by (simp add: CreatePrivateDirectMessage_def ValidateRumor_def GetRecipients_def GetTagValues_filter tags_def)
  then have "ExportRumor ?r = Inr (event_json ?r)" by (simp add: ExportRumor_def)
  with rumor_roundtrip [OF w this, of plain_case "\<lambda>_. []"] show ?thesis by blast
qed

end
