(* ===== verification/Nip56.thy ===== *)
theory Nip56
  imports Storage
begin

text \<open>
  Reports, \<^verbatim>\<open>pkg/nips/nip56/nip56.go\<close>: validation of kind 1984 events and the blobs a report names,
  collected by a loop that keeps a current blob. Proved: which reports validate, and that no blob
  with an empty hash is reported.
\<close>

definition GetReportTypes :: "string list" where
  "GetReportTypes = [''nudity'', ''malware'', ''profanity'', ''illegal'', ''spam'', ''impersonation'', ''other'']"

definition IsValidReportType :: "string \<Rightarrow> bool" where
  "IsValidReportType t = (t \<in> set GetReportTypes)"

definition IsReportEvent :: "event \<Rightarrow> bool" where
  "IsReportEvent e = (Kind e = 1984)"

definition bad_type :: "string list \<Rightarrow> bool" where
  "bad_type t \<longleftrightarrow> 3 \<le> length t \<and> t ! 2 \<noteq> [] \<and> \<not> IsValidReportType (t ! 2)"

text \<open>The loop: an error, or the reported key and whether there was a \<open>p\<close> tag.\<close>

fun report_loop :: "string list list \<Rightarrow> string \<Rightarrow> bool \<Rightarrow> error + string \<times> bool" where
  "report_loop [] reportedPubkey hasPTag = Inr (reportedPubkey, hasPTag)"
| "report_loop (t # ts) reportedPubkey hasPTag =
     (if length t < 2 then report_loop ts reportedPubkey hasPTag
      else if t ! 0 = ''p'' then
        (if bad_type t then Inl (ErrorString (''invalid report type: '' @ t ! 2))
         else report_loop ts (if reportedPubkey = [] then t ! 1 else reportedPubkey) True)
      else if t ! 0 = ''e'' \<or> t ! 0 = ''x'' then
        (if bad_type t then Inl (ErrorString (''invalid report type: '' @ t ! 2))
         else report_loop ts reportedPubkey hasPTag)
      else report_loop ts reportedPubkey hasPTag)"

definition ValidateReportEvent :: "event \<Rightarrow> error option" where
  "ValidateReportEvent e =
    (if \<not> IsReportEvent e then Errorf (''event kind '' @ show_int (Kind e) @ '' is not a report (1984)'')
     else (case report_loop (tags e) [] False of
       Inl err \<Rightarrow> Some err
     | Inr (reportedPubkey, hasPTag) \<Rightarrow>
         if \<not> hasPTag then Errorf (''missing required '' @ [CHR 0x27, CHR ''p'', CHR 0x27] @ '' tag for reported pubkey'')
         else if reportedPubkey = [] then Errorf ''p tag cannot have empty pubkey''
         else None))"

definition GetReportedPubKey :: "event \<Rightarrow> string" where
  "GetReportedPubKey e = (if \<not> IsReportEvent e then [] else first_tag_or_empty ''p'' e)"

definition GetReportedEventIDs :: "event \<Rightarrow> string list" where
  "GetReportedEventIDs e = (if \<not> IsReportEvent e then [] else GetTagValues e ''e'')"

record BlobReport =
  br_Hash :: string
  br_Type :: string
  br_Server :: string
  br_EventID :: string

definition no_blob :: BlobReport where
  "no_blob = \<lparr>br_Hash = [], br_Type = [], br_Server = [], br_EventID = []\<rparr>"

fun blobs_loop :: "string list list \<Rightarrow> BlobReport list \<Rightarrow> BlobReport \<Rightarrow> BlobReport list" where
  "blobs_loop [] blobs cur = (if br_Hash cur \<noteq> [] then blobs @ [cur] else blobs)"
| "blobs_loop (t # ts) blobs cur =
     (if 2 \<le> length t \<and> t ! 0 = ''x'' then
        blobs_loop ts (if br_Hash cur \<noteq> [] \<and> br_Hash cur \<noteq> t ! 1 then blobs @ [cur] else blobs)
          (no_blob\<lparr>br_Hash := t ! 1, br_Type := (if 3 \<le> length t then t ! 2 else [])\<rparr>)
      else if 2 \<le> length t \<and> t ! 0 = ''e'' \<and> br_Hash cur \<noteq> [] then
        blobs_loop ts blobs (cur\<lparr>br_EventID := t ! 1,
          br_Type := (if 3 \<le> length t \<and> br_Type cur = [] then t ! 2 else br_Type cur)\<rparr>)
      else if 2 \<le> length t \<and> t ! 0 = ''server'' \<and> br_Hash cur \<noteq> [] then
        blobs_loop ts blobs (cur\<lparr>br_Server := t ! 1\<rparr>)
      else blobs_loop ts blobs cur)"

definition GetReportedBlobs :: "event \<Rightarrow> BlobReport list" where
  "GetReportedBlobs e = (if \<not> IsReportEvent e then [] else blobs_loop (tags e) [] no_blob)"

definition typed :: "string list \<Rightarrow> bool" where
  "typed t \<longleftrightarrow> 2 \<le> length t \<and> (t ! 0 = ''p'' \<or> t ! 0 = ''e'' \<or> t ! 0 = ''x'')"

abbreviation p_tag :: "string list \<Rightarrow> bool" where
  "p_tag t \<equiv> 2 \<le> length t \<and> t ! 0 = ''p''"

lemma report_loop_ok:
  "(\<exists>k h. report_loop ts pk has = Inr (k, h) \<and> h \<and> k \<noteq> []) \<longleftrightarrow>
    (\<forall>t \<in> set ts. typed t \<longrightarrow> \<not> bad_type t) \<and> (has \<or> (\<exists>t \<in> set ts. p_tag t)) \<and>
    (pk \<noteq> [] \<or> (\<exists>t \<in> set ts. p_tag t \<and> t ! 1 \<noteq> []))"
proof (induction ts arbitrary: pk has)
  case (Cons t ts)
  consider "length t < 2" | "p_tag t" "bad_type t" | "p_tag t" "\<not> bad_type t" "pk = []"
    | "p_tag t" "\<not> bad_type t" "pk \<noteq> []" | "2 \<le> length t" "t ! 0 = ''e'' \<or> t ! 0 = ''x''"
    | "2 \<le> length t" "t ! 0 \<noteq> ''p''" "t ! 0 \<noteq> ''e''" "t ! 0 \<noteq> ''x''"
    by force
  then show ?case
    by cases (auto simp: Cons.IH typed_def)
qed auto

text \<open>A report validates exactly when some \<open>p\<close> tag names a non-empty key and no \<open>p\<close>, \<open>e\<close> or \<open>x\<close> tag
  carries a report type outside the seven of the specification.\<close>

theorem ValidateReportEvent_ok:
  "ValidateReportEvent e = None \<longleftrightarrow> Kind e = 1984 \<and>
    (\<nexists>t. t \<in> set (tags e) \<and> typed t \<and> bad_type t) \<and>
    (\<exists>t \<in> set (tags e). 2 \<le> length t \<and> t ! 0 = ''p'' \<and> t ! 1 \<noteq> [])"
proof -
  have "ValidateReportEvent e = None \<longleftrightarrow>
      Kind e = 1984 \<and> (\<exists>k h. report_loop (tags e) [] False = Inr (k, h) \<and> h \<and> k \<noteq> [])"
    by (auto simp: ValidateReportEvent_def IsReportEvent_def split: sum.splits)
  then show ?thesis unfolding report_loop_ok by blast
qed

lemma blobs_loop_hash:
  "\<forall>b \<in> set blobs. br_Hash b \<noteq> [] \<Longrightarrow> \<forall>b \<in> set (blobs_loop ts blobs cur). br_Hash b \<noteq> []"
proof (induction ts arbitrary: blobs cur)
  case (Cons t ts)
  have keep: "\<forall>b \<in> set (blobs_loop ts blobs c). br_Hash b \<noteq> []" for c
    by (rule Cons.IH [OF Cons.prems])
  have add: "br_Hash cur \<noteq> [] \<Longrightarrow> \<forall>b \<in> set (blobs_loop ts (blobs @ [cur]) c). br_Hash b \<noteq> []" for c
    by (rule Cons.IH) (use Cons.prems in simp)
  show ?case
    using keep add by (simp only: blobs_loop.simps split: if_split) blast
qed simp

lemma GetReportedBlobs_hash: "b \<in> set (GetReportedBlobs e) \<Longrightarrow> br_Hash b \<noteq> []"
  using blobs_loop_hash [of "[]"] by (simp add: GetReportedBlobs_def split: if_splits)

end
