(* ===== verification/Spec2Isabelle.thy ===== *)
theory Spec2Isabelle
  imports TestClient Startup Pumps Nip04 Nip17 Nip56
begin

text \<open>
  The Glienicke Nostr relay, a Go program: clients publish signed events over websockets, the relay
  validates and stores them, answers queries and passes new events on to subscribers. The development
  models the program function by function and proves what makes it correct; where the code does
  something else than it means to, a theorem says what it does.

  \<^bold>\<open>How the parts interact.\<close> The command (\<^verbatim>\<open>cmd/relay/main.go\<close>) opens the SQLite store and starts a relay
  over it. The relay (\<^verbatim>\<open>pkg/relay\<close>) gives every accepted connection a client (\<^verbatim>\<open>pkg/protocol\<close>), whose read
  pump decodes the messages and calls the relay's handlers, and whose write pump sends what was put into
  its channel. The handlers check an event with the NIP packages (\<^verbatim>\<open>pkg/nips\<close>), save it through the
  storage interface (\<^verbatim>\<open>pkg/storage\<close>), which the stores \<^verbatim>\<open>internal/store/memory\<close> and \<^verbatim>\<open>internal/store/sqlite\<close>
  implement, and start one goroutine for each client to deliver it.

  \<^bold>\<open>The theories and the code.\<close>
  \<^item> Foundations: \<open>Prelude\<close> (errors, outcomes with panics, slices, Go maps, 64-bit wrap-around),
    \<open>GoStrings\<close> (\<^verbatim>\<open>strings\<close>, \<^verbatim>\<open>strconv\<close>, UTF-8, \<^verbatim>\<open>hex\<close>), \<open>Base64\<close>, \<open>Json\<close>, \<open>Decode\<close> and \<open>JsonText\<close>
    (\<^verbatim>\<open>encoding/json\<close>: the string encoder, decoding into Go types, the grammar and the printer).
  \<^item> Events and storage: \<open>Event\<close> (\<^verbatim>\<open>pkg/event\<close>), \<open>Storage\<close> (\<^verbatim>\<open>pkg/storage\<close>, with its contract as the locales
    \<open>storage\<close> and \<open>healthy_storage\<close>), \<open>MemoryStore\<close> and \<open>MemoryProps\<close> (\<^verbatim>\<open>internal/store/memory\<close>), \<open>SqlEngine\<close>,
    \<open>TagsJson\<close>, \<open>SqliteStore\<close>, \<open>SqliteProps\<close> and \<open>SqliteQueries\<close> (\<^verbatim>\<open>internal/store/sqlite\<close>). Both stores
    interpret the contract; the handlers of deletions and vanish requests are proved over it.
  \<^item> The NIPs: \<open>Nip02\<close>, \<open>Nip04\<close>, \<open>Nip09\<close>, \<open>Nip17\<close>, \<open>Nip22\<close>, \<open>Nip25\<close>, \<open>Nip28\<close>, \<open>Nip36\<close>, \<open>Nip40\<close>, \<open>Nip42\<close> (with
    NIP-44), \<open>Nip50\<close>, \<open>Nip56\<close>, \<open>Nip59\<close>, \<open>Nip62\<close>, \<open>Nip65\<close>, each the package of its number.
  \<^item> Connections and the relay: \<open>Protocol\<close> and \<open>Pumps\<close> (\<^verbatim>\<open>pkg/protocol\<close>: the client's state and messages;
    its goroutines and channels), \<open>RateLimit\<close> and \<open>Relay\<close> (\<^verbatim>\<open>pkg/relay\<close>; the information document of
    \<^verbatim>\<open>pkg/nips/nip11\<close> too).
  \<^item> Compositions: \<open>System\<close> (every interleaving of connections, messages, deliveries, retention and health
    checks over any store; interpreted for the in-memory store), \<open>SqliteSystem\<close> (the same over SQLite,
    and the two stores against each other), \<open>Wire\<close> (from the bytes of one client to those of another),
    \<open>TestKeys\<close> and \<open>TestClient\<close> (\<^verbatim>\<open>internal/testutil\<close> and the helpers of \<^verbatim>\<open>test/integration\<close>: signed events
    and the websocket client, run against the relay).
  \<^item> Around them: \<open>Config\<close> (\<^verbatim>\<open>pkg/config\<close>) and \<open>Startup\<close> (\<^verbatim>\<open>cmd/relay\<close> and the background loops).

  A struct is a record with the names of its fields, an operation a definition with the name of its
  function (\<open>mem_\<close> or \<open>sq_\<close> before it where both stores have it), a method that changes its receiver
  returns it changed.

  \<^bold>\<open>What is proved.\<close>
  \<^item> Safety of the system: every event a client is ever sent passed validation, over SQLite up to its
    tags; nobody is authenticated but by a validated answer to the challenge; who was asked to
    authenticate and has not gets nothing; at most 20 subscriptions; a banned address is cut off; the
    rate limit's bound over any period.
  \<^item> What the operations achieve: an accepted event is readable, queued for every client and acknowledged;
    from its bytes to the bytes a subscriber reads; the exact answer to a query, of a delivery, of a
    retention run, of a deletion; a query and a publication from the test client's call to its return.
  \<^item> Connections: the channel keeps its order and its bound, no goroutine is stuck for good, after a close
    all end, and handlers send as if sends were atomic.
  \<^item> Stores: the invariants of the maps and the tables under every operation and failure, the contract of
    the interface, finality of deletions, batches as a whole or not at all, and the equivalence of the two
    stores on regular events.
  \<^item> Round trips: events, filters and messages through JSON, tags through their column, texts through AES-CBC, gift
    wraps, rumors.
  \<^item> Error behaviour: the theorems that say where deleted events return, commas are lost, a negative limit
    stops the relay, a channel is wiped by a stranger, a seal opens only for its sender.

  \<^bold>\<open>Parameters.\<close> What is not in the repository is an argument of the definitions: the SQL engine (the
  locale \<open>sql_engine\<close> states what it promises; it may fail at every call), the Schnorr and hash functions,
  the AES block cipher, go-nostr's encryption and signing, the YAML decoder, the Unicode case tables, the
  rounding of \<^verbatim>\<open>float64\<close>, the clock, the file system, the iteration order of Go maps and the order
  \<^verbatim>\<open>sort.Slice\<close> gives to ties. Witnesses instantiate each of them.

  \<^bold>\<open>Bounds.\<close> No recursion uses fuel: each is structural or has a measure. The numbers are the code's (256
  messages in a channel, 20 subscriptions, 10 messages a second with bursts of 20, 10 violations, 100
  events per answer) and the library's (JSON nested 10000 deep at most, lines of 64 KiB). Integers are
  unbounded where Go's cannot overflow; where they can the wrap-around is written out (\<open>Nip40\<close>, retention).

  \<^bold>\<open>Assumptions.\<close> A call of the SQLite store that loops over rows reads the clock once; a write to a socket
  returns, with or without an error (the code sets no deadline for it). A handler is one step of the
  system: the stores' own locks make their calls atomic, and \<open>Pumps\<close> justifies the atomic sends.

  \<^bold>\<open>Not modelled.\<close> The HTTP server and its routes (\<^verbatim>\<open>Start\<close>, \<^verbatim>\<open>StartTLS\<close>, \<^verbatim>\<open>GetMux\<close>), signals, logging, the
  readings of memory and uptime, \<^verbatim>\<open>RemoteAddr\<close>, closing the database handle: input and output without
  logic of their own.
\<close>

end
